(* ===== verification/Xv6_Prelude.thy ===== *)
theory Xv6_Prelude
  imports Main "HOL-Library.Word"
begin

unbundle bit_operations_syntax

text \<open>
  Shared ground of the development: machine words, the outcome of a kernel function,
  little-endian byte encodings, and byte-addressed memory with its read and write laws.
\<close>

named_theorems res_simps
named_theorems mem_simps
named_theorems frame_simps

type_synonym u8 = "8 word"
type_synonym u16 = "16 word"
type_synonym u32 = "32 word"
type_synonym u64 = "64 word"
type_synonym mem = "u64 \<Rightarrow> u8"

lemma u64_less: "unat (a :: u64) < 18446744073709551616"
  using unsigned_less [of a, where ?'a = nat] by simp

section \<open>Outcomes of kernel functions\<close>

text \<open>
  A kernel function either returns a value, or calls \<open>panic\<close> (which never returns), or
  loops for ever (\<open>Stuck\<close>: it spins on a lock that nobody will release, or follows a
  pointer cycle).
\<close>

datatype fault = Panic string | Stuck

type_synonym 'a res = "fault + 'a"

definition bindR :: "'a res \<Rightarrow> ('a \<Rightarrow> 'b res) \<Rightarrow> 'b res" where
  "bindR m f = (case m of Inl e \<Rightarrow> Inl e | Inr x \<Rightarrow> f x)"

definition panic :: "string \<Rightarrow> 'a res" where
  "panic msg = Inl (Panic msg)"

lemma bindR_simps [simp, res_simps]:
  "bindR (Inl e) f = Inl e"
  "bindR (Inr x) f = f x"
  by (simp_all add: bindR_def)

lemma bindR_panic [simp, res_simps]: "bindR (panic msg) f = panic msg"
  by (simp add: panic_def)

lemma panic_neq [simp, res_simps]:
  "panic msg \<noteq> Inr x" "Inr x \<noteq> panic msg" "Inl Stuck \<noteq> panic msg" "panic msg \<noteq> Inl Stuck"
  by (simp_all add: panic_def)

lemma panic_inject [simp]: "panic a = panic b \<longleftrightarrow> a = b"
  by (simp add: panic_def)

lemma bindR_eq_Inr: "bindR m f = Inr y \<longleftrightarrow> (\<exists>x. m = Inr x \<and> f x = Inr y)"
  by (simp add: bindR_def split: sum.splits)

lemma bindR_InrE [elim!]:
  assumes "bindR m f = Inr y"
  obtains x where "m = Inr x" and "f x = Inr y"
  using assms by (auto simp: bindR_eq_Inr)

lemma bindR_assoc: "bindR (bindR m f) g = bindR m (\<lambda>x. bindR (f x) g)"
  by (simp add: bindR_def split: sum.splits)

lemma bindR_cong [fundef_cong]:
  assumes "m = m'" and "\<And>x. m' = Inr x \<Longrightarrow> f x = f' x"
  shows "bindR m f = bindR m' f'"
  using assms by (simp add: bindR_def split: sum.splits)

text \<open>A counted loop whose body may stop it by failing.\<close>

primrec forR :: "('i \<Rightarrow> 's \<Rightarrow> (unit \<times> 's) res) \<Rightarrow> 'i list \<Rightarrow> 's \<Rightarrow> (unit \<times> 's) res" where
  "forR f [] s = Inr ((), s)"
| "forR f (i # is) s = bindR (f i s) (\<lambda>(_, s). forR f is s)"

lemma forR_append: "forR f (is @ js) s = bindR (forR f is s) (\<lambda>(_, s). forR f js s)"
  by (induction "is" arbitrary: s) (auto simp: bindR_def split: sum.splits)

lemma forR_invariant:
  assumes "I 0 s"
    and "\<And>k s. k < length is \<Longrightarrow> I k s \<Longrightarrow> \<exists>s'. f (is ! k) s = Inr ((), s') \<and> I (Suc k) s'"
  shows "\<exists>s'. forR f is s = Inr ((), s') \<and> I (length is) s'"
  using assms
proof (induction "is" arbitrary: I s)
  case Nil
  then show ?case by simp
next
  case (Cons i "is")
  from Cons.prems(2) [of 0 s] Cons.prems(1) obtain s1 where s1: "f i s = Inr ((), s1)" "I 1 s1" by auto
  have "\<exists>s'. forR f is s1 = Inr ((), s') \<and> I (Suc (length is)) s'"
    using Cons.IH [of "\<lambda>k. I (Suc k)" s1] s1(2) Cons.prems(2) [of "Suc k" for k] by simp
  with s1(1) show ?case by simp
qed

section \<open>Addresses\<close>

lemma unat_of_nat_u64: "k < 2 ^ 64 \<Longrightarrow> unat (of_nat k :: u64) = k"
  by (simp add: unsigned_of_nat take_bit_nat_eq_self)

lemma unat_add_of_nat: "unat (a :: u64) + k < 2 ^ 64 \<Longrightarrow> unat (a + of_nat k) = unat a + k"
  by (simp add: unat_word_ariths(1) unat_of_nat_u64)

lemma unat_sub_of_nat: "i \<le> unat (y :: u64) \<Longrightarrow> unat (y - of_nat i) = unat y - i"
  using u64_less [of y] by (simp add: unat_sub_if' unsigned_of_nat take_bit_nat_eq_self)

lemma sint_of_nat_small: "n < 2 ^ 31 \<Longrightarrow> sint (of_nat n :: u32) = int n"
  by (simp add: sint_uint uint_nat signed_take_bit_int_eq_self unat_of_nat)

section \<open>Little-endian encodings\<close>

primrec of_bytes :: "u8 list \<Rightarrow> 'a::len word" where
  "of_bytes [] = 0"
| "of_bytes (b # bs) = ucast b OR push_bit 8 (of_bytes bs)"

primrec to_bytes :: "nat \<Rightarrow> 'a::len word \<Rightarrow> u8 list" where
  "to_bytes 0 w = []"
| "to_bytes (Suc k) w = ucast w # to_bytes k (drop_bit 8 w)"

lemma length_to_bytes [simp]: "length (to_bytes k w) = k"
  by (induction k arbitrary: w) simp_all

lemma bit_of_bytes:
  "bit (of_bytes bs :: 'a::len word) n \<longleftrightarrow>
     n < LENGTH('a) \<and> n < 8 * length bs \<and> bit (bs ! (n div 8)) (n mod 8)"
proof (induction bs arbitrary: n)
  case Nil
  then show ?case by simp
next
  case (Cons b bs)
  show ?case
  proof (cases "n < 8")
    case True
    then show ?thesis
      by (auto simp: bit_or_iff bit_push_bit_iff bit_ucast_iff)
  next
    case False
    then obtain k where k: "n = k + 8"
      by (metis add.commute le_Suc_ex not_less)
    have "\<not> bit b (k + 8)"
      by (auto dest: bit_imp_le_length)
    moreover have "(b # bs) ! ((k + 8) div 8) = bs ! (k div 8)"
      by (simp add: div_add_self2)
    ultimately show ?thesis
      using Cons.IH [of k] by (auto simp: k bit_or_iff bit_push_bit_iff bit_ucast_iff)
  qed
qed

lemma nth_to_bytes: "i < k \<Longrightarrow> to_bytes k w ! i = ucast (drop_bit (8 * i) w)"
proof (induction k arbitrary: w i)
  case 0
  then show ?case by simp
next
  case (Suc k)
  then show ?case
    by (cases i) (simp_all add: algebra_simps)
qed

lemma of_bytes_to_bytes [simp]:
  assumes "LENGTH('a) \<le> 8 * k"
  shows "of_bytes (to_bytes k w) = (w :: 'a::len word)"
proof (rule bit_word_eqI)
  fix n
  assume n: "n < LENGTH('a)"
  with assms have "n div 8 < k" by auto
  with n assms show "bit (of_bytes (to_bytes k w) :: 'a word) n \<longleftrightarrow> bit w n"
    by (auto simp: bit_of_bytes nth_to_bytes bit_ucast_iff bit_drop_bit_eq)
qed

section \<open>Byte-addressed memory\<close>

definition mem_read :: "mem \<Rightarrow> u64 \<Rightarrow> nat \<Rightarrow> u8 list" where
  "mem_read m a k = map (\<lambda>i. m (a + of_nat i)) [0..<k]"

definition mem_write :: "mem \<Rightarrow> u64 \<Rightarrow> u8 list \<Rightarrow> mem" where
  "mem_write m a bs = (\<lambda>x. if unat (x - a) < length bs then bs ! unat (x - a) else m x)"

definition ld64 :: "mem \<Rightarrow> u64 \<Rightarrow> u64" where
  "ld64 m a = of_bytes (mem_read m a 8)"

definition st64 :: "mem \<Rightarrow> u64 \<Rightarrow> u64 \<Rightarrow> mem" where
  "st64 m a v = mem_write m a (to_bytes 8 v)"

lemma length_mem_read [simp]: "length (mem_read m a k) = k"
  by (simp add: mem_read_def)

lemma nth_mem_read [simp]: "i < k \<Longrightarrow> mem_read m a k ! i = m (a + of_nat i)"
  by (simp add: mem_read_def)

lemma mem_write_Nil [simp]: "mem_write m a [] = m"
  by (simp add: mem_write_def)

lemma mem_write_other [mem_simps]:
  "length bs \<le> unat (x - a) \<Longrightarrow> mem_write m a bs x = m x"
  by (simp add: mem_write_def)

lemma mem_write_at [mem_simps]:
  "i < length bs \<Longrightarrow> length bs \<le> 2 ^ 64 \<Longrightarrow> mem_write m a bs (a + of_nat i) = bs ! i"
  by (simp add: mem_write_def unat_of_nat)

lemma mem_read_write_same [simp, mem_simps]:
  assumes "k = length bs" and "length bs \<le> 2 ^ 64"
  shows "mem_read (mem_write m a bs) a k = bs"
  using assms by (intro nth_equalityI) (simp_all add: mem_write_at)

text \<open>Two byte ranges that do not meet, written so that it also speaks about wrap-around.\<close>

definition apart :: "u64 \<Rightarrow> nat \<Rightarrow> u64 \<Rightarrow> nat \<Rightarrow> bool" where
  "apart a k b l \<longleftrightarrow> k \<le> unat (b - a) \<and> l \<le> unat (a - b)"

lemma apart_sym: "apart a k b l \<longleftrightarrow> apart b l a k"
  by (auto simp: apart_def)

lemma apart_offset:
  assumes "apart a k b l" and "i < k"
  shows "l \<le> unat (a + of_nat i - b)"
proof -
  have "a \<noteq> b" using assms by (auto simp: apart_def)
  then have "unat a \<noteq> unat b" by (simp add: word_unat_eq_iff)
  then have sum: "unat (b - a) + unat (a - b) = 2 ^ 64"
    using u64_less [of a] u64_less [of b] by (cases "unat a \<le> unat b") (simp_all add: unat_sub_if')
  moreover have "k \<le> unat (b - a)"
    using assms(1) by (simp add: apart_def)
  ultimately have small: "unat (a - b) + i < 2 ^ 64"
    using assms(2) by linarith
  have "a + of_nat i - b = of_nat (unat (a - b) + i)"
    by simp
  then have "unat (a + of_nat i - b) = (unat (a - b) + i) mod 2 ^ 64"
    by (simp only: unat_of_nat) (simp add: take_bit_eq_mod)
  also have "\<dots> = unat (a - b) + i"
    using small by (rule mod_less)
  finally show ?thesis
    using assms(1) by (simp add: apart_def)
qed

lemma mem_read_write_apart [mem_simps]:
  assumes "apart a k b (length bs)"
  shows "mem_read (mem_write m b bs) a k = mem_read m a k"
  using apart_offset [OF assms] by (auto simp: mem_read_def mem_write_def not_less [symmetric])

lemma ld64_st64_same [simp, mem_simps]: "ld64 (st64 m a v) a = v"
  by (simp add: ld64_def st64_def)

lemma ld64_write_apart [mem_simps]:
  "apart a 8 b (length bs) \<Longrightarrow> ld64 (mem_write m b bs) a = ld64 m a"
  by (simp add: ld64_def mem_read_write_apart)

lemma ld64_st64_apart [mem_simps]: "apart a 8 b 8 \<Longrightarrow> ld64 (st64 m b v) a = ld64 m a"
  by (simp add: st64_def ld64_write_apart)

end
