(* ===== verification/Riscv.thy ===== *)
theory Riscv
  imports Xv6_Prelude
begin

text \<open>
  The machine the kernel runs on: the control and status registers of one hart with their
  accessors (\<open>kernel/riscv.h\<close>), the constants of \<open>kernel/param.h\<close> and
  \<open>kernel/memlayout.h\<close>, and the address arithmetic of Sv39 page tables.  The lemmas turn
  the bit operations of the macros into arithmetic on \<open>nat\<close> and show that a page-table
  entry gives back the address and the flags it was built from.
\<close>

section \<open>Control and status registers\<close>

text \<open>
  One field per register that \<open>riscv.h\<close> reads or writes; \<open>csr_sfences\<close> counts the
  TLB flushes a hart has executed.
\<close>

record csr =
  csr_mhartid :: u64
  csr_mstatus :: u64
  csr_mepc :: u64
  csr_sstatus :: u64
  csr_sip :: u64
  csr_sie :: u64
  csr_mie :: u64
  csr_sepc :: u64
  csr_medeleg :: u64
  csr_mideleg :: u64
  csr_stvec :: u64
  csr_mtvec :: u64
  csr_pmpcfg0 :: u64
  csr_pmpaddr0 :: u64
  csr_satp :: u64
  csr_mscratch :: u64
  csr_scause :: u64
  csr_stval :: u64
  csr_mcounteren :: u64
  csr_time :: u64
  csr_sp :: u64
  csr_tp :: u64
  csr_ra :: u64
  csr_sfences :: nat

definition r_mhartid :: "csr \<Rightarrow> u64" where
  "r_mhartid c = csr_mhartid c"

definition r_mstatus :: "csr \<Rightarrow> u64" where
  "r_mstatus c = csr_mstatus c"

definition w_mstatus :: "u64 \<Rightarrow> csr \<Rightarrow> csr" where
  "w_mstatus x c = c\<lparr>csr_mstatus := x\<rparr>"

definition w_mepc :: "u64 \<Rightarrow> csr \<Rightarrow> csr" where
  "w_mepc x c = c\<lparr>csr_mepc := x\<rparr>"

definition r_sstatus :: "csr \<Rightarrow> u64" where
  "r_sstatus c = csr_sstatus c"

definition w_sstatus :: "u64 \<Rightarrow> csr \<Rightarrow> csr" where
  "w_sstatus x c = c\<lparr>csr_sstatus := x\<rparr>"

definition r_sip :: "csr \<Rightarrow> u64" where
  "r_sip c = csr_sip c"

definition w_sip :: "u64 \<Rightarrow> csr \<Rightarrow> csr" where
  "w_sip x c = c\<lparr>csr_sip := x\<rparr>"

definition r_sie :: "csr \<Rightarrow> u64" where
  "r_sie c = csr_sie c"

definition w_sie :: "u64 \<Rightarrow> csr \<Rightarrow> csr" where
  "w_sie x c = c\<lparr>csr_sie := x\<rparr>"

definition r_mie :: "csr \<Rightarrow> u64" where
  "r_mie c = csr_mie c"

definition w_mie :: "u64 \<Rightarrow> csr \<Rightarrow> csr" where
  "w_mie x c = c\<lparr>csr_mie := x\<rparr>"

definition w_sepc :: "u64 \<Rightarrow> csr \<Rightarrow> csr" where
  "w_sepc x c = c\<lparr>csr_sepc := x\<rparr>"

definition r_sepc :: "csr \<Rightarrow> u64" where
  "r_sepc c = csr_sepc c"

definition r_medeleg :: "csr \<Rightarrow> u64" where
  "r_medeleg c = csr_medeleg c"

definition w_medeleg :: "u64 \<Rightarrow> csr \<Rightarrow> csr" where
  "w_medeleg x c = c\<lparr>csr_medeleg := x\<rparr>"

definition r_mideleg :: "csr \<Rightarrow> u64" where
  "r_mideleg c = csr_mideleg c"

definition w_mideleg :: "u64 \<Rightarrow> csr \<Rightarrow> csr" where
  "w_mideleg x c = c\<lparr>csr_mideleg := x\<rparr>"

definition w_stvec :: "u64 \<Rightarrow> csr \<Rightarrow> csr" where
  "w_stvec x c = c\<lparr>csr_stvec := x\<rparr>"

definition r_stvec :: "csr \<Rightarrow> u64" where
  "r_stvec c = csr_stvec c"

definition w_mtvec :: "u64 \<Rightarrow> csr \<Rightarrow> csr" where
  "w_mtvec x c = c\<lparr>csr_mtvec := x\<rparr>"

definition w_pmpcfg0 :: "u64 \<Rightarrow> csr \<Rightarrow> csr" where
  "w_pmpcfg0 x c = c\<lparr>csr_pmpcfg0 := x\<rparr>"

definition w_pmpaddr0 :: "u64 \<Rightarrow> csr \<Rightarrow> csr" where
  "w_pmpaddr0 x c = c\<lparr>csr_pmpaddr0 := x\<rparr>"

definition w_satp :: "u64 \<Rightarrow> csr \<Rightarrow> csr" where
  "w_satp x c = c\<lparr>csr_satp := x\<rparr>"

definition r_satp :: "csr \<Rightarrow> u64" where
  "r_satp c = csr_satp c"

definition w_mscratch :: "u64 \<Rightarrow> csr \<Rightarrow> csr" where
  "w_mscratch x c = c\<lparr>csr_mscratch := x\<rparr>"

definition r_scause :: "csr \<Rightarrow> u64" where
  "r_scause c = csr_scause c"

definition r_stval :: "csr \<Rightarrow> u64" where
  "r_stval c = csr_stval c"

definition w_mcounteren :: "u64 \<Rightarrow> csr \<Rightarrow> csr" where
  "w_mcounteren x c = c\<lparr>csr_mcounteren := x\<rparr>"

definition r_mcounteren :: "csr \<Rightarrow> u64" where
  "r_mcounteren c = csr_mcounteren c"

definition r_time :: "csr \<Rightarrow> u64" where
  "r_time c = csr_time c"

definition r_sp :: "csr \<Rightarrow> u64" where
  "r_sp c = csr_sp c"

definition r_tp :: "csr \<Rightarrow> u64" where
  "r_tp c = csr_tp c"

definition w_tp :: "u64 \<Rightarrow> csr \<Rightarrow> csr" where
  "w_tp x c = c\<lparr>csr_tp := x\<rparr>"

definition r_ra :: "csr \<Rightarrow> u64" where
  "r_ra c = csr_ra c"

definition sfence_vma :: "csr \<Rightarrow> csr" where
  "sfence_vma c = c\<lparr>csr_sfences := csr_sfences c + 1\<rparr>"

lemmas csr_defs =
  r_mhartid_def
  r_mstatus_def
  w_mstatus_def
  w_mepc_def
  r_sstatus_def
  w_sstatus_def
  r_sip_def
  w_sip_def
  r_sie_def
  w_sie_def
  r_mie_def
  w_mie_def
  w_sepc_def
  r_sepc_def
  r_medeleg_def
  w_medeleg_def
  r_mideleg_def
  w_mideleg_def
  w_stvec_def
  r_stvec_def
  w_mtvec_def
  w_pmpcfg0_def
  w_pmpaddr0_def
  w_satp_def
  r_satp_def
  w_mscratch_def
  r_scause_def
  r_stval_def
  w_mcounteren_def
  r_mcounteren_def
  r_time_def
  r_sp_def
  r_tp_def
  w_tp_def
  r_ra_def
  sfence_vma_def

definition MSTATUS_MPP_MASK :: u64 where "MSTATUS_MPP_MASK = push_bit 11 3"
definition MSTATUS_MPP_M :: u64 where "MSTATUS_MPP_M = push_bit 11 3"
definition MSTATUS_MPP_S :: u64 where "MSTATUS_MPP_S = push_bit 11 1"
definition MSTATUS_MPP_U :: u64 where "MSTATUS_MPP_U = push_bit 11 0"
definition MSTATUS_MIE :: u64 where "MSTATUS_MIE = push_bit 3 1"
definition SSTATUS_SPP :: u64 where "SSTATUS_SPP = push_bit 8 1"
definition SSTATUS_SPIE :: u64 where "SSTATUS_SPIE = push_bit 5 1"
definition SSTATUS_UPIE :: u64 where "SSTATUS_UPIE = push_bit 4 1"
definition SSTATUS_SIE :: u64 where "SSTATUS_SIE = push_bit 1 1"
definition SSTATUS_UIE :: u64 where "SSTATUS_UIE = push_bit 0 1"
definition SIE_SEIE :: u64 where "SIE_SEIE = push_bit 9 1"
definition SIE_STIE :: u64 where "SIE_STIE = push_bit 5 1"
definition SIE_SSIE :: u64 where "SIE_SSIE = push_bit 1 1"
definition MIE_MEIE :: u64 where "MIE_MEIE = push_bit 11 1"
definition MIE_MTIE :: u64 where "MIE_MTIE = push_bit 7 1"
definition MIE_MSIE :: u64 where "MIE_MSIE = push_bit 3 1"
definition SATP_SV39 :: u64 where "SATP_SV39 = push_bit 60 8"

lemmas csr_bits =
  MSTATUS_MPP_MASK_def MSTATUS_MPP_M_def MSTATUS_MPP_S_def MSTATUS_MPP_U_def MSTATUS_MIE_def
  SSTATUS_SPP_def SSTATUS_SPIE_def SSTATUS_UPIE_def SSTATUS_SIE_def SSTATUS_UIE_def
  SIE_SEIE_def SIE_STIE_def SIE_SSIE_def MIE_MEIE_def MIE_MTIE_def MIE_MSIE_def SATP_SV39_def

definition MAKE_SATP :: "u64 \<Rightarrow> u64" where
  "MAKE_SATP pagetable = SATP_SV39 OR drop_bit 12 pagetable"

definition intr_on :: "csr \<Rightarrow> csr" where
  "intr_on c = w_sstatus (r_sstatus c OR SSTATUS_SIE) c"

definition intr_off :: "csr \<Rightarrow> csr" where
  "intr_off c = w_sstatus (r_sstatus c AND NOT SSTATUS_SIE) c"

definition intr_get :: "csr \<Rightarrow> bool" where
  "intr_get c = (r_sstatus c AND SSTATUS_SIE \<noteq> 0)"

lemma intr_get_bit: "intr_get c \<longleftrightarrow> bit (csr_sstatus c) 1"
proof -
  have "csr_sstatus c AND push_bit 1 1 \<noteq> 0 \<longleftrightarrow> bit (csr_sstatus c) 1"
    by (metis bit_iff_and_push_bit_not_eq_0)
  then show ?thesis
    by (simp add: intr_get_def r_sstatus_def SSTATUS_SIE_def)
qed

lemma intr_get_on [simp]: "intr_get (intr_on c)"
  unfolding intr_get_bit
  by (simp add: intr_on_def w_sstatus_def SSTATUS_SIE_def bit_simps)

lemma intr_get_off [simp]: "\<not> intr_get (intr_off c)"
  unfolding intr_get_bit
  by (simp add: intr_off_def w_sstatus_def SSTATUS_SIE_def bit_simps)

lemma intr_on_off [simp]: "intr_get c \<Longrightarrow> intr_on (intr_off c) = c"
proof -
  assume "intr_get c"
  then have "csr_sstatus c AND NOT SSTATUS_SIE OR SSTATUS_SIE = csr_sstatus c"
    unfolding intr_get_bit SSTATUS_SIE_def by (auto intro!: bit_word_eqI simp: bit_simps)
  then show ?thesis
    by (simp add: intr_on_def intr_off_def csr_defs)
qed

lemma intr_off_idem [simp]: "\<not> intr_get c \<Longrightarrow> intr_off c = c"
proof -
  assume "\<not> intr_get c"
  then have "csr_sstatus c AND NOT SSTATUS_SIE = csr_sstatus c"
    unfolding intr_get_bit SSTATUS_SIE_def by (auto intro!: bit_word_eqI simp: bit_simps)
  then show ?thesis
    by (simp add: intr_off_def csr_defs)
qed

lemma csr_tp_intr [simp]: "csr_tp (intr_off c) = csr_tp c" "csr_tp (intr_on c) = csr_tp c"
  by (simp_all add: intr_on_def intr_off_def csr_defs)

section \<open>Limits and memory layout\<close>

definition NPROC :: nat where "NPROC = 64"
definition NCPU :: nat where "NCPU = 8"
definition NOFILE :: nat where "NOFILE = 16"
definition NFILE :: nat where "NFILE = 100"
definition NINODE :: nat where "NINODE = 50"
definition NDEV :: nat where "NDEV = 10"
definition ROOTDEV :: u32 where "ROOTDEV = 1"
definition MAXARG :: nat where "MAXARG = 32"
definition MAXOPBLOCKS :: nat where "MAXOPBLOCKS = 10"
definition LOGSIZE :: nat where "LOGSIZE = MAXOPBLOCKS * 3"
definition NBUF :: nat where "NBUF = MAXOPBLOCKS * 3"
definition FSSIZE :: nat where "FSSIZE = 2000"
definition MAXPATH :: nat where "MAXPATH = 128"

definition PGSIZE :: nat where "PGSIZE = 4096"
definition PGSHIFT :: nat where "PGSHIFT = 12"

abbreviation PGSZ :: u64 where "PGSZ \<equiv> 4096"

definition MAXVA :: u64 where "MAXVA = push_bit (9 + 9 + 9 + 12 - 1) 1"
definition UART0 :: u64 where "UART0 = 0x10000000"
definition UART0_IRQ :: nat where "UART0_IRQ = 10"
definition VIRTIO0 :: u64 where "VIRTIO0 = 0x10001000"
definition VIRTIO0_IRQ :: nat where "VIRTIO0_IRQ = 1"
definition CLINT :: u64 where "CLINT = 0x2000000"
definition CLINT_MTIMECMP :: "u64 \<Rightarrow> u64" where
  "CLINT_MTIMECMP hartid = CLINT + 0x4000 + 8 * hartid"
definition CLINT_MTIME :: u64 where "CLINT_MTIME = CLINT + 0xBFF8"
definition PLIC :: u64 where "PLIC = 0x0c000000"
definition PLIC_SENABLE :: "u64 \<Rightarrow> u64" where
  "PLIC_SENABLE hart = PLIC + 0x2080 + hart * 0x100"
definition PLIC_SPRIORITY :: "u64 \<Rightarrow> u64" where
  "PLIC_SPRIORITY hart = PLIC + 0x201000 + hart * 0x2000"
definition PLIC_SCLAIM :: "u64 \<Rightarrow> u64" where
  "PLIC_SCLAIM hart = PLIC + 0x201004 + hart * 0x2000"
definition KERNBASE :: u64 where "KERNBASE = 0x80000000"
definition PHYSTOP :: u64 where "PHYSTOP = KERNBASE + 128 * 1024 * 1024"
definition TRAMPOLINE :: u64 where "TRAMPOLINE = MAXVA - PGSZ"
definition KSTACK :: "u64 \<Rightarrow> u64" where
  "KSTACK p = TRAMPOLINE - (p + 1) * 2 * PGSZ"
definition TRAPFRAME :: u64 where "TRAPFRAME = TRAMPOLINE - PGSZ"

lemmas layout_defs =
  MAXVA_def UART0_def VIRTIO0_def CLINT_def CLINT_MTIMECMP_def CLINT_MTIME_def PLIC_def
  PLIC_SENABLE_def PLIC_SPRIORITY_def PLIC_SCLAIM_def KERNBASE_def PHYSTOP_def
  TRAMPOLINE_def KSTACK_def TRAPFRAME_def

lemma MAXVA_num: "MAXVA = 0x4000000000" by (simp add: MAXVA_def)
lemma PHYSTOP_num: "PHYSTOP = 0x88000000" by (simp add: PHYSTOP_def KERNBASE_def)
lemma TRAMPOLINE_num: "TRAMPOLINE = 0x3FFFFFF000" by (simp add: TRAMPOLINE_def MAXVA_num)
lemma TRAPFRAME_num: "TRAPFRAME = 0x3FFFFFE000" by (simp add: TRAPFRAME_def TRAMPOLINE_num)

lemmas layout_nums = MAXVA_num PHYSTOP_num TRAMPOLINE_num TRAPFRAME_num

section \<open>Pages and page-table entries\<close>

definition PGROUNDUP :: "u64 \<Rightarrow> u64" where
  "PGROUNDUP sz = (sz + PGSZ - 1) AND NOT (PGSZ - 1)"

definition PGROUNDDOWN :: "u64 \<Rightarrow> u64" where
  "PGROUNDDOWN a = a AND NOT (PGSZ - 1)"

definition PTE_V :: u64 where "PTE_V = push_bit 0 1"
definition PTE_R :: u64 where "PTE_R = push_bit 1 1"
definition PTE_W :: u64 where "PTE_W = push_bit 2 1"
definition PTE_X :: u64 where "PTE_X = push_bit 3 1"
definition PTE_U :: u64 where "PTE_U = push_bit 4 1"

lemma PTE_bits:
  "PTE_V = 1" "PTE_R = 2" "PTE_W = 4" "PTE_X = 8" "PTE_U = 16"
  by (simp_all add: PTE_V_def PTE_R_def PTE_W_def PTE_X_def PTE_U_def)

definition PA2PTE :: "u64 \<Rightarrow> u64" where
  "PA2PTE pa = push_bit 10 (drop_bit 12 pa)"

definition PTE2PA :: "u64 \<Rightarrow> u64" where
  "PTE2PA pte = push_bit 12 (drop_bit 10 pte)"

definition PTE_FLAGS :: "u64 \<Rightarrow> u64" where
  "PTE_FLAGS pte = pte AND 0x3FF"

definition PXMASK :: u64 where "PXMASK = 0x1FF"

definition PXSHIFT :: "nat \<Rightarrow> nat" where
  "PXSHIFT level = PGSHIFT + 9 * level"

definition PX :: "nat \<Rightarrow> u64 \<Rightarrow> u64" where
  "PX level va = drop_bit (PXSHIFT level) va AND PXMASK"

text \<open>An address that is a whole number of pages.\<close>

definition aligned :: "u64 \<Rightarrow> bool" where
  "aligned a \<longleftrightarrow> a mod PGSZ = 0"

lemma aligned_unat: "aligned a \<longleftrightarrow> unat a mod 4096 = 0"
  by (simp add: aligned_def word_unat_eq_iff unat_mod)

lemma take_bit_u64: "take_bit LENGTH(64) (unat (a :: u64)) = unat a"
  using u64_less [of a] by (simp add: take_bit_nat_eq_self)

lemma unat_PGROUNDDOWN: "unat (PGROUNDDOWN a) = unat a div 4096 * 4096"
proof -
  have eq: "a AND NOT (PGSZ - 1) = push_bit 12 (drop_bit 12 a)"
  proof -
    have m: "PGSZ - 1 = mask 12" by (simp add: mask_numeral)
    show ?thesis unfolding m by (rule bit_word_eqI) (auto simp: bit_simps)
  qed
  have "unat (push_bit 12 (drop_bit 12 a)) = (unat a div 4096 * 4096) mod 2 ^ 64"
    unfolding unsigned_push_bit_eq unsigned_drop_bit_eq
    by (simp only: take_bit_u64) (simp add: take_bit_eq_mod push_bit_eq_mult drop_bit_eq_div)
  moreover have "unat a div 4096 * 4096 < 2 ^ 64"
    using u64_less [of a] div_times_less_eq_dividend [of "unat a" 4096]
    by (simp add: le_less_trans)
  ultimately show ?thesis
    unfolding PGROUNDDOWN_def eq by simp
qed

lemma PGROUNDUP_eq: "PGROUNDUP sz = PGROUNDDOWN (sz + 4095)"
  by (simp add: PGROUNDUP_def PGROUNDDOWN_def add.commute)

lemma aligned_PGROUNDDOWN [simp, intro]: "aligned (PGROUNDDOWN a)"
  by (simp add: aligned_unat unat_PGROUNDDOWN)

lemma aligned_PGROUNDUP [simp, intro]: "aligned (PGROUNDUP a)"
  by (simp add: PGROUNDUP_eq)

lemma PGROUNDDOWN_aligned: "aligned a \<Longrightarrow> PGROUNDDOWN a = a"
  by (simp add: word_unat_eq_iff unat_PGROUNDDOWN aligned_unat)
    (metis dvd_div_mult_self mod_0_imp_dvd)

lemma unat_PGROUNDUP:
  assumes "unat sz + 4095 < 2 ^ 64"
  shows "unat (PGROUNDUP sz) = (unat sz + 4095) div 4096 * 4096"
proof -
  have "unat (sz + 4095) = unat sz + 4095"
    using assms by (simp add: unat_word_ariths)
  then show ?thesis by (simp add: PGROUNDUP_eq unat_PGROUNDDOWN)
qed

lemma unat_PX: "unat (PX level va) = unat va div 2 ^ PXSHIFT level mod 512"
proof -
  have "PX level va = take_bit 9 (drop_bit (PXSHIFT level) va)"
    by (simp add: PX_def PXMASK_def take_bit_eq_mask mask_numeral)
  then have "unat (PX level va) = take_bit 9 (drop_bit (PXSHIFT level) (unat va))"
    by (simp only: unsigned_take_bit_eq unsigned_drop_bit_eq take_bit_u64)
  then show ?thesis
    by (simp add: take_bit_eq_mod drop_bit_eq_div)
qed

lemma PX_less [simp]: "unat (PX level va) < 512"
  by (simp add: unat_PX)

lemma PTE2PA_PA2PTE:
  assumes "aligned pa" and "unat pa < 2 ^ 56" and "unat fl < 2 ^ 10"
  shows "PTE2PA (PA2PTE pa OR fl) = pa"
proof (rule bit_word_eqI)
  fix n assume n: "n < LENGTH(64)"
  have lo: "\<not> bit pa k" if "k < 12" for k
  proof -
    have "take_bit 12 pa = 0"
      using assms(1) by (simp add: aligned_def take_bit_eq_mod)
    then have "\<not> bit (take_bit 12 pa) k" by simp
    then show ?thesis using that by (simp add: bit_take_bit_iff)
  qed
  have hi: "\<not> bit pa k" if "56 \<le> k" for k
  proof -
    have "take_bit 56 (unat pa) = unat pa" using assms(2) by (simp add: take_bit_nat_eq_self)
    then have "take_bit 56 pa = pa" by (simp add: word_unat_eq_iff unsigned_take_bit_eq)
    then have "bit pa k = bit (take_bit 56 pa) k" by simp
    then show ?thesis using that by (simp add: bit_take_bit_iff)
  qed
  have flh: "\<not> bit fl k" if "10 \<le> k" for k
  proof -
    have "take_bit 10 (unat fl) = unat fl" using assms(3) by (simp add: take_bit_nat_eq_self)
    then have "take_bit 10 fl = fl" by (simp add: word_unat_eq_iff unsigned_take_bit_eq)
    then have "bit fl k = bit (take_bit 10 fl) k" by simp
    then show ?thesis using that by (simp add: bit_take_bit_iff)
  qed
  show "bit (PTE2PA (PA2PTE pa OR fl)) n \<longleftrightarrow> bit pa n"
    using n lo [of n] hi [of n] flh [of "n - 2"]
    by (cases "n < 12"; cases "56 \<le> n") (auto simp: PTE2PA_def PA2PTE_def bit_simps)
qed

lemma PTE_FLAGS_PA2PTE:
  assumes "unat fl < 2 ^ 10"
  shows "PTE_FLAGS (PA2PTE pa OR fl) = fl"
proof -
  have "take_bit 10 (unat fl) = unat fl" using assms by (simp add: take_bit_nat_eq_self)
  then have "take_bit 10 fl = fl" by (simp add: word_unat_eq_iff unsigned_take_bit_eq)
  moreover have "take_bit 10 (PA2PTE pa OR fl) = take_bit 10 fl"
    by (rule bit_word_eqI) (auto simp: PA2PTE_def bit_simps)
  moreover have "(0x3FF :: u64) = mask 10" by (simp add: mask_numeral)
  ultimately show ?thesis
    by (simp add: PTE_FLAGS_def take_bit_eq_mask)
qed

text \<open>The three indices and the page offset determine a virtual address below \<open>MAXVA\<close>.\<close>

lemma PX_inj:
  assumes "va < MAXVA" and "va' < MAXVA"
    and "PX 2 va = PX 2 va'" and "PX 1 va = PX 1 va'" and "PX 0 va = PX 0 va'"
  shows "PGROUNDDOWN va = PGROUNDDOWN va'"
proof -
  have split: "n div 4096 = n div 2 ^ 12 mod 512 + 512 * (n div 2 ^ 21 mod 512)
      + 262144 * (n div 2 ^ 30 mod 512)" if "n < 2 ^ 38" for n :: nat
  proof -
    define x where "x = n div 4096"
    have n: "n div 2 ^ 12 = x" "n div 2 ^ 21 = x div 512" "n div 2 ^ 30 = x div 512 div 512"
      by (simp_all add: x_def flip: div_mult2_eq)
    have "x div 512 div 512 < 512"
      using that by (simp add: x_def less_mult_imp_div_less flip: div_mult2_eq)
    then have m: "x div 512 div 512 mod 512 = x div 512 div 512" by simp
    have comb: "u = a + 512 * b + 262144 * c" if "u = a + 512 * v" "v = b + 512 * c"
      for u v a b c :: nat using that by simp
    have "x = x mod 512 + 512 * (x div 512 mod 512) + 262144 * (x div 512 div 512)"
      by (rule comb [of _ _ "x div 512"]) (simp_all only: mod_mult_div_eq)
    then show ?thesis unfolding n m x_def [symmetric] .
  qed
  have p: "unat (PX l va) = unat (PX l va')" if "l \<in> {0, 1, 2}" for l
    using that assms(3-5) by auto
  have e: "unat va div 2 ^ 12 mod 512 = unat va' div 2 ^ 12 mod 512"
    "unat va div 2 ^ 21 mod 512 = unat va' div 2 ^ 21 mod 512"
    "unat va div 2 ^ 30 mod 512 = unat va' div 2 ^ 30 mod 512"
    using p [of 0] p [of 1] p [of 2] by (simp_all add: unat_PX PXSHIFT_def PGSHIFT_def)
  have b: "unat va < 2 ^ 38" "unat va' < 2 ^ 38"
    using assms(1,2) by (simp_all add: MAXVA_num word_less_nat_alt)
  have "unat va div 4096 = unat va' div 4096"
    unfolding split [OF b(1)] split [OF b(2)] e ..
  then show ?thesis by (simp add: word_unat_eq_iff unat_PGROUNDDOWN)
qed

lemma PX_PGROUNDDOWN [simp]: "PX level (PGROUNDDOWN va) = PX level va"
proof -
  have "unat va div 4096 * 4096 div 2 ^ (12 + 9 * level) = unat va div 2 ^ (12 + 9 * level)"
    by (simp add: power_add div_mult2_eq)
  then show ?thesis
    by (simp add: word_unat_eq_iff unat_PX PXSHIFT_def PGSHIFT_def unat_PGROUNDDOWN)
qed

end
