(* ===== verification/Kstring.thy ===== *)
theory Kstring
  imports Xv6_Prelude
begin

text \<open>
  The memory and string routines of \<open>kernel/string.c\<close> on byte-addressed memory.  Each
  loop is a recursion on the number of bytes still to go, with the pointers of the C code
  as arguments; the C strings of \<open>strlen\<close> may lack a terminator, so its loop is a partial
  function.  The lemmas reduce every routine to \<open>mem_read\<close> and \<open>mem_write\<close>.
\<close>

section \<open>Definitions\<close>

primrec memset_loop :: "nat \<Rightarrow> u64 \<Rightarrow> u8 \<Rightarrow> mem \<Rightarrow> mem" where
  "memset_loop 0 cdst c m = m"
| "memset_loop (Suc k) cdst c m = memset_loop k (cdst + 1) c (m(cdst := c))"

definition memset :: "u64 \<Rightarrow> u8 \<Rightarrow> u32 \<Rightarrow> mem \<Rightarrow> mem" where
  "memset dst c n m = memset_loop (unat n) dst c m"

primrec memcmp_loop :: "nat \<Rightarrow> mem \<Rightarrow> u64 \<Rightarrow> u64 \<Rightarrow> int" where
  "memcmp_loop 0 m s1 s2 = 0"
| "memcmp_loop (Suc n) m s1 s2 =
     (if m s1 \<noteq> m s2 then uint (m s1) - uint (m s2)
      else memcmp_loop n m (s1 + 1) (s2 + 1))"

definition memcmp :: "mem \<Rightarrow> u64 \<Rightarrow> u64 \<Rightarrow> u32 \<Rightarrow> int" where
  "memcmp m v1 v2 n = memcmp_loop (unat n) m v1 v2"

primrec move_up :: "nat \<Rightarrow> u64 \<Rightarrow> u64 \<Rightarrow> mem \<Rightarrow> mem" where
  "move_up 0 s d m = m"
| "move_up (Suc n) s d m = move_up n (s + 1) (d + 1) (m(d := m s))"

primrec move_down :: "nat \<Rightarrow> u64 \<Rightarrow> u64 \<Rightarrow> mem \<Rightarrow> mem" where
  "move_down 0 s d m = m"
| "move_down (Suc n) s d m = move_down n (s - 1) (d - 1) (m(d - 1 := m (s - 1)))"

definition memmove :: "u64 \<Rightarrow> u64 \<Rightarrow> u32 \<Rightarrow> mem \<Rightarrow> mem" where
  "memmove dst src n m =
     (if n = 0 then m
      else let s = src; d = dst in
        if s < d \<and> s + ucast n > d then move_down (unat n) (s + ucast n) (d + ucast n) m
        else move_up (unat n) s d m)"

definition memcpy :: "u64 \<Rightarrow> u64 \<Rightarrow> u32 \<Rightarrow> mem \<Rightarrow> mem" where
  "memcpy dst src n m = memmove dst src n m"

primrec strncmp_loop :: "nat \<Rightarrow> mem \<Rightarrow> u64 \<Rightarrow> u64 \<Rightarrow> int" where
  "strncmp_loop 0 m p q = 0"
| "strncmp_loop (Suc n) m p q =
     (if m p \<noteq> 0 \<and> m p = m q then strncmp_loop n m (p + 1) (q + 1)
      else uint (m p) - uint (m q))"

definition strncmp :: "mem \<Rightarrow> u64 \<Rightarrow> u64 \<Rightarrow> u32 \<Rightarrow> int" where
  "strncmp m p q n = strncmp_loop (unat n) m p q"

primrec zero_pad :: "nat \<Rightarrow> u64 \<Rightarrow> mem \<Rightarrow> mem" where
  "zero_pad 0 s m = m"
| "zero_pad (Suc n) s m = zero_pad n (s + 1) (m(s := 0))"

primrec strncpy_loop :: "nat \<Rightarrow> u64 \<Rightarrow> u64 \<Rightarrow> mem \<Rightarrow> mem" where
  "strncpy_loop 0 s t m = m"
| "strncpy_loop (Suc n) s t m =
     (let m' = m(s := m t) in
      if m t \<noteq> 0 then strncpy_loop n (s + 1) (t + 1) m' else zero_pad n (s + 1) m')"

definition strncpy :: "u64 \<Rightarrow> u64 \<Rightarrow> int \<Rightarrow> mem \<Rightarrow> mem" where
  "strncpy s t n m = strncpy_loop (nat n) s t m"

primrec safestrcpy_loop :: "nat \<Rightarrow> u64 \<Rightarrow> u64 \<Rightarrow> mem \<Rightarrow> mem" where
  "safestrcpy_loop 0 s t m = m(s := 0)"
| "safestrcpy_loop (Suc n) s t m =
     (let m' = m(s := m t) in
      if m t \<noteq> 0 then safestrcpy_loop n (s + 1) (t + 1) m' else m'(s + 1 := 0))"

definition safestrcpy :: "u64 \<Rightarrow> u64 \<Rightarrow> int \<Rightarrow> mem \<Rightarrow> mem" where
  "safestrcpy s t n m = (if n \<le> 0 then m else safestrcpy_loop (nat n - 1) s t m)"

partial_function (option) strlen_loop :: "mem \<Rightarrow> u64 \<Rightarrow> nat \<Rightarrow> nat option" where
  "strlen_loop m s n = (if m (s + of_nat n) = 0 then Some n else strlen_loop m s (Suc n))"

definition strlen :: "mem \<Rightarrow> u64 \<Rightarrow> nat option" where
  "strlen m s = strlen_loop m s 0"

section \<open>Lemmas\<close>

lemma unat_ucast_u32: "unat (ucast (n :: u32) :: u64) = unat n"
proof -
  have "unat n < 2 ^ 64"
    using unsigned_less [of n, where ?'a = nat] by simp
  then show ?thesis
    by (simp add: unsigned_ucast_eq take_bit_nat_eq_self)
qed

lemma u64_pred_unat: "(y :: u64) \<noteq> 0 \<Longrightarrow> unat (y - 1) = unat y - 1"
  by (metis One_nat_def Suc_pred' diff_Suc_1 unat_gt_0 unat_minus_one word_neq_0_conv)

lemma memset_loop_eq:
  "k < 2 ^ 64 \<Longrightarrow>
   memset_loop k p c m = (\<lambda>x. if unat (x - p) < k then c else m x)"
proof (induction k arbitrary: p m)
  case 0
  then show ?case by simp
next
  case (Suc k)
  have "unat (x - (p + 1)) < k \<or> x = p \<longleftrightarrow> unat (x - p) < Suc k" for x
  proof (cases "x = p")
    case True
    then show ?thesis by simp
  next
    case False
    then have "x - p \<noteq> 0" by simp
    then have "unat (x - p - 1) = unat (x - p) - 1" by (rule u64_pred_unat)
    moreover have "0 < unat (x - p)" using \<open>x - p \<noteq> 0\<close> by (simp add: unat_gt_0)
    moreover have "x - (p + 1) = x - p - 1" by simp
    ultimately show ?thesis using False by (simp only:) auto
  qed
  with Suc show ?case by (auto simp: fun_eq_iff)
qed

lemma memset_eq: "memset dst c n m = mem_write m dst (replicate (unat n) c)"
proof -
  have "unat n < 2 ^ 64"
    using unsigned_less [of n, where ?'a = nat] by simp
  then show ?thesis
    by (auto simp: memset_def memset_loop_eq mem_write_def fun_eq_iff)
qed


lemma move_up_eq:
  assumes "d = s \<or> n \<le> unat (d - s)" and "n < 2 ^ 64"
  shows "move_up n s d m = (\<lambda>x. if unat (x - d) < n then m (s + (x - d)) else m x)"
  using assms
proof (induction n arbitrary: s d m)
  case 0
  then show ?case by simp
next
  case (Suc n)
  let ?m = "m(d := m s)"
  have "d + 1 = s + 1 \<or> n \<le> unat (d + 1 - (s + 1))" using Suc.prems by auto
  then have IH: "move_up n (s + 1) (d + 1) ?m =
      (\<lambda>x. if unat (x - (d + 1)) < n then ?m (s + 1 + (x - (d + 1))) else ?m x)"
    using Suc.prems by (intro Suc.IH) auto
  show ?case
  proof
    fix x
    show "move_up (Suc n) s d m x = (if unat (x - d) < Suc n then m (s + (x - d)) else m x)"
    proof (cases "x = d")
      case True
      have "\<not> unat (d - (d + 1)) < n" using Suc.prems by (simp add: unsigned_minus_1_eq_mask mask_eq_exp_minus_1)
      with True IH show ?thesis by simp
    next
      case False
      then have nz: "x - d \<noteq> 0" by simp
      have a: "x - (d + 1) = x - d - 1" by simp
      have u: "unat (x - (d + 1)) = unat (x - d) - 1"
        unfolding a using nz by (rule u64_pred_unat)
      have pos: "0 < unat (x - d)" using nz by (simp add: unat_gt_0)
      show ?thesis
      proof (cases "unat (x - d) < Suc n")
        case True
        have "s + (x - d) \<noteq> d"
        proof
          assume "s + (x - d) = d"
          then have "d - s = x - d" by (metis add_diff_cancel_left')
          with Suc.prems(1) True nz show False by auto
        qed
        moreover have "unat (x - (d + 1)) < n" using True pos u by linarith
        moreover have "s + 1 + (x - (d + 1)) = s + (x - d)" by simp
        ultimately show ?thesis using True IH by simp
      next
        case out: False
        then have "\<not> unat (x - (d + 1)) < n" using u by linarith
        with IH out False show ?thesis by simp
      qed
    qed
  qed
qed

lemma move_down_eq:
  assumes "d = s \<or> n \<le> unat (s - d)" and "n < 2 ^ 64"
  shows "move_down n (s + of_nat n) (d + of_nat n) m =
    (\<lambda>x. if unat (x - d) < n then m (s + (x - d)) else m x)"
  using assms
proof (induction n arbitrary: m)
  case 0
  then show ?case by simp
next
  case (Suc n)
  let ?m = "m(d + of_nat n := m (s + of_nat n))"
  have IH: "move_down n (s + of_nat n) (d + of_nat n) ?m =
      (\<lambda>x. if unat (x - d) < n then ?m (s + (x - d)) else ?m x)"
    using Suc.prems by (intro Suc.IH) auto
  have n: "unat (of_nat n :: u64) = n"
    using Suc.prems(2) by (simp add: unat_of_nat take_bit_nat_eq_self)
  have step: "move_down (Suc n) (s + of_nat (Suc n)) (d + of_nat (Suc n)) m =
      move_down n (s + of_nat n) (d + of_nat n) ?m"
    by (simp add: add.assoc [symmetric])
  show ?case
  proof
    fix x
    show "move_down (Suc n) (s + of_nat (Suc n)) (d + of_nat (Suc n)) m x =
        (if unat (x - d) < Suc n then m (s + (x - d)) else m x)"
    proof (cases "x = d + of_nat n")
      case True
      then show ?thesis unfolding step IH by (simp add: n)
    next
      case False
      then have "x - d \<noteq> of_nat n" by (simp add: diff_eq_eq add.commute)
      then have ne: "unat (x - d) \<noteq> n" using n by (simp add: word_unat_eq_iff)
      have "s + (x - d) \<noteq> d + of_nat n" if "unat (x - d) < n"
      proof
        assume "s + (x - d) = d + of_nat n"
        then have eq: "s - d = of_nat n - (x - d)"
          by (simp add: diff_eq_eq eq_diff_eq algebra_simps)
        have "x - d \<le> of_nat n" using that n by (simp add: word_le_nat_alt)
        then have "unat (s - d) = n - unat (x - d)"
          unfolding eq using n by (simp add: unat_sub)
        with Suc.prems(1) that show False by auto
      qed
      with ne False show ?thesis unfolding step IH by auto
    qed
  qed
qed

lemma mem_write_read_eq:
  "mem_write m d (mem_read m s n) = (\<lambda>x. if unat (x - d) < n then m (s + (x - d)) else m x)"
  by (auto simp: mem_write_def fun_eq_iff)

text \<open>\<open>memmove\<close> copies as if through a temporary buffer, overlapping ranges included.\<close>

lemma memmove_eq:
  assumes "unat src + unat n \<le> 2 ^ 64" and "unat dst + unat n \<le> 2 ^ 64"
  shows "memmove dst src n m = mem_write m dst (mem_read m src (unat n))"
proof (cases "n = 0")
  case True
  then show ?thesis by (simp add: memmove_def mem_read_def)
next
  case False
  have small: "unat n < 2 ^ 64"
    using unsigned_less [of n, where ?'a = nat] by simp
  have cast: "(ucast n :: u64) = of_nat (unat n)" by simp
  show ?thesis
  proof (cases "src < dst \<and> src + ucast n > dst")
    case True
    then have "src \<noteq> dst" "unat src < unat dst" by (auto simp: word_less_nat_alt)
    then have "unat n \<le> unat (src - dst)"
      using assms u64_less [of dst] by (simp add: unat_sub_if')
    with True False small show ?thesis
      unfolding memmove_def mem_write_read_eq Let_def cast
      by (simp add: move_down_eq del: of_nat_unat)
  next
    case up: False
    have "dst = src \<or> unat n \<le> unat (dst - src)"
    proof (cases "src < dst")
      case True
      with up have "src + ucast n \<le> dst" by simp
      show ?thesis
      proof (cases "unat src + unat n < 2 ^ 64")
        case True
        then have "unat (src + ucast n) = unat src + unat n"
          by (simp add: unat_word_ariths unat_ucast_u32)
        with \<open>src + ucast n \<le> dst\<close> \<open>src < dst\<close> show ?thesis
          by (auto simp: word_le_nat_alt word_less_nat_alt unat_sub_if')
      next
        case False
        with assms \<open>src < dst\<close> show ?thesis by (simp add: word_less_nat_alt)
      qed
    next
      case False
      then have "unat dst \<le> unat src" by (simp add: word_less_nat_alt)
      then show ?thesis
        using assms u64_less [of src] by (auto simp: unat_sub_if' word_unat_eq_iff)
    qed
    with up False small show ?thesis
      unfolding memmove_def mem_write_read_eq Let_def by (auto simp: move_up_eq)
  qed
qed

lemma memcmp_loop_eq: "memcmp_loop n m s1 s2 = 0 \<longleftrightarrow> mem_read m s1 n = mem_read m s2 n"
proof (induction n arbitrary: s1 s2)
  case 0
  then show ?case by (simp add: mem_read_def)
next
  case (Suc n)
  have cons: "mem_read m a (Suc n) = m a # mem_read m (a + 1) n" for a
    by (simp add: mem_read_def upt_conv_Cons map_Suc_upt [symmetric] algebra_simps del: upt_Suc)
  show ?case using Suc.IH by (simp add: cons word_uint_eq_iff)
qed

lemma memcmp_eq: "memcmp m v1 v2 n = 0 \<longleftrightarrow> mem_read m v1 (unat n) = mem_read m v2 (unat n)"
  by (simp add: memcmp_def memcmp_loop_eq)

lemma strlen_loop_eq:
  assumes "\<And>i. n \<le> i \<Longrightarrow> i < k \<Longrightarrow> m (s + of_nat i) \<noteq> 0" and "m (s + of_nat k) = 0" and "n \<le> k"
  shows "strlen_loop m s n = Some k"
  using assms
proof (induction "k - n" arbitrary: n)
  case 0
  then show ?case by (subst strlen_loop.simps) simp
next
  case (Suc j)
  then have "m (s + of_nat n) \<noteq> 0" by auto
  moreover have "strlen_loop m s (Suc n) = Some k"
    using Suc.hyps(2) Suc.prems by (intro Suc.hyps(1)) auto
  ultimately show ?case by (subst strlen_loop.simps) simp
qed

lemma strlen_eq:
  assumes "\<And>i. i < k \<Longrightarrow> m (s + of_nat i) \<noteq> 0" and "m (s + of_nat k) = 0"
  shows "strlen m s = Some k"
  unfolding strlen_def using assms by (intro strlen_loop_eq) auto

section \<open>Properties\<close>

text \<open>
  (C17) \<open>memmove\<close> copies correctly whether or not the two regions overlap, in either
  direction: afterwards the destination holds the \<open>n\<close> bytes the source held before, and
  every byte outside the destination is unchanged.
\<close>

theorem memmove_overlap_safe:
  assumes "unat src + unat n \<le> 2 ^ 64" and "unat dst + unat n \<le> 2 ^ 64"
  shows "mem_read (memmove dst src n m) dst (unat n) = mem_read m src (unat n) \<and>
    (\<forall>x. x < dst \<or> unat dst + unat n \<le> unat x \<longrightarrow> memmove dst src n m x = m x)"
proof -
  have n: "unat n \<le> 2 ^ 64" using unsigned_less [of n, where ?'a = nat] by simp
  have "unat n \<le> unat (x - dst)" if "x < dst \<or> unat dst + unat n \<le> unat x" for x
    using that assms(2) u64_less [of dst] by (auto simp: unat_sub_if' word_less_nat_alt)
  then show ?thesis
    using n by (simp add: memmove_eq [OF assms] mem_write_other)
qed

theorem memmove_overlap_safe_witness:
  "mem_read (memmove 102 100 (8 :: u32) (\<lambda>a. ucast a)) 102 8 = [100, 101, 102, 103, 104, 105, 106, 107] \<and>
   mem_read (memmove 98 100 (8 :: u32) (\<lambda>a. ucast a)) 98 8 = [100, 101, 102, 103, 104, 105, 106, 107]"
proof -
  have r: "mem_read (\<lambda>a. ucast a) 100 8 = [100, 101, 102, 103, 104, 105, 106, 107]"
    by code_simp
  show ?thesis
    using memmove_overlap_safe [of 100 "8 :: u32" 102 "\<lambda>a. ucast a"]
      memmove_overlap_safe [of 100 "8 :: u32" 98 "\<lambda>a. ucast a"] r by simp
qed

lemma safestrcpy_loop_other:
  "Suc k \<le> unat (x - s) \<Longrightarrow> Suc k < 2 ^ 64 \<Longrightarrow> safestrcpy_loop k s t m x = m x"
proof (induction k arbitrary: s t m)
  case 0
  then have "x \<noteq> s" by auto
  then show ?case by simp
next
  case (Suc k)
  have ne: "x \<noteq> s" "x \<noteq> s + 1" using Suc.prems by auto
  then have "x - s \<noteq> 0" by simp
  from u64_pred_unat [OF this] have "Suc k \<le> unat (x - (s + 1))"
    using Suc.prems by (simp add: diff_diff_eq)
  with Suc ne show ?case by (simp add: Let_def)
qed

lemma safestrcpy_loop_nul:
  "Suc k < 2 ^ 64 \<Longrightarrow> \<exists>i\<le>k. safestrcpy_loop k s t m (s + of_nat i) = 0"
proof (induction k arbitrary: s t m)
  case 0
  then show ?case by simp
next
  case (Suc k)
  show ?case
  proof (cases "m t = 0")
    case True
    then show ?thesis by (intro exI [of _ 1]) (simp add: Let_def)
  next
    case False
    have "Suc k < 2 ^ 64" using Suc.prems by simp
    from Suc.IH [OF this, of "s + 1" "t + 1" "m(s := m t)"] obtain i where
      "i \<le> k" "safestrcpy_loop k (s + 1) (t + 1) (m(s := m t)) (s + 1 + of_nat i) = 0" by blast
    with False show ?thesis
      by (intro exI [of _ "Suc i"]) (simp add: Let_def add.assoc)
  qed
qed

text \<open>
  (C18) \<open>safestrcpy\<close> with a positive size leaves a NUL-terminated string within the first
  \<open>n\<close> bytes of the destination and writes nowhere else.
\<close>

theorem safestrcpy_terminates_string:
  assumes "0 < n" and "n < 2 ^ 31"
  shows "(\<exists>i. i < nat n \<and> safestrcpy s t n m (s + of_nat i) = 0) \<and>
    (\<forall>x. nat n \<le> unat (x - s) \<longrightarrow> safestrcpy s t n m x = m x)"
proof -
  from assms have k: "Suc (nat n - 1) = nat n" "nat n < 2 ^ 64" by auto
  from safestrcpy_loop_nul [of "nat n - 1" s t m] k
  obtain i where "i \<le> nat n - 1" "safestrcpy_loop (nat n - 1) s t m (s + of_nat i) = 0" by auto
  moreover have "safestrcpy_loop (nat n - 1) s t m x = m x" if "nat n \<le> unat (x - s)" for x
    using safestrcpy_loop_other [of "nat n - 1" x s t m] k that by simp
  ultimately show ?thesis
    using assms k by (auto simp: safestrcpy_def intro!: exI [of _ i])
qed

theorem safestrcpy_terminates_string_witness:
  "\<exists>i. i < 4 \<and> safestrcpy 16 64 4 (\<lambda>_. 7) (16 + of_nat i) = 0"
  using safestrcpy_terminates_string [of 4 16 64 "\<lambda>_. 7"] by simp

end
