(* ===== verification/Spinlock.thy ===== *)
theory Spinlock
  imports Riscv
begin

text \<open>
  Spin locks and the interrupt-disable nesting of \<open>kernel/spinlock.c\<close>, with the per-CPU
  data of \<open>kernel/proc.h\<close> they use.  \<open>acquire\<close> and \<open>release\<close> are total functions of
  the machine state as one hart sees them while no other hart moves: a lock held by another
  hart makes \<open>acquire\<close> spin (\<open>Stuck\<close>).  The second half splits them into the memory
  accesses other harts can interleave with, and proves mutual exclusion for any schedule.
\<close>

section \<open>Data\<close>

record spinlock =
  lk_locked :: u32
  lk_name :: string
  lk_cpu :: "nat option"

record swtch_context =
  ctx_ra :: u64
  ctx_sp :: u64
  ctx_s0 :: u64
  ctx_s1 :: u64
  ctx_s2 :: u64
  ctx_s3 :: u64
  ctx_s4 :: u64
  ctx_s5 :: u64
  ctx_s6 :: u64
  ctx_s7 :: u64
  ctx_s8 :: u64
  ctx_s9 :: u64
  ctx_s10 :: u64
  ctx_s11 :: u64

record cpu =
  cpu_proc :: "nat option"
  cpu_context :: swtch_context
  cpu_noff :: int
  cpu_intena :: bool

datatype slockid = BufLock nat | InodeLock nat

datatype lockid =
    KmemLock | PidLock | WaitLock | ProcLock nat | TicksLock | BcacheLock | LogLock
  | ItableLock | FtableLock | ConsLock | UartTxLock | PrLock | VdiskLock
  | PipeLock u64 | SleepLk slockid

record kmach =
  cur_hart :: nat
  harts :: "nat \<Rightarrow> csr"
  cpus :: "nat \<Rightarrow> cpu"
  locks :: "lockid \<Rightarrow> spinlock"

section \<open>Operations\<close>

definition thishart :: "'a kmach_scheme \<Rightarrow> csr" where
  "thishart s = harts s (cur_hart s)"

definition upd_hart :: "(csr \<Rightarrow> csr) \<Rightarrow> 'a kmach_scheme \<Rightarrow> 'a kmach_scheme" where
  "upd_hart f s = s\<lparr>harts := (harts s)(cur_hart s := f (thishart s))\<rparr>"

text \<open>\<open>cpuid\<close> reads the thread pointer register; \<open>mycpu\<close> is the index into \<open>cpus\<close>.\<close>

definition cpuid :: "'a kmach_scheme \<Rightarrow> u32" where
  "cpuid s = ucast (r_tp (thishart s))"

definition mycpu :: "'a kmach_scheme \<Rightarrow> nat" where
  "mycpu s = unat (cpuid s)"

definition upd_cpu :: "(cpu \<Rightarrow> cpu) \<Rightarrow> 'a kmach_scheme \<Rightarrow> 'a kmach_scheme" where
  "upd_cpu f s = s\<lparr>cpus := (cpus s)(mycpu s := f (cpus s (mycpu s)))\<rparr>"

definition upd_lock :: "lockid \<Rightarrow> (spinlock \<Rightarrow> spinlock) \<Rightarrow> 'a kmach_scheme \<Rightarrow> 'a kmach_scheme" where
  "upd_lock lk f s = s\<lparr>locks := (locks s)(lk := f (locks s lk))\<rparr>"

definition initlock :: "lockid \<Rightarrow> string \<Rightarrow> 'a kmach_scheme \<Rightarrow> 'a kmach_scheme" where
  "initlock lk name s =
     upd_lock lk (\<lambda>l. l\<lparr>lk_name := name, lk_locked := 0, lk_cpu := None\<rparr>) s"

definition push_off :: "'a kmach_scheme \<Rightarrow> 'a kmach_scheme" where
  "push_off s =
     (let old = intr_get (thishart s);
          s = upd_hart intr_off s;
          s = (if cpu_noff (cpus s (mycpu s)) = 0
               then upd_cpu (\<lambda>c. c\<lparr>cpu_intena := old\<rparr>) s else s)
      in upd_cpu (\<lambda>c. c\<lparr>cpu_noff := cpu_noff c + 1\<rparr>) s)"

definition pop_off :: "'a kmach_scheme \<Rightarrow> (unit \<times> 'a kmach_scheme) res" where
  "pop_off s =
     (if intr_get (thishart s) then panic ''pop_off - interruptible''
      else if cpu_noff (cpus s (mycpu s)) < 1 then panic ''pop_off''
      else let s = upd_cpu (\<lambda>c. c\<lparr>cpu_noff := cpu_noff c - 1\<rparr>) s;
               c = cpus s (mycpu s)
           in if cpu_noff c = 0 \<and> cpu_intena c then Inr ((), upd_hart intr_on s)
              else Inr ((), s))"

definition holding :: "lockid \<Rightarrow> 'a kmach_scheme \<Rightarrow> bool" where
  "holding lk s =
     (lk_locked (locks s lk) \<noteq> 0 \<and> lk_cpu (locks s lk) = Some (mycpu s))"

text \<open>
  \<open>__sync_lock_test_and_set(&lk->locked, 1)\<close> writes 1 and returns the old value.  With no
  other hart running, the spin loop ends at once or never.
\<close>

definition acquire :: "lockid \<Rightarrow> 'a kmach_scheme \<Rightarrow> (unit \<times> 'a kmach_scheme) res" where
  "acquire lk s =
     (let s = push_off s in
      if holding lk s then panic ''acquire''
      else if lk_locked (locks s lk) \<noteq> 0 then Inl Stuck
      else let s = upd_lock lk (\<lambda>l. l\<lparr>lk_locked := 1\<rparr>) s
           in Inr ((), upd_lock lk (\<lambda>l. l\<lparr>lk_cpu := Some (mycpu s)\<rparr>) s))"

definition release :: "lockid \<Rightarrow> 'a kmach_scheme \<Rightarrow> (unit \<times> 'a kmach_scheme) res" where
  "release lk s =
     (if \<not> holding lk s then panic ''release''
      else let s = upd_lock lk (\<lambda>l. l\<lparr>lk_cpu := None\<rparr>) s;
               s = upd_lock lk (\<lambda>l. l\<lparr>lk_locked := 0\<rparr>) s
           in pop_off s)"

lemmas spin_defs =
  thishart_def upd_hart_def cpuid_def mycpu_def upd_cpu_def upd_lock_def

lemmas lock_defs = push_off_def pop_off_def holding_def acquire_def release_def Let_def

section \<open>Balanced critical sections\<close>

text \<open>
  The part of the state that locking touches, with \<open>intena\<close> ignored where \<open>noff\<close> is
  zero: there it is dead, since the next \<open>push_off\<close> overwrites it.
\<close>

definition norm_cpu :: "cpu \<Rightarrow> cpu" where
  "norm_cpu c = (if cpu_noff c = 0 then c\<lparr>cpu_intena := False\<rparr> else c)"

definition lkview :: "'a kmach_scheme \<Rightarrow> nat \<times> (nat \<Rightarrow> csr) \<times> (nat \<Rightarrow> cpu) \<times> (lockid \<Rightarrow> spinlock)" where
  "lkview s = (cur_hart s, harts s, (\<lambda>i. norm_cpu (cpus s i)), locks s)"

text \<open>Interrupts are off whenever this CPU is inside a \<open>push_off\<close>.\<close>

definition hart_ok :: "'a kmach_scheme \<Rightarrow> bool" where
  "hart_ok s \<longleftrightarrow> 0 \<le> cpu_noff (cpus s (mycpu s)) \<and>
     (0 < cpu_noff (cpus s (mycpu s)) \<longrightarrow> \<not> intr_get (thishart s))"

definition lock_free :: "lockid \<Rightarrow> 'a kmach_scheme \<Rightarrow> bool" where
  "lock_free lk s \<longleftrightarrow> lk_locked (locks s lk) = 0 \<and> lk_cpu (locks s lk) = None"

definition can_lock :: "lockid \<Rightarrow> 'a kmach_scheme \<Rightarrow> bool" where
  "can_lock lk s \<longleftrightarrow> hart_ok s \<and> lock_free lk s"

lemma cpu_noff_norm [simp]: "cpu_noff (norm_cpu c) = cpu_noff c"
  by (simp add: norm_cpu_def)

lemma norm_cpu_noff: "norm_cpu c = norm_cpu c' \<Longrightarrow> cpu_noff c = cpu_noff c'"
  by (metis cpu_noff_norm)

lemma norm_cpu_same:
  assumes "norm_cpu c' = norm_cpu c" and "cpu_noff c \<noteq> 0"
  shows "c' = c"
proof -
  have "cpu_noff c' = cpu_noff c" using assms(1) by (rule norm_cpu_noff)
  with assms have "norm_cpu c' = c'" "norm_cpu c = c" by (simp_all only: norm_cpu_def if_False)
  with assms(1) show ?thesis by simp
qed

lemma can_lock_lkview:
  assumes "lkview s = lkview s'"
  shows "can_lock lk s \<longleftrightarrow> can_lock lk s'"
proof -
  have "cur_hart s = cur_hart s'" "harts s = harts s'" "locks s = locks s'"
    and n: "norm_cpu (cpus s i) = norm_cpu (cpus s' i)" for i
    using assms by (auto simp: lkview_def fun_eq_iff)
  moreover have "cpu_noff (cpus s i) = cpu_noff (cpus s' i)" for i
    using n by (rule norm_cpu_noff)
  ultimately show ?thesis
    by (simp add: can_lock_def hart_ok_def lock_free_def mycpu_def cpuid_def thishart_def)
qed


lemma lkviewD:
  assumes "lkview s = lkview s'"
  shows "cur_hart s = cur_hart s'" "harts s = harts s'" "locks s = locks s'"
    "norm_cpu (cpus s i) = norm_cpu (cpus s' i)"
  using assms by (auto simp: lkview_def fun_eq_iff)

lemma mycpu_lkview: "lkview s = lkview s' \<Longrightarrow> mycpu s = mycpu s'"
  using lkviewD [of s s'] by (simp add: mycpu_def cpuid_def thishart_def)

lemma mycpu_upd [simp]:
  "mycpu (upd_hart intr_off s) = mycpu s" "mycpu (upd_hart intr_on s) = mycpu s"
  "mycpu (upd_cpu f s) = mycpu s" "mycpu (upd_lock lk g s) = mycpu s"
  by (simp_all add: mycpu_def cpuid_def thishart_def upd_hart_def upd_cpu_def upd_lock_def r_tp_def)

lemma thishart_upd [simp]:
  "thishart (upd_hart f s) = f (thishart s)"
  "thishart (upd_cpu g s) = thishart s" "thishart (upd_lock lk h s) = thishart s"
  by (simp_all add: thishart_def upd_hart_def upd_cpu_def upd_lock_def)

lemma locks_upd [simp]:
  "locks (upd_hart f s) = locks s" "locks (upd_cpu g s) = locks s"
  "locks (upd_lock lk h s) = (locks s)(lk := h (locks s lk))"
  by (simp_all add: thishart_def upd_hart_def upd_cpu_def upd_lock_def)

lemma cpus_upd [simp]:
  "cpus (upd_hart f s) = cpus s" "cpus (upd_lock lk h s) = cpus s"
  "cpus (upd_cpu g s) = (cpus s)(mycpu s := g (cpus s (mycpu s)))"
  by (simp_all add: thishart_def upd_hart_def upd_cpu_def upd_lock_def)

lemma harts_upd [simp]:
  "harts (upd_hart f s) = (harts s)(cur_hart s := f (thishart s))"
  "harts (upd_cpu g s) = harts s" "harts (upd_lock lk h s) = harts s"
  by (simp_all add: upd_hart_def upd_cpu_def upd_lock_def)

lemma cur_hart_upd [simp]:
  "cur_hart (upd_hart f s) = cur_hart s" "cur_hart (upd_cpu g s) = cur_hart s"
  "cur_hart (upd_lock lk h s) = cur_hart s"
  by (simp_all add: upd_hart_def upd_cpu_def upd_lock_def)

lemma upd_lock_twice [simp]: "upd_lock lk f (upd_lock lk g s) = upd_lock lk (\<lambda>l. f (g l)) s"
  by (simp add: upd_lock_def)

lemma push_off_fields:
  "locks (push_off s) = locks s" "cur_hart (push_off s) = cur_hart s"
  "mycpu (push_off s) = mycpu s" "thishart (push_off s) = intr_off (thishart s)"
  "harts (push_off s) = (harts s)(cur_hart s := intr_off (thishart s))"
  "cpu_noff (cpus (push_off s) (mycpu s)) = cpu_noff (cpus s (mycpu s)) + 1"
  by (simp_all add: push_off_def Let_def)

lemma acquire_eq:
  assumes "can_lock lk s"
  shows "acquire lk s = Inr ((), upd_lock lk (\<lambda>l. l\<lparr>lk_locked := 1, lk_cpu := Some (mycpu s)\<rparr>) (push_off s))"
  using assms
  by (simp add: acquire_def can_lock_def lock_free_def holding_def push_off_fields Let_def)

lemma acquire_holding: "holding lk s \<Longrightarrow> acquire lk s = panic ''acquire''"
  by (simp add: acquire_def holding_def push_off_fields Let_def)

lemma acquire_spins:
  "lk_locked (locks s lk) \<noteq> 0 \<Longrightarrow> lk_cpu (locks s lk) \<noteq> Some (mycpu s) \<Longrightarrow> acquire lk s = Inl Stuck"
  by (simp add: acquire_def holding_def push_off_fields Let_def)

lemma acquire_InrD:
  assumes "acquire lk s = Inr (u, s')"
  shows "s' = upd_lock lk (\<lambda>l. l\<lparr>lk_locked := 1, lk_cpu := Some (mycpu s)\<rparr>) (push_off s)"
    and "lk_locked (locks s lk) = 0"
  using assms
  by (auto simp: acquire_def push_off_fields Let_def split: if_splits)

lemma hart_ok_push_off: "hart_ok s \<Longrightarrow> hart_ok (push_off s)"
  by (simp add: hart_ok_def push_off_fields)

lemma release_after:
  assumes "hart_ok s" and "lock_free lk s"
    and "lkview s2 = lkview (upd_lock lk (\<lambda>l. l\<lparr>lk_locked := 1, lk_cpu := Some (mycpu s)\<rparr>) (push_off s))"
  obtains s3 where "release lk s2 = Inr ((), s3)" and "lkview s3 = lkview s"
proof -
  let ?s1 = "upd_lock lk (\<lambda>l. l\<lparr>lk_locked := 1, lk_cpu := Some (mycpu s)\<rparr>) (push_off s)"
  let ?c = "cpus s (mycpu s)"
  note v = lkviewD [OF assms(3)]
  have my: "mycpu s2 = mycpu s"
    using mycpu_lkview [OF assms(3)] by (simp add: push_off_fields)
  have nn: "0 \<le> cpu_noff ?c" using assms(1) by (simp add: hart_ok_def)
  have "cpu_noff (cpus ?s1 (mycpu s)) \<noteq> 0"
    using nn by (simp add: push_off_fields)
  then have c: "cpus s2 (mycpu s) = cpus ?s1 (mycpu s)"
    by (rule norm_cpu_same [OF v(4)])
  have th: "thishart s2 = intr_off (thishart s)"
    using v(1,2) by (simp add: thishart_def push_off_fields)
  have lk2: "locks s2 = (locks s)(lk := (locks s lk)\<lparr>lk_locked := 1, lk_cpu := Some (mycpu s)\<rparr>)"
    using v(3) by (simp add: push_off_fields)
  have noff2: "cpu_noff (cpus s2 (mycpu s)) = cpu_noff ?c + 1"
    unfolding c by (simp add: push_off_fields)
  have int2: "cpu_intena (cpus s2 (mycpu s)) =
      (if cpu_noff ?c = 0 then intr_get (thishart s) else cpu_intena ?c)"
    unfolding c by (simp add: push_off_def Let_def)
  define t where "t = upd_cpu (\<lambda>c. c\<lparr>cpu_noff := cpu_noff c - 1\<rparr>)
    (upd_lock lk (\<lambda>l. l\<lparr>lk_locked := 0\<rparr>) (upd_lock lk (\<lambda>l. l\<lparr>lk_cpu := None\<rparr>) s2))"
  define s3 where "s3 = (if cpu_noff ?c = 0 \<and> intr_get (thishart s) then upd_hart intr_on t else t)"
  have rel: "release lk s2 = Inr ((), s3)"
    using lk2 noff2 int2 th nn
    by (simp add: release_def holding_def pop_off_def Let_def s3_def t_def my)
  have tc: "cpus t (mycpu s) = (cpus s2 (mycpu s))\<lparr>cpu_noff := cpu_noff ?c\<rparr>"
    using noff2 by (simp add: t_def my)
  have "norm_cpu (cpus t i) = norm_cpu (cpus s i)" for i
  proof (cases "i = mycpu s")
    case True
    then show ?thesis
      unfolding True tc c by (cases "cpu_noff ?c = 0") (simp_all add: push_off_def Let_def norm_cpu_def)
  next
    case False
    then have "cpus t i = cpus s2 i" "cpus ?s1 i = cpus s i"
      by (simp_all add: t_def my push_off_def Let_def)
    with v(4) [of i] show ?thesis by simp
  qed
  moreover have "locks t = locks s"
    using assms(2) by (simp add: t_def lk2 lock_free_def fun_eq_iff)
  moreover have "cur_hart t = cur_hart s"
    using v(1) by (simp add: t_def push_off_fields)
  moreover have "harts t = (harts s)(cur_hart s := intr_off (thishart s))"
    using v(2) by (simp add: t_def push_off_fields)
  moreover from this \<open>cur_hart t = cur_hart s\<close> have "harts s3 = harts s"
    using assms(1) by (cases "intr_get (thishart s)")
      (auto simp: s3_def hart_ok_def thishart_def)
  moreover have "cpus s3 = cpus t" "locks s3 = locks t" "cur_hart s3 = cur_hart t"
    by (simp_all add: s3_def)
  ultimately have "lkview s3 = lkview s"
    by (simp add: lkview_def)
  with rel show ?thesis by (rule that)
qed


section \<open>The lock interface\<close>

text \<open>
  What code between an acquire and a release relies on.  \<open>view\<close> is the state that locking
  touches, \<open>rest\<close> the state the lock protects: taking a free lock succeeds, a section that
  leaves \<open>view\<close> alone can always be left, and afterwards \<open>view\<close> is as before and
  \<open>rest\<close> is what the section made of it.
\<close>

locale mutex =
  fixes acq :: "'s \<Rightarrow> (unit \<times> 's) res"
    and rel :: "'s \<Rightarrow> (unit \<times> 's) res"
    and view :: "'s \<Rightarrow> 'v"
    and rest :: "'s \<Rightarrow> 'r"
    and free :: "'s \<Rightarrow> bool"
  assumes acq_ok: "free s \<Longrightarrow> \<exists>s1. acq s = Inr ((), s1)"
    and acq_rest: "acq s = Inr (u, s1) \<Longrightarrow> rest s1 = rest s"
    and rel_ok: "free s \<Longrightarrow> acq s = Inr (u, s1) \<Longrightarrow> view s2 = view s1 \<Longrightarrow>
      \<exists>s3. rel s2 = Inr ((), s3) \<and> view s3 = view s"
    and rel_rest: "rel s2 = Inr (u, s3) \<Longrightarrow> rest s3 = rest s2"
    and free_view: "view s = view s' \<Longrightarrow> free s = free s'"
begin

lemma critical:
  assumes "free s"
    and "\<And>a. view (f a) = view a"
    and "\<And>a b. rest a = rest b \<Longrightarrow> rest (f a) = rest (f b)"
  obtains s1 s3 where "acq s = Inr ((), s1)" "rest s1 = rest s"
    "rel (f s1) = Inr ((), s3)" "view s3 = view s" "rest s3 = rest (f s)"
proof -
  from acq_ok [OF assms(1)] obtain s1 where a: "acq s = Inr ((), s1)" ..
  from rel_ok [OF assms(1) a, of "f s1"] assms(2) obtain s3 where
    r: "rel (f s1) = Inr ((), s3)" "view s3 = view s" by auto
  have "rest s3 = rest (f s)"
    using rel_rest [OF r(1)] acq_rest [OF a] assms(3) by metis
  with a r acq_rest [OF a] show ?thesis by (intro that)
qed

end

lemma upd_more [simp]:
  "kmach.more (upd_hart f s) = kmach.more s" "kmach.more (upd_cpu g s) = kmach.more s"
  "kmach.more (upd_lock lk h s) = kmach.more s"
  by (simp_all add: upd_hart_def upd_cpu_def upd_lock_def)

lemma push_off_more [simp]: "kmach.more (push_off s) = kmach.more s"
  by (simp add: push_off_def Let_def)

lemma pop_off_more: "pop_off s = Inr (u, s') \<Longrightarrow> kmach.more s' = kmach.more s"
  by (auto simp: pop_off_def Let_def split: if_splits)

lemma acquire_more: "acquire lk s = Inr (u, s') \<Longrightarrow> kmach.more s' = kmach.more s"
  by (auto dest!: acquire_InrD(1))

lemma release_more: "release lk s = Inr (u, s') \<Longrightarrow> kmach.more s' = kmach.more s"
  by (auto simp: release_def Let_def split: if_splits dest!: pop_off_more)

interpretation spin: mutex "acquire lk" "release lk" lkview kmach.more "can_lock lk" for lk
proof
  show "\<exists>s1. acquire lk s = Inr ((), s1)" if "can_lock lk s" for s :: "'b kmach_scheme"
    using acquire_eq [OF that] by blast
  show "kmach.more s1 = kmach.more s" if "acquire lk s = Inr (u, s1)" for s s1 :: "'b kmach_scheme" and u
    using that by (rule acquire_more)
  show "kmach.more s3 = kmach.more s2" if "release lk s2 = Inr (u, s3)" for s2 s3 :: "'b kmach_scheme" and u
    using that by (rule release_more)
  show "\<exists>s3. release lk s2 = Inr ((), s3) \<and> lkview s3 = lkview s"
    if "can_lock lk s" and "acquire lk s = Inr (u, s1)" and "lkview s2 = lkview s1"
    for s s1 s2 :: "'b kmach_scheme" and u
    using that release_after [of s lk s2] acquire_InrD(1) [OF that(2)]
    by (auto simp: can_lock_def)
  show "can_lock lk s = can_lock lk s'" if "lkview s = lkview s'" for s s' :: "'b kmach_scheme"
    using that by (rule can_lock_lkview)
qed

section \<open>All harts at once\<close>

text \<open>
  The same code, cut at the points where another hart can run: \<open>Spinning\<close> is the loop
  around the atomic swap, \<open>Taken\<close> the gap between the swap and the store of \<open>lk->cpu\<close>,
  \<open>Leaving\<close> the gap between clearing \<open>lk->cpu\<close> and the releasing swap.
\<close>

datatype lkpc = Outside | Spinning | Taken | Inside | Leaving

record spin_sys = kmach +
  pcs :: "nat \<Rightarrow> lkpc"
  panicked :: bool

definition on_hart :: "nat \<Rightarrow> 'a kmach_scheme \<Rightarrow> 'a kmach_scheme" where
  "on_hart h s = s\<lparr>cur_hart := h\<rparr>"

definition goto_pc :: "nat \<Rightarrow> lkpc \<Rightarrow> 'a spin_sys_scheme \<Rightarrow> 'a spin_sys_scheme" where
  "goto_pc h l s = s\<lparr>pcs := (pcs s)(h := l)\<rparr>"

inductive spin_step :: "lockid \<Rightarrow> spin_sys \<Rightarrow> spin_sys \<Rightarrow> bool" for lk where
  toggle: "h < NCPU \<Longrightarrow> pcs s h = Outside \<Longrightarrow> f = intr_on \<or> f = intr_off \<Longrightarrow>
     spin_step lk s (upd_hart f (on_hart h s))"
| start: "h < NCPU \<Longrightarrow> pcs s h = Outside \<Longrightarrow> s1 = push_off (on_hart h s) \<Longrightarrow> \<not> holding lk s1 \<Longrightarrow>
     spin_step lk s (goto_pc h Spinning s1)"
| start_panic: "h < NCPU \<Longrightarrow> pcs s h = Outside \<Longrightarrow> s1 = push_off (on_hart h s) \<Longrightarrow> holding lk s1 \<Longrightarrow>
     spin_step lk s (s1\<lparr>panicked := True\<rparr>)"
| swap_busy: "h < NCPU \<Longrightarrow> pcs s h = Spinning \<Longrightarrow> lk_locked (locks s lk) \<noteq> 0 \<Longrightarrow>
     spin_step lk s (upd_lock lk (\<lambda>l. l\<lparr>lk_locked := 1\<rparr>) (on_hart h s))"
| swap_free: "h < NCPU \<Longrightarrow> pcs s h = Spinning \<Longrightarrow> lk_locked (locks s lk) = 0 \<Longrightarrow>
     spin_step lk s (goto_pc h Taken (upd_lock lk (\<lambda>l. l\<lparr>lk_locked := 1\<rparr>) (on_hart h s)))"
| own: "h < NCPU \<Longrightarrow> pcs s h = Taken \<Longrightarrow> s1 = on_hart h s \<Longrightarrow>
     spin_step lk s (goto_pc h Inside (upd_lock lk (\<lambda>l. l\<lparr>lk_cpu := Some (mycpu s1)\<rparr>) s1))"
| disown: "h < NCPU \<Longrightarrow> pcs s h = Inside \<Longrightarrow> holding lk (on_hart h s) \<Longrightarrow>
     spin_step lk s (goto_pc h Leaving (upd_lock lk (\<lambda>l. l\<lparr>lk_cpu := None\<rparr>) (on_hart h s)))"
| disown_panic: "h < NCPU \<Longrightarrow> pcs s h = Inside \<Longrightarrow> \<not> holding lk (on_hart h s) \<Longrightarrow>
     spin_step lk s (s\<lparr>panicked := True\<rparr>)"
| unlock: "h < NCPU \<Longrightarrow> pcs s h = Leaving \<Longrightarrow>
     pop_off (upd_lock lk (\<lambda>l. l\<lparr>lk_locked := 0\<rparr>) (on_hart h s)) = Inr ((), s1) \<Longrightarrow>
     spin_step lk s (goto_pc h Outside s1)"
| unlock_panic: "h < NCPU \<Longrightarrow> pcs s h = Leaving \<Longrightarrow>
     pop_off (upd_lock lk (\<lambda>l. l\<lparr>lk_locked := 0\<rparr>) (on_hart h s)) = Inl e \<Longrightarrow>
     spin_step lk s (s\<lparr>panicked := True\<rparr>)"

definition spin_init :: "lockid \<Rightarrow> spin_sys \<Rightarrow> bool" where
  "spin_init lk s \<longleftrightarrow> lock_free lk s \<and> \<not> panicked s \<and>
     (\<forall>h<NCPU. pcs s h = Outside \<and> csr_tp (harts s h) = of_nat h \<and> cpu_noff (cpus s h) = 0)"

inductive spin_reach :: "lockid \<Rightarrow> spin_sys \<Rightarrow> bool" for lk where
  init: "spin_init lk s \<Longrightarrow> spin_reach lk s"
| step: "spin_reach lk s \<Longrightarrow> spin_step lk s s' \<Longrightarrow> spin_reach lk s'"

definition crit :: "lkpc \<Rightarrow> bool" where
  "crit l \<longleftrightarrow> l \<in> {Taken, Inside, Leaving}"

definition spin_inv :: "lockid \<Rightarrow> spin_sys \<Rightarrow> bool" where
  "spin_inv lk s \<longleftrightarrow>
     \<not> panicked s \<and>
     (lk_locked (locks s lk) \<noteq> 0 \<longleftrightarrow> (\<exists>h<NCPU. crit (pcs s h))) \<and>
     (\<forall>h<NCPU. \<forall>h'<NCPU. crit (pcs s h) \<and> crit (pcs s h') \<longrightarrow> h = h') \<and>
     (\<forall>h<NCPU. lk_cpu (locks s lk) = Some h \<longleftrightarrow> pcs s h = Inside) \<and>
     (\<forall>h<NCPU. csr_tp (harts s h) = of_nat h) \<and>
     (\<forall>h<NCPU. cpu_noff (cpus s h) = (if pcs s h = Outside then 0 else 1)) \<and>
     (\<forall>h<NCPU. pcs s h \<noteq> Outside \<longrightarrow> \<not> intr_get (harts s h))"

lemma crit_simps [simp]:
  "\<not> crit Outside" "\<not> crit Spinning" "crit Taken" "crit Inside" "crit Leaving"
  by (simp_all add: crit_def)

lemma on_hart_simps [simp]:
  "locks (on_hart h s) = locks s" "cpus (on_hart h s) = cpus s" "harts (on_hart h s) = harts s"
  "cur_hart (on_hart h s) = h" "thishart (on_hart h s) = harts s h"
  by (simp_all add: on_hart_def thishart_def)

lemma goto_pc_simps [simp]:
  "locks (goto_pc h l s) = locks s" "cpus (goto_pc h l s) = cpus s" "harts (goto_pc h l s) = harts s"
  "pcs (goto_pc h l s) = (pcs s)(h := l)" "panicked (goto_pc h l s) = panicked s"
  by (simp_all add: goto_pc_def)

lemma spin_ext_simps [simp]:
  "pcs (on_hart h s) = pcs s" "panicked (on_hart h s) = panicked s"
  "pcs (upd_hart f s) = pcs s" "panicked (upd_hart f s) = panicked s"
  "pcs (upd_cpu g s) = pcs s" "panicked (upd_cpu g s) = panicked s"
  "pcs (upd_lock lk k s) = pcs s" "panicked (upd_lock lk k s) = panicked s"
  "pcs (push_off s) = pcs s" "panicked (push_off s) = panicked s"
  by (simp_all add: on_hart_def upd_hart_def upd_cpu_def upd_lock_def push_off_def Let_def)

lemma mycpu_on_hart:
  "h < NCPU \<Longrightarrow> csr_tp (harts s h) = of_nat h \<Longrightarrow> mycpu (on_hart h s) = h"
  by (simp add: mycpu_def cpuid_def r_tp_def NCPU_def unsigned_ucast_eq unsigned_of_nat take_bit_nat_eq_self)

lemma spin_inv_init: "spin_init lk s \<Longrightarrow> spin_inv lk s"
  by (auto simp: spin_init_def spin_inv_def lock_free_def)

lemma cpus_push_off_other: "i \<noteq> mycpu s \<Longrightarrow> cpus (push_off s) i = cpus s i"
  by (simp add: push_off_def Let_def)


lemma spin_invD:
  assumes "spin_inv lk s"
  shows "\<not> panicked s"
    and "lk_locked (locks s lk) \<noteq> 0 \<longleftrightarrow> (\<exists>h<NCPU. crit (pcs s h))"
    and "\<And>h h'. h < NCPU \<Longrightarrow> h' < NCPU \<Longrightarrow> crit (pcs s h) \<Longrightarrow> crit (pcs s h') \<Longrightarrow> h = h'"
    and "\<And>h. h < NCPU \<Longrightarrow> lk_cpu (locks s lk) = Some h \<longleftrightarrow> pcs s h = Inside"
    and "\<And>h. h < NCPU \<Longrightarrow> csr_tp (harts s h) = of_nat h"
    and "\<And>h. h < NCPU \<Longrightarrow> cpu_noff (cpus s h) = (if pcs s h = Outside then 0 else 1)"
    and "\<And>h. h < NCPU \<Longrightarrow> pcs s h \<noteq> Outside \<Longrightarrow> \<not> intr_get (harts s h)"
  using assms unfolding spin_inv_def by blast+

lemma spin_inv_mycpu: "spin_inv lk s \<Longrightarrow> h < NCPU \<Longrightarrow> mycpu (on_hart h s) = h"
  by (rule mycpu_on_hart) (auto dest: spin_invD(5))

lemma spin_inv_holding:
  assumes "spin_inv lk s" and "h < NCPU"
  shows "holding lk (on_hart h s) \<longleftrightarrow> pcs s h = Inside"
proof -
  have "pcs s h = Inside \<Longrightarrow> lk_locked (locks s lk) \<noteq> 0"
    using assms spin_invD(2) [OF assms(1)] by auto
  then show ?thesis
    using assms spin_invD(4) [OF assms] by (auto simp: holding_def spin_inv_mycpu)
qed

lemma spin_inv_holding_push:
  assumes "spin_inv lk s" and "h < NCPU"
  shows "holding lk (push_off (on_hart h s)) \<longleftrightarrow> pcs s h = Inside"
  using spin_inv_holding [OF assms] by (simp add: holding_def push_off_fields)

lemma spin_inv_pop_off:
  assumes "spin_inv lk s" and "h < NCPU" and "pcs s h = Leaving"
  defines "t \<equiv> upd_lock lk (\<lambda>l. l\<lparr>lk_locked := 0\<rparr>) (on_hart h s)"
  obtains s1 where "pop_off t = Inr ((), s1)" and "locks s1 = locks t" and "pcs s1 = pcs s"
    and "panicked s1 = panicked s"
    and "cpu_noff (cpus s1 h) = 0" and "\<And>i. i \<noteq> h \<Longrightarrow> cpus s1 i = cpus s i"
    and "\<And>i. csr_tp (harts s1 i) = csr_tp (harts s i)" and "\<And>i. i \<noteq> h \<Longrightarrow> harts s1 i = harts s i"
proof -
  have my: "mycpu t = h" unfolding t_def using assms(1,2) by (simp add: spin_inv_mycpu)
  have i: "\<not> intr_get (harts s h)" and n: "cpu_noff (cpus s h) = 1"
    using spin_invD(6,7) [OF assms(1,2)] assms(3) by auto
  define u where "u = upd_cpu (\<lambda>c. c\<lparr>cpu_noff := cpu_noff c - 1\<rparr>) t"
  define s1 where "s1 = (if cpu_intena (cpus s h) then upd_hart intr_on u else u)"
  have "pop_off t = Inr ((), s1)"
    using i n my by (simp add: pop_off_def s1_def u_def Let_def) (simp add: t_def)
  moreover have "locks s1 = locks t" "pcs s1 = pcs s" "panicked s1 = panicked s"
    by (simp_all add: s1_def u_def) (simp_all add: t_def)
  moreover have "cpu_noff (cpus s1 h) = 0" and "\<And>i. i \<noteq> h \<Longrightarrow> cpus s1 i = cpus s i"
    using n my by (simp_all add: s1_def u_def) (simp_all add: t_def)
  moreover have "\<And>i. csr_tp (harts s1 i) = csr_tp (harts s i)" and "\<And>i. i \<noteq> h \<Longrightarrow> harts s1 i = harts s i"
    by (simp_all add: s1_def u_def) (simp_all add: t_def)
  ultimately show ?thesis by (rule that)
qed

lemma spin_step_inv:
  assumes "spin_step lk s s'" and inv: "spin_inv lk s"
  shows "spin_inv lk s'"
  using assms(1)
proof cases
  case (toggle h f)
  then show ?thesis
    using spin_invD [OF inv] by (auto simp: spin_inv_def)
next
  case (start h s1)
  have my: "mycpu (on_hart h s) = h" using inv start(2) by (rule spin_inv_mycpu)
  then have "cpu_noff (cpus s1 h) = 1" "\<And>i. i \<noteq> h \<Longrightarrow> cpus s1 i = cpus s i"
    using push_off_fields(6) [of "on_hart h s"] cpus_push_off_other [of _ "on_hart h s"]
      spin_invD(6) [OF inv start(2)] start(3,4) by auto
  then show ?thesis
    using spin_invD [OF inv] start
    by (auto simp: spin_inv_def push_off_fields) (metis crit_simps(1))
next
  case (start_panic h s1)
  then show ?thesis using spin_inv_holding_push [OF inv] by simp
next
  case (swap_busy h)
  then show ?thesis
    using spin_invD [OF inv] by (auto simp: spin_inv_def)
next
  case (swap_free h)
  then have "\<forall>h'<NCPU. \<not> crit (pcs s h')"
    using spin_invD(2) [OF inv] by auto
  then show ?thesis
    using spin_invD [OF inv] swap_free by (auto simp: spin_inv_def)
next
  case (own h s1)
  have my: "mycpu (on_hart h s) = h" using inv own(2) by (rule spin_inv_mycpu)
  have "\<And>h'. h' < NCPU \<Longrightarrow> crit (pcs s h') \<Longrightarrow> h' = h"
    using spin_invD(3) [OF inv _ own(2)] own(3) by auto
  then show ?thesis
    using spin_invD [OF inv] own my by (auto simp: spin_inv_def)
next
  case (disown h)
  have "\<And>h'. h' < NCPU \<Longrightarrow> crit (pcs s h') \<Longrightarrow> h' = h"
    using spin_invD(3) [OF inv _ disown(2)] disown(3) by auto
  then show ?thesis
    using spin_invD [OF inv] disown by (auto simp: spin_inv_def)
next
  case (disown_panic h)
  then show ?thesis using spin_inv_holding [OF inv] by simp
next
  case (unlock h s1)
  obtain s2 where s2: "pop_off (upd_lock lk (\<lambda>l. l\<lparr>lk_locked := 0\<rparr>) (on_hart h s)) = Inr ((), s2)"
    "locks s2 = locks (upd_lock lk (\<lambda>l. l\<lparr>lk_locked := 0\<rparr>) (on_hart h s))" "pcs s2 = pcs s"
    "panicked s2 = panicked s" "cpu_noff (cpus s2 h) = 0" "\<And>i. i \<noteq> h \<Longrightarrow> cpus s2 i = cpus s i"
    "\<And>i. csr_tp (harts s2 i) = csr_tp (harts s i)" "\<And>i. i \<noteq> h \<Longrightarrow> harts s2 i = harts s i"
    by (rule spin_inv_pop_off [OF inv unlock(2,3)], rule that)
  from s2(1) unlock(4) have "s1 = s2" by simp
  have "\<And>h'. h' < NCPU \<Longrightarrow> crit (pcs s h') \<Longrightarrow> h' = h"
    using spin_invD(3) [OF inv _ unlock(2)] unlock(3) by auto
  then show ?thesis
    using spin_invD [OF inv] unlock(1-3) s2(2-) \<open>s1 = s2\<close> by (auto simp: spin_inv_def)
next
  case (unlock_panic h e)
  from inv unlock_panic(2,3) obtain s2 where
    "pop_off (upd_lock lk (\<lambda>l. l\<lparr>lk_locked := 0\<rparr>) (on_hart h s)) = Inr ((), s2)"
    by (rule spin_inv_pop_off)
  with unlock_panic(4) show ?thesis by simp
qed


lemma spin_reach_inv: "spin_reach lk s \<Longrightarrow> spin_inv lk s"
  by (induction rule: spin_reach.induct) (auto intro: spin_inv_init spin_step_inv)

text \<open>An uncontended \<open>acquire\<close> is the run start, swap, own of one hart.\<close>

lemma on_hart_id: "cur_hart s = h \<Longrightarrow> on_hart h s = s"
  by (auto simp: on_hart_def)

lemma goto_pc_cur [simp]: "cur_hart (goto_pc h l s) = cur_hart s"
  by (simp add: goto_pc_def)

lemma goto_pc_twice [simp]: "goto_pc h l (goto_pc h l' s) = goto_pc h l s"
  by (simp add: goto_pc_def)

lemma goto_pc_upd_lock: "upd_lock lk f (goto_pc h l s) = goto_pc h l (upd_lock lk f s)"
  by (simp add: goto_pc_def upd_lock_def)

lemma mycpu_goto_pc [simp]: "mycpu (goto_pc h l s) = mycpu s"
  by (simp add: mycpu_def cpuid_def thishart_def)

lemma acquire_refines:
  assumes "cur_hart s < NCPU" and "pcs s (cur_hart s) = Outside"
    and "acquire lk s = Inr ((), s')" and "\<not> holding lk s"
  shows "(spin_step lk)\<^sup>*\<^sup>* s (goto_pc (cur_hart s) Inside s')"
proof -
  let ?h = "cur_hart s"
  define s1 where "s1 = goto_pc ?h Spinning (push_off s)"
  define s2 where "s2 = goto_pc ?h Taken (upd_lock lk (\<lambda>l. l\<lparr>lk_locked := 1\<rparr>) (push_off s))"
  have cur: "on_hart ?h s = s" "on_hart ?h s1 = s1" "on_hart ?h s2 = s2"
    by (simp_all add: on_hart_id s1_def s2_def push_off_fields)
  have free: "lk_locked (locks s lk) = 0" using assms(3) by (rule acquire_InrD)
  have "spin_step lk s s1"
    using spin_step.start [OF assms(1,2) refl, of lk] assms(4)
    by (simp add: cur s1_def holding_def push_off_fields)
  moreover have "spin_step lk s1 s2"
    using spin_step.swap_free [of ?h s1 lk] assms(1) free unfolding cur
    by (simp add: s1_def s2_def push_off_fields goto_pc_upd_lock)
  moreover have "spin_step lk s2 (goto_pc ?h Inside s')"
    using spin_step.own [of ?h s2 "on_hart ?h s2" lk] assms(1) unfolding cur
    by (simp add: s2_def acquire_InrD(1) [OF assms(3)] goto_pc_upd_lock push_off_fields)
  ultimately show ?thesis by (meson converse_rtranclp_into_rtranclp rtranclp.rtrancl_refl)
qed

section \<open>Properties\<close>


definition demo_sys :: spin_sys where
  "demo_sys = \<lparr>cur_hart = 0,
     harts = (\<lambda>h. \<lparr>csr_mhartid = 0, csr_mstatus = 0, csr_mepc = 0, csr_sstatus = SSTATUS_SIE, csr_sip = 0,
       csr_sie = 0, csr_mie = 0, csr_sepc = 0, csr_medeleg = 0, csr_mideleg = 0, csr_stvec = 0,
       csr_mtvec = 0, csr_pmpcfg0 = 0, csr_pmpaddr0 = 0, csr_satp = 0, csr_mscratch = 0, csr_scause = 0,
       csr_stval = 0, csr_mcounteren = 0, csr_time = 0, csr_sp = 0, csr_tp = of_nat h, csr_ra = 0,
       csr_sfences = 0\<rparr>),
     cpus = (\<lambda>_. \<lparr>cpu_proc = None, cpu_context = undefined, cpu_noff = 0, cpu_intena = False\<rparr>),
     locks = (\<lambda>_. \<lparr>lk_locked = 0, lk_name = ''demo'', lk_cpu = None\<rparr>),
     pcs = (\<lambda>_. Outside), panicked = False\<rparr>"

definition demo_taken :: spin_sys where
  "demo_taken = goto_pc 0 Taken (upd_lock KmemLock (\<lambda>l. l\<lparr>lk_locked := 1\<rparr>)
     (goto_pc 0 Spinning (push_off demo_sys)))"

lemma demo_sys_simps [simp]:
  "locks demo_sys lk = \<lparr>lk_locked = 0, lk_name = ''demo'', lk_cpu = None\<rparr>"
  "pcs demo_sys h = Outside" "\<not> panicked demo_sys" "csr_tp (harts demo_sys h) = of_nat h"
  "cpu_noff (cpus demo_sys h) = 0" "cur_hart demo_sys = 0" "on_hart 0 demo_sys = demo_sys"
  by (simp_all add: demo_sys_def on_hart_def)

lemma demo_taken_reach: "spin_reach KmemLock demo_taken"
proof -
  have "spin_reach KmemLock demo_sys"
    by (rule spin_reach.init) (simp add: spin_init_def lock_free_def)
  moreover have "spin_step KmemLock demo_sys (goto_pc 0 Spinning (push_off (on_hart 0 demo_sys)))"
    by (rule spin_step.start) (simp_all add: NCPU_def holding_def push_off_fields)
  moreover have "spin_step KmemLock (goto_pc 0 Spinning (push_off demo_sys)) demo_taken"
    using spin_step.swap_free [of 0 "goto_pc 0 Spinning (push_off demo_sys)" KmemLock]
    by (simp add: demo_taken_def NCPU_def push_off_fields on_hart_id)
  ultimately show ?thesis by (auto intro: spin_reach.step)
qed


text \<open>
  (C3) A lock that is free can be taken by a hart whose nesting count is in order; it is then
  held by that hart with interrupts off, a second \<open>acquire\<close> by the same hart panics, and
  \<open>release\<close> puts back the lock, the nesting count and the interrupt enable bit exactly as
  they were before the \<open>acquire\<close>; a second \<open>release\<close> panics.
\<close>

theorem acquire_release_restores:
  assumes "can_lock lk s"
  shows "\<exists>s1 s2. acquire lk s = Inr ((), s1) \<and> holding lk s1 \<and> \<not> intr_get (thishart s1) \<and>
    acquire lk s1 = panic ''acquire'' \<and>
    release lk s1 = Inr ((), s2) \<and> lkview s2 = lkview s \<and> release lk s2 = panic ''release''"
proof -
  from spin.acq_ok [OF assms] obtain s1 where a: "acquire lk s = Inr ((), s1)" ..
  from spin.rel_ok [OF assms a refl] obtain s2 where
    r: "release lk s1 = Inr ((), s2)" "lkview s2 = lkview s" by auto
  have h: "holding lk s1" and i: "\<not> intr_get (thishart s1)"
    using a acquire_InrD(1) [OF a]
    by (simp_all add: holding_def push_off_fields intr_get_off)
  have "\<not> holding lk s2"
    using assms lkviewD(3) [OF r(2)] by (simp add: can_lock_def lock_free_def holding_def)
  then have "release lk s2 = panic ''release''" by (simp add: release_def)
  with a r h i acquire_holding [OF h] show ?thesis by blast
qed

theorem acquire_release_restores_witness:
  "\<exists>s1 s2. acquire LogLock demo_sys = Inr ((), s1) \<and> holding LogLock s1 \<and>
    release LogLock s1 = Inr ((), s2) \<and> lkview s2 = lkview demo_sys"
proof -
  have "can_lock LogLock demo_sys"
    by (simp add: can_lock_def lock_free_def hart_ok_def)
  from acquire_release_restores [OF this] show ?thesis by blast
qed

end
