(* ===== verification/Kalloc.thy ===== *)
theory Kalloc
  imports Kstring Spinlock
begin

text \<open>
  The physical page allocator of \<open>kernel/kalloc.c\<close>: a free list threaded through the first
  word of every free page.  The state adds physical memory, the list head \<open>kmem.freelist\<close>
  and the linker symbol \<open>end\<close> to the machine.  \<open>kpool s ps\<close> says that the list in memory
  is \<open>ps\<close>; the lemmas show that \<open>kalloc\<close> pops it, \<open>kfree\<close> pushes onto it and
  \<open>kinit\<close> fills it with every page between \<open>end\<close> and \<open>PHYSTOP\<close>.
\<close>

record kst = kmach +
  mem :: mem
  kfreelist :: u64
  kend :: u64

section \<open>Definitions\<close>

definition kfree :: "u64 \<Rightarrow> 'a kst_scheme \<Rightarrow> (unit \<times> 'a kst_scheme) res" where
  "kfree pa s =
     (if pa mod PGSZ \<noteq> 0 \<or> pa < kend s \<or> pa \<ge> PHYSTOP then panic ''kfree''
      else let s = s\<lparr>mem := memset pa 1 (of_nat PGSIZE) (mem s)\<rparr>; r = pa in
        bindR (acquire KmemLock s) (\<lambda>(_, s).
        let s = s\<lparr>mem := st64 (mem s) r (kfreelist s)\<rparr>;
            s = s\<lparr>kfreelist := r\<rparr>
        in release KmemLock s))"

definition kalloc :: "'a kst_scheme \<Rightarrow> (u64 \<times> 'a kst_scheme) res" where
  "kalloc s =
     bindR (acquire KmemLock s) (\<lambda>(_, s).
     let r = kfreelist s;
         s = (if r \<noteq> 0 then s\<lparr>kfreelist := ld64 (mem s) r\<rparr> else s) in
     bindR (release KmemLock s) (\<lambda>(_, s).
     let s = (if r \<noteq> 0 then s\<lparr>mem := memset r 5 (of_nat PGSIZE) (mem s)\<rparr> else s)
     in Inr (r, s)))"

text \<open>
  The loop of \<open>freerange\<close> ends on every input: \<open>p\<close> grows until \<open>kfree\<close> refuses it.
\<close>

lemma kfree_InrD: "kfree p s = Inr r \<Longrightarrow> unat p < unat PHYSTOP"
  by (auto simp: kfree_def word_less_nat_alt word_le_nat_alt not_le split: if_splits)

function freerange_loop :: "u64 \<Rightarrow> u64 \<Rightarrow> 'a kst_scheme \<Rightarrow> (unit \<times> 'a kst_scheme) res" where
  "freerange_loop p pa_end s =
     (if p + PGSZ \<le> pa_end
      then bindR (kfree p s) (\<lambda>(_, s). freerange_loop (p + PGSZ) pa_end s)
      else Inr ((), s))"
  by pat_completeness auto

termination
proof (relation "measure (\<lambda>(p, _, _). unat PHYSTOP - unat p)")
  fix p pa_end and s s' :: "'a kst_scheme" and x u
  assume "kfree p s = Inr x"
  then have "unat p < unat PHYSTOP" by (rule kfree_InrD)
  moreover from this have "unat (p + PGSZ) = unat p + 4096"
    by (simp add: unat_word_ariths layout_nums)
  ultimately show "((p + PGSZ, pa_end, s'), p, pa_end, s) \<in> measure (\<lambda>(p, _, _). unat PHYSTOP - unat p)"
    by simp
qed simp

definition freerange :: "u64 \<Rightarrow> u64 \<Rightarrow> 'a kst_scheme \<Rightarrow> (unit \<times> 'a kst_scheme) res" where
  "freerange pa_start pa_end s = freerange_loop (PGROUNDUP pa_start) pa_end s"

definition kinit :: "'a kst_scheme \<Rightarrow> (unit \<times> 'a kst_scheme) res" where
  "kinit s = (let s = initlock KmemLock ''kmem'' s in freerange (kend s) PHYSTOP s)"

declare freerange_loop.simps [simp del]

section \<open>The free list in memory\<close>

primrec flist :: "mem \<Rightarrow> u64 \<Rightarrow> u64 list \<Rightarrow> bool" where
  "flist m p [] \<longleftrightarrow> p = 0"
| "flist m p (x # xs) \<longleftrightarrow> p = x \<and> x \<noteq> 0 \<and> flist m (ld64 m x) xs"

definition kpage :: "u64 \<Rightarrow> u64 \<Rightarrow> bool" where
  "kpage e p \<longleftrightarrow> aligned p \<and> e \<le> p \<and> p < PHYSTOP"

definition kpool :: "'a kst_scheme \<Rightarrow> u64 list \<Rightarrow> bool" where
  "kpool s ps \<longleftrightarrow> can_lock KmemLock s \<and> 0 < kend s \<and> flist (mem s) (kfreelist s) ps \<and>
     distinct ps \<and> (\<forall>p\<in>set ps. kpage (kend s) p)"

text \<open>Everything but memory and the free list.\<close>

definition krest :: "'a kst_scheme \<Rightarrow> (nat \<times> (nat \<Rightarrow> csr) \<times> (nat \<Rightarrow> cpu) \<times> (lockid \<Rightarrow> spinlock)) \<times> u64 \<times> 'a" where
  "krest s = (lkview s, kend s, kst.more s)"

lemma flist_det: "flist m p xs \<Longrightarrow> flist m p ys \<Longrightarrow> xs = ys"
  by (induction xs arbitrary: p ys) (case_tac ys; auto)+

lemma flist_write:
  "(\<And>x. x \<in> set xs \<Longrightarrow> apart x 8 a (length bs)) \<Longrightarrow> flist (mem_write m a bs) p xs = flist m p xs"
  by (induction xs arbitrary: p) (auto simp: ld64_write_apart)

lemma pages_apart:
  assumes "aligned p" and "aligned q" and "p \<noteq> q"
  shows "apart p 4096 q 4096"
proof -
  have step: "4096 \<le> unat (b - a)" if "aligned a" "aligned b" "a \<noteq> b" for a b :: u64
  proof -
    have "4096 dvd unat (b - a)"
    proof (cases "unat a \<le> unat b")
      case True
      then show ?thesis using that by (simp add: unat_sub_if' aligned_unat mod_eq_0_iff_dvd)
    next
      case False
      have "4096 dvd (2 ^ 64 :: nat)" by simp
      with False that show ?thesis
        using u64_less [of a]
        by (auto simp: unat_sub_if' aligned_unat mod_eq_0_iff_dvd intro!: dvd_diff_nat)
    qed
    moreover have "0 < unat (b - a)" using that(3) by (simp add: unat_gt_0)
    ultimately show ?thesis by (rule dvd_imp_le)
  qed
  show ?thesis using step [of p q] step [of q p] assms by (simp add: apart_def)
qed

lemma apart_mono: "apart a k b l \<Longrightarrow> k' \<le> k \<Longrightarrow> l' \<le> l \<Longrightarrow> apart a k' b l'"
  by (auto simp: apart_def)

lemma krest_upd_simps [simp]: "lkview (s\<lparr>mem := m\<rparr>) = lkview s" "lkview (s\<lparr>kfreelist := r\<rparr>) = lkview s"
  by (simp_all add: lkview_def)

lemma can_lock_upd [simp]:
  "can_lock lk (s\<lparr>mem := m\<rparr>) = can_lock lk s" "can_lock lk (s\<lparr>kfreelist := r\<rparr>) = can_lock lk s"
  by (rule can_lock_lkview; simp)+

lemma krest_mem [simp]: "krest (s\<lparr>mem := m\<rparr>) = krest s" "krest (s\<lparr>kfreelist := r\<rparr>) = krest s"
  by (simp_all add: krest_def lkview_def)

lemma kmach_more_kst:
  fixes s t :: "'a kst_scheme"
  assumes "kmach.more s = kmach.more t"
  shows "mem s = mem t" "kfreelist s = kfreelist t" "kend s = kend t" "kst.more s = kst.more t"
  using assms by (cases s, cases t, simp)+

text \<open>A range of bytes inside the page at \<open>q\<close>.\<close>

definition in_page :: "u64 \<Rightarrow> u64 \<Rightarrow> nat \<Rightarrow> bool" where
  "in_page q a k \<longleftrightarrow> 0 < k \<and> unat (a - q) + k \<le> 4096"

lemma apart_sub:
  assumes "apart x n q 4096" and "in_page q a k"
  shows "apart x n a k"
proof -
  define i where "i = unat (a - q)"
  have a: "a = q + of_nat i" by (simp add: i_def)
  have i: "i + k \<le> 4096" "0 < k" using assms(2) by (simp_all add: in_page_def i_def)
  have "n \<le> unat (a - x)"
    unfolding a using apart_offset [of q 4096 x n i] assms(1) i by (simp add: apart_sym)
  moreover have "k \<le> unat (x - a)"
  proof -
    have "4096 \<le> unat (x - q)" using assms(1) by (simp add: apart_def)
    moreover from this have "unat (x - a) = unat (x - q) - i"
      using unat_sub_of_nat [of i "x - q"] i by (simp add: a diff_diff_eq)
    ultimately show ?thesis using i by linarith
  qed
  ultimately show ?thesis by (simp add: apart_def)
qed

lemma in_page_start [simp]: "in_page q q k \<longleftrightarrow> 0 < k \<and> k \<le> 4096"
  by (simp add: in_page_def)

lemma kpool_apart:
  assumes "kpool s ps" and "x \<in> set ps" and "aligned q" and "q \<notin> set ps" and "in_page q a k"
  shows "apart x 8 a k"
proof (rule apart_sub [OF _ assms(5)])
  have "x \<noteq> q" "aligned x" using assms by (auto simp: kpool_def kpage_def)
  with pages_apart [of x q] assms(3) show "apart x 8 q 4096" by (auto elim: apart_mono)
qed

lemma kpool_write:
  assumes "kpool s ps" and "aligned q" and "q \<notin> set ps" and "in_page q a (length bs)"
  shows "kpool (s\<lparr>mem := mem_write (mem s) a bs\<rparr>) ps"
proof -
  have "flist (mem_write (mem s) a bs) (kfreelist s) ps = flist (mem s) (kfreelist s) ps"
    using kpool_apart [OF assms(1) _ assms(2-4)] by (rule flist_write)
  with assms(1) show ?thesis by (simp add: kpool_def)
qed

lemma kpage_nonzero: "kpage e p \<Longrightarrow> 0 < e \<Longrightarrow> p \<noteq> 0"
  by (auto simp: kpage_def word_less_nat_alt word_le_nat_alt)

lemma st64_eq_write: "st64 m a v = mem_write m a (to_bytes 8 v)"
  by (simp add: st64_def)

section \<open>The allocator refines a pool of pages\<close>

lemma kfree_pool:
  assumes pool: "kpool s ps" and pa: "kpage (kend s) pa" and new: "pa \<notin> set ps"
  shows "\<exists>s'. kfree pa s = Inr ((), s') \<and> kpool s' (pa # ps) \<and> krest s' = krest s \<and>
    (\<forall>x. 4096 \<le> unat (x - pa) \<longrightarrow> mem s' x = mem s x)"
proof -
  define s0 where "s0 = s\<lparr>mem := memset pa 1 (of_nat PGSIZE) (mem s)\<rparr>"
  define f where "f = (\<lambda>s :: 'a kst_scheme. s\<lparr>mem := st64 (mem s) pa (kfreelist s), kfreelist := pa\<rparr>)"
  have lk: "can_lock KmemLock s0"
    using pool by (simp add: kpool_def s0_def)
  obtain s1 s3 where s3: "acquire KmemLock s0 = Inr ((), s1)" "kmach.more s1 = kmach.more s0"
    "release KmemLock (f s1) = Inr ((), s3)" "lkview s3 = lkview s0" "kmach.more s3 = kmach.more (f s0)"
  proof (rule spin.critical [of KmemLock s0 f, OF lk])
    show "lkview (f a) = lkview a" for a by (simp add: f_def)
    show "kmach.more (f a) = kmach.more (f b)" if "kmach.more a = kmach.more b" for a b
      using that by (cases a, cases b) (simp add: f_def)
  qed
  note more = kmach_more_kst [OF s3(5)]
  have m: "mem s3 = mem_write (mem_write (mem s) pa (replicate 4096 1)) pa (to_bytes 8 (kfreelist s))"
    using more(1) by (simp add: f_def s0_def memset_eq PGSIZE_def st64_eq_write)
  have ap: "apart x 8 pa 4096" "apart x 8 pa 8" if "x \<in> set ps" for x
    using kpool_apart [OF pool that _ new, of pa] pa by (simp_all add: kpage_def)
  have "flist (mem s3) (kfreelist s) ps"
    unfolding m using pool ap by (simp add: flist_write kpool_def)
  moreover have "ld64 (mem s3) pa = kfreelist s"
    using ld64_st64_same by (simp add: m st64_eq_write [symmetric])
  ultimately have "kpool s3 (pa # ps)"
    using pool pa new more(2,3) kpage_nonzero [OF pa] can_lock_lkview [of s3 s] s3(4)
    by (simp add: kpool_def f_def s0_def)
  moreover have "mem s3 x = mem s x" if "4096 \<le> unat (x - pa)" for x
    using that by (simp add: m mem_write_other)
  moreover have "kfree pa s = Inr ((), s3)"
    using pa s3(1,3) by (simp add: kfree_def kpage_def aligned_def s0_def f_def not_less not_le Let_def)
  moreover have "krest s3 = krest s"
    using more s3(4) by (simp add: krest_def f_def s0_def)
  ultimately show ?thesis by blast
qed

lemma kfree_bad: "\<not> kpage (kend s) pa \<Longrightarrow> kfree pa s = panic ''kfree''"
  unfolding kfree_def kpage_def aligned_def by (rule if_P) (simp only: de_Morgan_conj not_le not_less)

lemma kalloc_pool:
  assumes pool: "kpool s ps"
  shows "\<exists>s'. kalloc s = Inr (if ps = [] then 0 else hd ps, s') \<and> kpool s' (tl ps) \<and> krest s' = krest s \<and>
    mem s' = (if ps = [] then mem s else mem_write (mem s) (hd ps) (replicate 4096 5))"
proof -
  define f where "f = (\<lambda>s :: 'a kst_scheme.
    if kfreelist s \<noteq> 0 then s\<lparr>kfreelist := ld64 (mem s) (kfreelist s)\<rparr> else s)"
  have lk: "can_lock KmemLock s" using pool by (simp add: kpool_def)
  obtain s1 s3 where s3: "acquire KmemLock s = Inr ((), s1)" "kmach.more s1 = kmach.more s"
    "release KmemLock (f s1) = Inr ((), s3)" "lkview s3 = lkview s" "kmach.more s3 = kmach.more (f s)"
  proof (rule spin.critical [of KmemLock s f, OF lk])
    show "lkview (f a) = lkview a" for a by (simp add: f_def)
    show "kmach.more (f a) = kmach.more (f b)" if "kmach.more a = kmach.more b" for a b
      using that by (cases a, cases b) (simp add: f_def)
  qed
  note more1 = kmach_more_kst [OF s3(2)] and more = kmach_more_kst [OF s3(5)]
  define s4 where "s4 = (if kfreelist s \<noteq> 0 then s3\<lparr>mem := memset (kfreelist s) 5 (of_nat PGSIZE) (mem s3)\<rparr> else s3)"
  have run: "kalloc s = Inr (kfreelist s, s4)"
    using s3(1,3) more1(2) by (simp add: kalloc_def f_def s4_def Let_def)
  have cl: "can_lock KmemLock s3" using can_lock_lkview [OF s3(4)] lk by blast
  have rest: "krest s4 = krest s"
    using more s3(4) by (simp add: krest_def s4_def f_def)
  show ?thesis
  proof (cases ps)
    case Nil
    then have "kfreelist s = 0" using pool by (simp add: kpool_def)
    with Nil run rest pool more cl show ?thesis by (simp add: s4_def f_def kpool_def)
  next
    case (Cons p qs)
    then have p: "kfreelist s = p" "p \<noteq> 0" "flist (mem s) (ld64 (mem s) p) qs" "p \<notin> set qs" "aligned p"
      using pool by (auto simp: kpool_def kpage_def)
    have s3p: "kpool s3 qs"
      using Cons p pool more cl by (simp add: kpool_def f_def)
    have "kpool (s3\<lparr>mem := mem_write (mem s3) p (replicate 4096 5)\<rparr>) qs"
      using kpool_write [OF s3p p(5,4), of p "replicate 4096 5"] by simp
    with Cons run rest p more show ?thesis
      by (simp add: s4_def f_def memset_eq PGSIZE_def)
  qed
qed

section \<open>The allocator as an interface\<close>

text \<open>
  What the users of the allocator (page tables, processes, pipes) rely on: an allocation
  takes a page out of the pool, a free puts it back, and neither touches memory of pages that
  are in use or any other part of the state.
\<close>

locale page_allocator =
  fixes alloc :: "'s \<Rightarrow> (u64 \<times> 's) res"
    and free :: "u64 \<Rightarrow> 's \<Rightarrow> (unit \<times> 's) res"
    and pool :: "'s \<Rightarrow> u64 list \<Rightarrow> bool"
    and memory :: "'s \<Rightarrow> mem"
    and rest :: "'s \<Rightarrow> 'r"
    and page :: "'s \<Rightarrow> u64 \<Rightarrow> bool"
  assumes alloc_some: "pool s (p # ps) \<Longrightarrow> \<exists>s'. alloc s = Inr (p, s') \<and> pool s' ps \<and> rest s' = rest s \<and>
      memory s' = mem_write (memory s) p (replicate 4096 5)"
    and alloc_none: "pool s [] \<Longrightarrow> \<exists>s'. alloc s = Inr (0, s') \<and> pool s' [] \<and> rest s' = rest s \<and>
      memory s' = memory s"
    and free_ok: "pool s ps \<Longrightarrow> page s p \<Longrightarrow> p \<notin> set ps \<Longrightarrow>
      \<exists>s'. free p s = Inr ((), s') \<and> pool s' (p # ps) \<and> rest s' = rest s \<and>
        (\<forall>x. 4096 \<le> unat (x - p) \<longrightarrow> memory s' x = memory s x)"
    and pool_page: "pool s ps \<Longrightarrow> p \<in> set ps \<Longrightarrow> page s p \<and> aligned p \<and> p \<noteq> 0"
    and pool_distinct: "pool s ps \<Longrightarrow> distinct ps"
    and page_rest: "rest s = rest s' \<Longrightarrow> page s p = page s' p"
begin

lemma alloc_cases:
  assumes "pool s ps"
  obtains (none) s' where "ps = []" "alloc s = Inr (0, s')" "pool s' []" "rest s' = rest s"
      "memory s' = memory s"
  | (some) p qs s' where "ps = p # qs" "alloc s = Inr (p, s')" "pool s' qs" "rest s' = rest s"
      "memory s' = mem_write (memory s) p (replicate 4096 5)" "page s p" "aligned p" "p \<noteq> 0" "p \<notin> set qs"
proof (cases ps)
  case Nil
  with assms alloc_none [of s] show ?thesis by (auto intro: none)
next
  case (Cons p qs)
  from assms Cons pool_page [OF assms, of p] pool_distinct [OF assms] alloc_some [of s p qs]
  show ?thesis by (auto intro: some)
qed

lemma alloc_frees:
  assumes "pool s (p # ps)"
  shows "\<exists>s1 s2. alloc s = Inr (p, s1) \<and> free p s1 = Inr ((), s2) \<and> pool s2 (p # ps) \<and> rest s2 = rest s \<and>
    (\<forall>x. 4096 \<le> unat (x - p) \<longrightarrow> memory s2 x = memory s x)"
proof -
  from alloc_some [OF assms] obtain s1 where s1: "alloc s = Inr (p, s1)" "pool s1 ps" "rest s1 = rest s"
    "memory s1 = mem_write (memory s) p (replicate 4096 5)" by blast
  have p: "page s1 p" "p \<notin> set ps"
    using page_rest [OF s1(3)] pool_page [OF assms] pool_distinct [OF assms] by auto
  from free_ok [OF s1(2) p] obtain s2 where "free p s1 = Inr ((), s2)" "pool s2 (p # ps)" "rest s2 = rest s1"
    "\<forall>x. 4096 \<le> unat (x - p) \<longrightarrow> memory s2 x = memory s1 x" by blast
  with s1 show ?thesis by (auto simp: mem_write_other)
qed

end

interpretation kmem: page_allocator kalloc kfree kpool mem krest "\<lambda>s. kpage (kend s)"
proof
  fix s s' :: "'a kst_scheme" and p ps
  show "\<exists>s'. kalloc s = Inr (p, s') \<and> kpool s' ps \<and> krest s' = krest s \<and>
      mem s' = mem_write (mem s) p (replicate 4096 5)" if "kpool s (p # ps)"
    using kalloc_pool [OF that] by simp
  show "\<exists>s'. kalloc s = Inr (0, s') \<and> kpool s' [] \<and> krest s' = krest s \<and> mem s' = mem s"
    if "kpool s []"
    using kalloc_pool [OF that] by simp
  show "kpage (kend s) p \<and> aligned p \<and> p \<noteq> 0" if "kpool s ps" "p \<in> set ps"
    using that kpage_nonzero by (auto simp: kpool_def kpage_def)
  show "distinct ps" if "kpool s ps" using that by (simp add: kpool_def)
  show "kpage (kend s) p = kpage (kend s') p" if "krest s = krest s'"
    using that by (simp add: krest_def)
qed (rule kfree_pool)

section \<open>Filling the pool at boot\<close>

lemma unat_PHYSTOP: "unat PHYSTOP = 2281701376"
  by (simp add: layout_nums)

lemma freerange_loop_pool:
  assumes "kpool s ps" and "aligned p" and "kend s \<le> p" and "unat p + 4096 * k = unat PHYSTOP"
    and "\<And>q. q \<in> set ps \<longleftrightarrow> kpage (kend s) q \<and> q < p"
  shows "\<exists>s' qs. freerange_loop p PHYSTOP s = Inr ((), s') \<and> kpool s' qs \<and> krest s' = krest s \<and>
    (\<forall>q. q \<in> set qs \<longleftrightarrow> kpage (kend s) q) \<and> (\<forall>x. x < p \<longrightarrow> mem s' x = mem s x)"
  using assms
proof (induction k arbitrary: p s ps)
  case 0
  then have "p = PHYSTOP" by (simp add: word_unat_eq_iff)
  moreover have "freerange_loop PHYSTOP PHYSTOP s = Inr ((), s)"
    by (subst freerange_loop.simps) (simp add: layout_nums)
  ultimately show ?case using 0 by (auto simp: kpage_def)
next
  case (Suc k)
  have next_p: "unat (p + PGSZ) = unat p + 4096"
    using Suc.prems(4) by (simp add: unat_word_ariths unat_PHYSTOP)
  have pa: "kpage (kend s) p"
    using Suc.prems by (simp add: kpage_def word_less_nat_alt)
  have new: "p \<notin> set ps" using Suc.prems(5) by auto
  from kfree_pool [OF Suc.prems(1) pa new] obtain s1 where s1: "kfree p s = Inr ((), s1)" "kpool s1 (p # ps)"
    "krest s1 = krest s" "\<forall>x. 4096 \<le> unat (x - p) \<longrightarrow> mem s1 x = mem s x" by blast
  have e: "kend s1 = kend s" using s1(3) by (simp add: krest_def)
  have al: "aligned (p + PGSZ)" using Suc.prems(2) next_p by (simp add: aligned_unat)
  have mem1: "q \<in> set (p # ps) \<longleftrightarrow> kpage (kend s1) q \<and> q < p + PGSZ" for q
  proof -
    have "q < p \<or> q = p \<longleftrightarrow> q < p + PGSZ" if q: "aligned q"
    proof -
      obtain a b where "unat q = 4096 * a" "unat p = 4096 * b"
        using q Suc.prems(2) by (auto simp: aligned_unat mod_eq_0_iff_dvd elim!: dvdE)
      then show ?thesis by (auto simp: word_less_nat_alt next_p word_unat_eq_iff)
    qed
    then show ?thesis using Suc.prems(5) pa by (auto simp: e kpage_def)
  qed
  have "\<exists>s' qs. freerange_loop (p + PGSZ) PHYSTOP s1 = Inr ((), s') \<and> kpool s' qs \<and> krest s' = krest s1 \<and>
      (\<forall>q. q \<in> set qs \<longleftrightarrow> kpage (kend s1) q) \<and> (\<forall>x. x < p + PGSZ \<longrightarrow> mem s' x = mem s1 x)"
    using Suc.prems(3,4) next_p by (intro Suc.IH [OF s1(2) al _ _ mem1]) (simp_all add: e word_le_nat_alt)
  moreover have "x < p + PGSZ \<and> mem s1 x = mem s x" if "x < p" for x
  proof -
    have "4096 \<le> unat (x - p)" using that Suc.prems(4) unat_PHYSTOP by (auto simp: unat_sub_if' word_less_nat_alt)
    with s1(4) that show ?thesis by (simp add: word_less_nat_alt next_p)
  qed
  moreover have "p + PGSZ \<le> PHYSTOP"
    using Suc.prems(4) by (simp add: word_le_nat_alt next_p)
  ultimately show ?case
    using s1 by (subst freerange_loop.simps) (auto simp: e)
qed

section \<open>Properties\<close>


definition demo_kst :: "mem \<Rightarrow> u64 \<Rightarrow> u64 \<Rightarrow> kst" where
  "demo_kst m fl e = \<lparr>cur_hart = 0, harts = harts demo_sys, cpus = cpus demo_sys, locks = locks demo_sys,
     mem = m, kfreelist = fl, kend = e\<rparr>"

lemma demo_kst_simps [simp]:
  "mem (demo_kst m fl e) = m" "kfreelist (demo_kst m fl e) = fl" "kend (demo_kst m fl e) = e"
  "can_lock lk (demo_kst m fl e)" "hart_ok (demo_kst m fl e)"
  by (simp_all add: demo_kst_def can_lock_def hart_ok_def lock_free_def)

lemma demo_kst_pool: "kpool (demo_kst (\<lambda>_. 0) 0x80030000 0x80020000) [0x80030000]"
proof -
  have "ld64 (\<lambda>_. 0) 0x80030000 = 0" by code_simp
  then show ?thesis by (simp add: kpool_def kpage_def aligned_def layout_nums)
qed


text \<open>
  (C20) \<open>kinit\<close> puts every whole page between the end of the kernel and \<open>PHYSTOP\<close>, and
  nothing else, on the free list, exactly once, and leaves the memory of the kernel image
  below them alone.
\<close>

theorem kinit_fills_pool:
  assumes "hart_ok s" and "kfreelist s = 0" and "0 < kend s" and "kend s \<le> PHYSTOP"
  shows "\<exists>s' ps. kinit s = Inr ((), s') \<and> kpool s' ps \<and> distinct ps \<and>
    set ps = {p. kpage (kend s) p} \<and> (\<forall>x < kend s. mem s' x = mem s x)"
proof -
  define s0 where "s0 = initlock KmemLock ''kmem'' s"
  define p where "p = PGROUNDUP (kend s)"
  have s0: "kend s0 = kend s" "mem s0 = mem s" "kfreelist s0 = 0"
    using assms(2) by (simp_all add: s0_def initlock_def upd_lock_def)
  have "can_lock KmemLock s0"
    using assms(1) by (simp add: can_lock_def lock_free_def hart_ok_def s0_def initlock_def)
  then have pool: "kpool s0 []" using s0 assms(3) by (simp add: kpool_def)
  have up: "unat p = (unat (kend s) + 4095) div 4096 * 4096"
    using assms(4) unat_PHYSTOP unat_PGROUNDUP [of "kend s"] by (simp add: p_def word_le_nat_alt)
  have le: "kend s \<le> p" "unat p \<le> unat PHYSTOP"
    using up assms(4) unat_PHYSTOP by (auto simp: word_le_nat_alt)
  obtain k where k: "unat p + 4096 * k = unat PHYSTOP"
  proof (rule that)
    show "unat p + 4096 * ((unat PHYSTOP - unat p) div 4096) = unat PHYSTOP"
      using le(2) by (simp add: up unat_PHYSTOP)
  qed
  have none: "q \<in> set [] \<longleftrightarrow> kpage (kend s0) q \<and> q < p" for q
  proof -
    have "\<not> q < p" if "aligned q" "kend s \<le> q"
      using that by (auto simp: aligned_unat word_less_nat_alt word_le_nat_alt up)
    then show ?thesis by (auto simp: kpage_def s0)
  qed
  from freerange_loop_pool [OF pool _ _ k none] le(1) obtain s' ps where
    "freerange_loop p PHYSTOP s0 = Inr ((), s')" "kpool s' ps"
    "\<forall>q. q \<in> set ps \<longleftrightarrow> kpage (kend s) q" "\<forall>x. x < p \<longrightarrow> mem s' x = mem s x"
    by (auto simp: s0 p_def)
  moreover from this have "distinct ps" by (simp add: kpool_def)
  ultimately show ?thesis
    using le(1) s0(1) by (auto simp: kinit_def freerange_def s0_def [symmetric] p_def Let_def)
qed

theorem kinit_fills_pool_witness:
  "\<exists>s' ps. kinit (demo_kst (\<lambda>_. 0) 0 0x87FFD123) = Inr ((), s') \<and> kpool s' ps \<and>
     set ps = {p. kpage 0x87FFD123 p} \<and> 0x87FFE000 \<in> set ps"
proof -
  have "kpage 0x87FFD123 0x87FFE000" by (simp add: kpage_def aligned_def layout_nums)
  moreover have "\<exists>s' ps. kinit (demo_kst (\<lambda>_. 0) 0 0x87FFD123) = Inr ((), s') \<and> kpool s' ps \<and> distinct ps \<and>
      set ps = {p. kpage 0x87FFD123 p} \<and> (\<forall>x < 0x87FFD123. mem s' x = 0)"
    using kinit_fills_pool [of "demo_kst (\<lambda>_. 0) 0 0x87FFD123"] by (simp add: layout_nums)
  ultimately show ?thesis by blast
qed

end
