(* ===== verification/Vm.thy ===== *)
theory Vm
  imports Kalloc
begin

text \<open>
  Page tables: \<open>kernel/vm.c\<close>, and \<open>proc_mapstacks\<close> of \<open>kernel/proc.c\<close>.  A page-table
  page is 512 words in physical memory, reached through \<open>ld64\<close> and \<open>st64\<close>.  The linker
  symbols \<open>etext\<close> and \<open>trampoline\<close> and the global \<open>kernel_pagetable\<close> are fields of
  the state.  Loops that stop because \<open>walk\<close> refuses addresses from \<open>MAXVA\<close> on carry
  that argument as their termination proof; \<open>freewalk\<close> follows pointers in memory and takes
  the depth it may descend as fuel.
\<close>

record vmst = kst +
  kernel_pagetable :: u64
  sym_etext :: u64
  sym_trampoline :: u64

section \<open>Walking and mapping\<close>

definition pte_slot :: "u64 \<Rightarrow> nat \<Rightarrow> u64 \<Rightarrow> u64" where
  "pte_slot pagetable level va = pagetable + 8 * PX level va"

primrec walk_loop :: "nat \<Rightarrow> u64 \<Rightarrow> u64 \<Rightarrow> bool \<Rightarrow> 'a kst_scheme \<Rightarrow> (u64 \<times> 'a kst_scheme) res" where
  "walk_loop 0 pagetable va alloc s = Inr (pte_slot pagetable 0 va, s)"
| "walk_loop (Suc l) pagetable va alloc s =
     (let pte = pte_slot pagetable (Suc l) va; e = ld64 (mem s) pte in
      if e AND PTE_V \<noteq> 0 then walk_loop l (PTE2PA e) va alloc s
      else if \<not> alloc then Inr (0, s)
      else bindR (kalloc s) (\<lambda>(pagetable, s).
        if pagetable = 0 then Inr (0, s)
        else let s = s\<lparr>mem := memset pagetable 0 (of_nat PGSIZE) (mem s)\<rparr>;
                 s = s\<lparr>mem := st64 (mem s) pte (PA2PTE pagetable OR PTE_V)\<rparr>
             in walk_loop l pagetable va alloc s))"

definition walk :: "u64 \<Rightarrow> u64 \<Rightarrow> bool \<Rightarrow> 'a kst_scheme \<Rightarrow> (u64 \<times> 'a kst_scheme) res" where
  "walk pagetable va alloc s =
     (if va \<ge> MAXVA then panic ''walk'' else walk_loop 2 pagetable va alloc s)"

definition walkaddr :: "u64 \<Rightarrow> u64 \<Rightarrow> 'a kst_scheme \<Rightarrow> (u64 \<times> 'a kst_scheme) res" where
  "walkaddr pagetable va s =
     (if va \<ge> MAXVA then Inr (0, s)
      else bindR (walk pagetable va False s) (\<lambda>(pte, s).
        if pte = 0 then Inr (0, s)
        else if ld64 (mem s) pte AND PTE_V = 0 then Inr (0, s)
        else if ld64 (mem s) pte AND PTE_U = 0 then Inr (0, s)
        else Inr (PTE2PA (ld64 (mem s) pte), s)))"

lemma walk_InrD: "walk pt a al s = Inr r \<Longrightarrow> unat a < unat MAXVA"
  by (auto simp: walk_def word_le_nat_alt not_le split: if_splits)

lemma next_page_less:
  assumes "unat a < unat MAXVA"
  shows "unat MAXVA - unat (a + PGSZ) < unat MAXVA - unat a"
proof -
  have "unat (a + PGSZ) = unat a + 4096"
    using assms by (simp add: unat_word_ariths layout_nums)
  with assms show ?thesis by simp
qed

function mappages_loop :: "u64 \<Rightarrow> u64 \<Rightarrow> u64 \<Rightarrow> u64 \<Rightarrow> u64 \<Rightarrow> 'a kst_scheme \<Rightarrow> (int \<times> 'a kst_scheme) res" where
  "mappages_loop pagetable a last_a pa perm s =
     bindR (walk pagetable a True s) (\<lambda>(pte, s).
       if pte = 0 then Inr (- 1, s)
       else if ld64 (mem s) pte AND PTE_V \<noteq> 0 then panic ''mappages: remap''
       else let s = s\<lparr>mem := st64 (mem s) pte (PA2PTE pa OR perm OR PTE_V)\<rparr> in
         if a = last_a then Inr (0, s)
         else mappages_loop pagetable (a + PGSZ) last_a (pa + PGSZ) perm s)"
  by pat_completeness auto

termination
  by (relation "measure (\<lambda>(_, a, _, _, _, _). unat MAXVA - unat a)") (auto simp only: wf_measure in_measure split dest: walk_InrD intro!: next_page_less)

definition mappages :: "u64 \<Rightarrow> u64 \<Rightarrow> u64 \<Rightarrow> u64 \<Rightarrow> u64 \<Rightarrow> 'a kst_scheme \<Rightarrow> (int \<times> 'a kst_scheme) res" where
  "mappages pagetable va sz pa perm s =
     (if sz = 0 then panic ''mappages: size''
      else mappages_loop pagetable (PGROUNDDOWN va) (PGROUNDDOWN (va + sz - 1)) pa perm s)"

definition kvmmap :: "u64 \<Rightarrow> u64 \<Rightarrow> u64 \<Rightarrow> u64 \<Rightarrow> u64 \<Rightarrow> 'a kst_scheme \<Rightarrow> (unit \<times> 'a kst_scheme) res" where
  "kvmmap kpgtbl va pa sz perm s =
     bindR (mappages kpgtbl va sz pa perm s) (\<lambda>(r, s).
       if r \<noteq> 0 then panic ''kvmmap'' else Inr ((), s))"

section \<open>User address spaces\<close>

function uvmunmap_loop :: "u64 \<Rightarrow> u64 \<Rightarrow> u64 \<Rightarrow> bool \<Rightarrow> 'a kst_scheme \<Rightarrow> (unit \<times> 'a kst_scheme) res" where
  "uvmunmap_loop pagetable a e do_free s =
     (if \<not> a < e then Inr ((), s)
      else bindR (walk pagetable a False s) (\<lambda>(pte, s).
        if pte = 0 then panic ''uvmunmap: walk''
        else if ld64 (mem s) pte AND PTE_V = 0 then panic ''uvmunmap: not mapped''
        else if PTE_FLAGS (ld64 (mem s) pte) = PTE_V then panic ''uvmunmap: not a leaf''
        else bindR (if do_free then kfree (PTE2PA (ld64 (mem s) pte)) s else Inr ((), s)) (\<lambda>(_, s).
          let s = s\<lparr>mem := st64 (mem s) pte 0\<rparr> in
          uvmunmap_loop pagetable (a + PGSZ) e do_free s)))"
  by pat_completeness auto

termination
  by (relation "measure (\<lambda>(_, a, _, _, _). unat MAXVA - unat a)") (auto simp only: wf_measure in_measure split dest: walk_InrD intro!: next_page_less)

definition uvmunmap :: "u64 \<Rightarrow> u64 \<Rightarrow> u64 \<Rightarrow> bool \<Rightarrow> 'a kst_scheme \<Rightarrow> (unit \<times> 'a kst_scheme) res" where
  "uvmunmap pagetable va npages do_free s =
     (if va mod PGSZ \<noteq> 0 then panic ''uvmunmap: not aligned''
      else uvmunmap_loop pagetable va (va + npages * PGSZ) do_free s)"

definition uvmcreate :: "'a kst_scheme \<Rightarrow> (u64 \<times> 'a kst_scheme) res" where
  "uvmcreate s =
     bindR (kalloc s) (\<lambda>(pagetable, s).
       if pagetable = 0 then Inr (0, s)
       else Inr (pagetable, s\<lparr>mem := memset pagetable 0 (of_nat PGSIZE) (mem s)\<rparr>))"

definition uvmfirst :: "u64 \<Rightarrow> u64 \<Rightarrow> u32 \<Rightarrow> 'a kst_scheme \<Rightarrow> (unit \<times> 'a kst_scheme) res" where
  "uvmfirst pagetable src sz s =
     (if sz \<ge> of_nat PGSIZE then panic ''uvmfirst: more than a page''
      else bindR (kalloc s) (\<lambda>(pg, s).
        let s = s\<lparr>mem := memset pg 0 (of_nat PGSIZE) (mem s)\<rparr> in
        bindR (mappages pagetable 0 PGSZ pg (PTE_W OR PTE_R OR PTE_X OR PTE_U) s) (\<lambda>(_, s).
        Inr ((), s\<lparr>mem := memmove pg src sz (mem s)\<rparr>))))"

definition uvmdealloc :: "u64 \<Rightarrow> u64 \<Rightarrow> u64 \<Rightarrow> 'a kst_scheme \<Rightarrow> (u64 \<times> 'a kst_scheme) res" where
  "uvmdealloc pagetable oldsz newsz s =
     (if newsz \<ge> oldsz then Inr (oldsz, s)
      else if PGROUNDUP newsz < PGROUNDUP oldsz
      then let npages = (ucast ((PGROUNDUP oldsz - PGROUNDUP newsz) div PGSZ) :: u32) in
        bindR (uvmunmap pagetable (PGROUNDUP newsz) (scast npages) True s) (\<lambda>(_, s). Inr (newsz, s))
      else Inr (newsz, s))"

lemma mappages_InrD: "mappages pt a sz pa perm s = Inr r \<Longrightarrow> unat a < unat MAXVA"
proof -
  assume "mappages pt a sz pa perm s = Inr r"
  then obtain x where "walk pt (PGROUNDDOWN a) True s = Inr x"
    by (auto simp: mappages_def mappages_loop.simps [of _ "PGROUNDDOWN a"] split: if_splits)
  then have "unat (PGROUNDDOWN a) < unat MAXVA" by (rule walk_InrD)
  then show ?thesis by (simp add: unat_PGROUNDDOWN layout_nums)
qed

function uvmalloc_loop :: "u64 \<Rightarrow> u64 \<Rightarrow> u64 \<Rightarrow> u64 \<Rightarrow> u64 \<Rightarrow> 'a kst_scheme \<Rightarrow> (u64 \<times> 'a kst_scheme) res" where
  "uvmalloc_loop pagetable oldsz a newsz xperm s =
     (if \<not> a < newsz then Inr (newsz, s)
      else bindR (kalloc s) (\<lambda>(pg, s).
        if pg = 0 then bindR (uvmdealloc pagetable a oldsz s) (\<lambda>(_, s). Inr (0, s))
        else let s = s\<lparr>mem := memset pg 0 (of_nat PGSIZE) (mem s)\<rparr> in
          bindR (mappages pagetable a PGSZ pg (PTE_R OR PTE_U OR xperm) s) (\<lambda>(r, s).
            if r \<noteq> 0 then
              bindR (kfree pg s) (\<lambda>(_, s).
              bindR (uvmdealloc pagetable a oldsz s) (\<lambda>(_, s). Inr (0, s)))
            else uvmalloc_loop pagetable oldsz (a + PGSZ) newsz xperm s)))"
  by pat_completeness auto

termination
  by (relation "measure (\<lambda>(_, _, a, _, _, _). unat MAXVA - unat a)") (auto simp only: wf_measure in_measure split dest: mappages_InrD intro!: next_page_less)

definition uvmalloc :: "u64 \<Rightarrow> u64 \<Rightarrow> u64 \<Rightarrow> u64 \<Rightarrow> 'a kst_scheme \<Rightarrow> (u64 \<times> 'a kst_scheme) res" where
  "uvmalloc pagetable oldsz newsz xperm s =
     (if newsz < oldsz then Inr (oldsz, s)
      else let oldsz = PGROUNDUP oldsz in uvmalloc_loop pagetable oldsz oldsz newsz xperm s)"

primrec freewalk :: "nat \<Rightarrow> u64 \<Rightarrow> 'a kst_scheme \<Rightarrow> (unit \<times> 'a kst_scheme) res" where
  "freewalk 0 pagetable s = Inl Stuck"
| "freewalk (Suc d) pagetable s =
     bindR (forR (\<lambda>i s.
         let pte = ld64 (mem s) (pagetable + 8 * of_nat i) in
         if pte AND PTE_V \<noteq> 0 \<and> pte AND (PTE_R OR PTE_W OR PTE_X) = 0 then
           bindR (freewalk d (PTE2PA pte) s) (\<lambda>(_, s).
             Inr ((), s\<lparr>mem := st64 (mem s) (pagetable + 8 * of_nat i) 0\<rparr>))
         else if pte AND PTE_V \<noteq> 0 then panic ''freewalk: leaf''
         else Inr ((), s)) [0..<512] s)
       (\<lambda>(_, s). kfree pagetable s)"

text \<open>Sv39 tables are three levels deep.\<close>

definition uvmfree :: "u64 \<Rightarrow> u64 \<Rightarrow> 'a kst_scheme \<Rightarrow> (unit \<times> 'a kst_scheme) res" where
  "uvmfree pagetable sz s =
     bindR (if sz > 0 then uvmunmap pagetable 0 (PGROUNDUP sz div PGSZ) True s else Inr ((), s))
       (\<lambda>(_, s). freewalk 3 pagetable s)"

function uvmcopy_loop :: "u64 \<Rightarrow> u64 \<Rightarrow> u64 \<Rightarrow> u64 \<Rightarrow> 'a kst_scheme \<Rightarrow> (int \<times> 'a kst_scheme) res" where
  "uvmcopy_loop old new i sz s =
     (if \<not> i < sz then Inr (0, s)
      else bindR (walk old i False s) (\<lambda>(pte, s).
        if pte = 0 then panic ''uvmcopy: pte should exist''
        else if ld64 (mem s) pte AND PTE_V = 0 then panic ''uvmcopy: page not present''
        else let pa = PTE2PA (ld64 (mem s) pte); flags = PTE_FLAGS (ld64 (mem s) pte) in
          bindR (kalloc s) (\<lambda>(pg, s).
            if pg = 0 then bindR (uvmunmap new 0 (i div PGSZ) True s) (\<lambda>(_, s). Inr (- 1, s))
            else let s = s\<lparr>mem := memmove pg pa (of_nat PGSIZE) (mem s)\<rparr> in
              bindR (mappages new i PGSZ pg flags s) (\<lambda>(r, s).
                if r \<noteq> 0 then
                  bindR (kfree pg s) (\<lambda>(_, s).
                  bindR (uvmunmap new 0 (i div PGSZ) True s) (\<lambda>(_, s). Inr (- 1, s)))
                else uvmcopy_loop old new (i + PGSZ) sz s))))"
  by pat_completeness auto

termination
  by (relation "measure (\<lambda>(_, _, a, _, _). unat MAXVA - unat a)") (auto simp only: wf_measure in_measure split dest: mappages_InrD intro!: next_page_less)

definition uvmcopy :: "u64 \<Rightarrow> u64 \<Rightarrow> u64 \<Rightarrow> 'a kst_scheme \<Rightarrow> (int \<times> 'a kst_scheme) res" where
  "uvmcopy old new sz s = uvmcopy_loop old new 0 sz s"

definition uvmclear :: "u64 \<Rightarrow> u64 \<Rightarrow> 'a kst_scheme \<Rightarrow> (unit \<times> 'a kst_scheme) res" where
  "uvmclear pagetable va s =
     bindR (walk pagetable va False s) (\<lambda>(pte, s).
       if pte = 0 then panic ''uvmclear''
       else Inr ((), s\<lparr>mem := st64 (mem s) pte (ld64 (mem s) pte AND NOT PTE_U)\<rparr>))"

section \<open>Copying between kernel and user memory\<close>

definition chunk :: "u64 \<Rightarrow> u64 \<Rightarrow> u64" where
  "chunk va len = (let va0 = PGROUNDDOWN va; n = PGSZ - (va - va0) in if n > len then len else n)"

lemma chunk_bounds:
  assumes "0 < len"
  shows "0 < unat (chunk va len)" "unat (chunk va len) \<le> unat len"
    "unat (va - PGROUNDDOWN va) + unat (chunk va len) \<le> 4096"
    "unat (va - PGROUNDDOWN va) = unat va mod 4096"
    "chunk va len \<noteq> len \<Longrightarrow> unat (va - PGROUNDDOWN va) + unat (chunk va len) = 4096"
proof -
  have off: "unat (va - PGROUNDDOWN va) = unat va mod 4096"
    by (simp add: unat_sub_if' unat_PGROUNDDOWN minus_div_mult_eq_mod)
  have "unat (PGSZ - (va - PGROUNDDOWN va)) = 4096 - unat va mod 4096"
    using off by (simp add: unat_sub_if')
  then show "0 < unat (chunk va len)" "unat (chunk va len) \<le> unat len"
    "unat (va - PGROUNDDOWN va) + unat (chunk va len) \<le> 4096"
    "chunk va len \<noteq> len \<Longrightarrow> unat (va - PGROUNDDOWN va) + unat (chunk va len) = 4096"
    using assms by (auto simp: chunk_def Let_def off word_less_nat_alt)
  show "unat (va - PGROUNDDOWN va) = unat va mod 4096" by (rule off)
qed

lemma chunk_less: "0 < len \<Longrightarrow> unat (len - chunk va len) < unat len"
  using chunk_bounds [of len va] by (simp add: unat_sub_if')

function copyout :: "u64 \<Rightarrow> u64 \<Rightarrow> u64 \<Rightarrow> u64 \<Rightarrow> 'a kst_scheme \<Rightarrow> (int \<times> 'a kst_scheme) res" where
  "copyout pagetable dstva src len s =
     (if \<not> 0 < len then Inr (0, s)
      else let va0 = PGROUNDDOWN dstva in
        bindR (walkaddr pagetable va0 s) (\<lambda>(pa0, s).
          if pa0 = 0 then Inr (- 1, s)
          else let n = chunk dstva len;
                   s = s\<lparr>mem := memmove (pa0 + (dstva - va0)) src (ucast n) (mem s)\<rparr> in
            copyout pagetable (va0 + PGSZ) (src + n) (len - n) s))"
  by pat_completeness auto

termination
  by (relation "measure (\<lambda>(_, _, _, len, _). unat len)") (auto simp only: wf_measure in_measure split intro!: chunk_less)

function copyin :: "u64 \<Rightarrow> u64 \<Rightarrow> u64 \<Rightarrow> u64 \<Rightarrow> 'a kst_scheme \<Rightarrow> (int \<times> 'a kst_scheme) res" where
  "copyin pagetable dst srcva len s =
     (if \<not> 0 < len then Inr (0, s)
      else let va0 = PGROUNDDOWN srcva in
        bindR (walkaddr pagetable va0 s) (\<lambda>(pa0, s).
          if pa0 = 0 then Inr (- 1, s)
          else let n = chunk srcva len;
                   s = s\<lparr>mem := memmove dst (pa0 + (srcva - va0)) (ucast n) (mem s)\<rparr> in
            copyin pagetable (dst + n) (va0 + PGSZ) (len - n) s))"
  by pat_completeness auto

termination
  by (relation "measure (\<lambda>(_, _, _, len, _). unat len)") (auto simp only: wf_measure in_measure split intro!: chunk_less)

primrec copyinstr_page :: "nat \<Rightarrow> u64 \<Rightarrow> u64 \<Rightarrow> u64 \<Rightarrow> mem \<Rightarrow> bool \<times> u64 \<times> u64 \<times> mem" where
  "copyinstr_page 0 p dst mx m = (False, dst, mx, m)"
| "copyinstr_page (Suc n) p dst mx m =
     (if m p = 0 then (True, dst, mx, m(dst := 0))
      else copyinstr_page n (p + 1) (dst + 1) (mx - 1) (m(dst := m p)))"

lemma copyinstr_page_max:
  "copyinstr_page n p dst mx m = (False, dst', mx', m') \<Longrightarrow> n \<le> unat mx \<Longrightarrow> unat mx' = unat mx - n"
proof (induction n arbitrary: p dst mx m)
  case (Suc n)
  have "mx \<noteq> 0" using Suc.prems(2) by auto
  then have "unat (mx - 1) = unat mx - 1" by (rule u64_pred_unat)
  with Suc show ?case by (auto split: if_splits)
qed simp

function copyinstr :: "u64 \<Rightarrow> u64 \<Rightarrow> u64 \<Rightarrow> u64 \<Rightarrow> 'a kst_scheme \<Rightarrow> (int \<times> 'a kst_scheme) res" where
  "copyinstr pagetable dst srcva mx s =
     (if \<not> 0 < mx then Inr (- 1, s)
      else let va0 = PGROUNDDOWN srcva in
        bindR (walkaddr pagetable va0 s) (\<lambda>(pa0, s).
          if pa0 = 0 then Inr (- 1, s)
          else case copyinstr_page (unat (chunk srcva mx)) (pa0 + (srcva - va0)) dst mx (mem s) of
            (got_null, dst, mx, m) \<Rightarrow>
              let s = s\<lparr>mem := m\<rparr> in
              if got_null then Inr (0, s) else copyinstr pagetable dst (va0 + PGSZ) mx s))"
  by pat_completeness auto

termination
proof (relation "measure (\<lambda>(_, _, _, mx, _). unat mx)")
  fix pt dst srcva mx dst' mx' pa0 va0 m m' and s s' :: "'a kst_scheme" and b and x :: "u64 \<times> 'a kst_scheme" and y z
  assume "\<not> \<not> 0 < mx" "(b, y) = copyinstr_page (unat (chunk srcva mx)) (pa0 + (srcva - va0)) dst mx m"
    "(dst', z) = y" "(mx', m') = z" "\<not> b"
  then have "copyinstr_page (unat (chunk srcva mx)) (pa0 + (srcva - va0)) dst mx m = (False, dst', mx', m')"
    by auto
  from copyinstr_page_max [OF this] chunk_bounds(2) [of mx srcva] \<open>\<not> \<not> 0 < mx\<close>
  have "unat mx' = unat mx - unat (chunk srcva mx)" by simp
  with \<open>\<not> \<not> 0 < mx\<close> chunk_bounds(1,2) [of mx srcva]
  show "((pt, dst', va0 + PGSZ, mx', s'), pt, dst, srcva, mx, s) \<in> measure (\<lambda>(_, _, _, mx, _). unat mx)"
    by simp
qed auto

section \<open>The kernel's own page table\<close>

definition proc_mapstacks :: "u64 \<Rightarrow> 'a kst_scheme \<Rightarrow> (unit \<times> 'a kst_scheme) res" where
  "proc_mapstacks kpgtbl s =
     forR (\<lambda>p s. bindR (kalloc s) (\<lambda>(pa, s).
       if pa = 0 then panic ''kalloc''
       else kvmmap kpgtbl (KSTACK (of_nat p)) pa PGSZ (PTE_R OR PTE_W) s)) [0..<NPROC] s"

definition kvmmake :: "'a vmst_scheme \<Rightarrow> (u64 \<times> 'a vmst_scheme) res" where
  "kvmmake s =
     bindR (kalloc s) (\<lambda>(kpgtbl, s).
     let s = s\<lparr>mem := memset kpgtbl 0 (of_nat PGSIZE) (mem s)\<rparr> in
     bindR (kvmmap kpgtbl UART0 UART0 PGSZ (PTE_R OR PTE_W) s) (\<lambda>(_, s).
     bindR (kvmmap kpgtbl VIRTIO0 VIRTIO0 PGSZ (PTE_R OR PTE_W) s) (\<lambda>(_, s).
     bindR (kvmmap kpgtbl PLIC PLIC 0x400000 (PTE_R OR PTE_W) s) (\<lambda>(_, s).
     bindR (kvmmap kpgtbl KERNBASE KERNBASE (sym_etext s - KERNBASE) (PTE_R OR PTE_X) s) (\<lambda>(_, s).
     bindR (kvmmap kpgtbl (sym_etext s) (sym_etext s) (PHYSTOP - sym_etext s) (PTE_R OR PTE_W) s) (\<lambda>(_, s).
     bindR (kvmmap kpgtbl TRAMPOLINE (sym_trampoline s) PGSZ (PTE_R OR PTE_X) s) (\<lambda>(_, s).
     bindR (proc_mapstacks kpgtbl s) (\<lambda>(_, s).
     Inr (kpgtbl, s)))))))))"

definition kvminit :: "'a vmst_scheme \<Rightarrow> (unit \<times> 'a vmst_scheme) res" where
  "kvminit s = bindR (kvmmake s) (\<lambda>(pt, s). Inr ((), s\<lparr>kernel_pagetable := pt\<rparr>))"

definition kvminithart :: "'a vmst_scheme \<Rightarrow> 'a vmst_scheme" where
  "kvminithart s =
     (let s = upd_hart sfence_vma s;
          s = upd_hart (w_satp (MAKE_SATP (kernel_pagetable s))) s
      in upd_hart sfence_vma s)"

declare mappages_loop.simps [simp del] uvmunmap_loop.simps [simp del] uvmalloc_loop.simps [simp del]
  uvmcopy_loop.simps [simp del] copyout.simps [simp del] copyin.simps [simp del] copyinstr.simps [simp del]

end
