(* ===== verification/Pagetable.thy ===== *)
theory Pagetable
  imports Vm "HOL-Library.Sublist"
begin

text \<open>
  What a three-level page table means.  \<open>tbl\<close> follows a path of indices to a page-table
  page and \<open>leaf\<close> reads the entry at the end of a path of three; a table is well formed
  when no page is reached by two paths, so that it is a tree.  The lemmas show that \<open>walk\<close>
  without allocation computes \<open>leaf\<close>, that \<open>walk\<close> with allocation never changes a leaf,
  and that \<open>mappages\<close> changes exactly the leaves of its range.
\<close>

section \<open>Trees of tables\<close>

definition ent :: "mem \<Rightarrow> u64 \<Rightarrow> nat \<Rightarrow> u64" where
  "ent m t i = ld64 m (t + 8 * of_nat i)"

fun tbl :: "(u64 \<Rightarrow> nat \<Rightarrow> u64) \<Rightarrow> u64 \<Rightarrow> nat list \<Rightarrow> u64 option" where
  "tbl E pt [] = Some pt"
| "tbl E pt (i # is) = (if E pt i AND PTE_V = 0 then None else tbl E (PTE2PA (E pt i)) is)"

definition leaf :: "(u64 \<Rightarrow> nat \<Rightarrow> u64) \<Rightarrow> u64 \<Rightarrow> nat list \<Rightarrow> u64" where
  "leaf E pt is = (case tbl E pt (butlast is) of None \<Rightarrow> 0 | Some t \<Rightarrow> E t (last is))"

definition paths :: "nat list set" where
  "paths = {is. length is \<le> 2 \<and> (\<forall>i\<in>set is. i < 512)}"

definition lpaths :: "nat list set" where
  "lpaths = {is. length is = 3 \<and> (\<forall>i\<in>set is. i < 512)}"

definition tables :: "(u64 \<Rightarrow> nat \<Rightarrow> u64) \<Rightarrow> u64 \<Rightarrow> u64 set" where
  "tables E pt = {t. \<exists>is\<in>paths. tbl E pt is = Some t}"

definition ptree :: "(u64 \<Rightarrow> nat \<Rightarrow> u64) \<Rightarrow> u64 \<Rightarrow> bool" where
  "ptree E pt \<longleftrightarrow> (\<forall>is\<in>paths. \<forall>js\<in>paths. \<forall>t. tbl E pt is = Some t \<and> tbl E pt js = Some t \<longrightarrow> is = js)"

lemma tbl_append: "tbl E pt (is @ js) = (case tbl E pt is of None \<Rightarrow> None | Some t \<Rightarrow> tbl E t js)"
  by (induction E pt "is" rule: tbl.induct) auto

lemma tbl_snoc: "tbl E pt (is @ [i]) =
    (case tbl E pt is of None \<Rightarrow> None | Some t \<Rightarrow> if E t i AND PTE_V = 0 then None else Some (PTE2PA (E t i)))"
  by (auto simp: tbl_append split: option.splits)

lemma leaf_snoc: "leaf E pt (is @ [i]) = (case tbl E pt is of None \<Rightarrow> 0 | Some t \<Rightarrow> E t i)"
  by (simp add: leaf_def split: option.split)

lemma paths_snoc [simp]: "js @ [j] \<in> paths \<longleftrightarrow> length js \<le> 1 \<and> js \<in> paths \<and> j < 512"
  by (auto simp: paths_def)

lemma lpathsE:
  assumes "is \<in> lpaths"
  obtains js c where "is = js @ [c]" "js \<in> paths" "length js = 2" "c < 512"
  using assms by (cases "is" rule: rev_cases) (auto simp: lpaths_def paths_def)

lemma ptreeD: "ptree E pt \<Longrightarrow> is \<in> paths \<Longrightarrow> js \<in> paths \<Longrightarrow> tbl E pt is = Some t \<Longrightarrow> tbl E pt js = Some t \<Longrightarrow> is = js"
  by (auto simp: ptree_def)

lemma tablesI: "is \<in> paths \<Longrightarrow> tbl E pt is = Some t \<Longrightarrow> t \<in> tables E pt"
  by (auto simp: tables_def)

lemma tbl_upd_other:
  assumes tree: "ptree E pt" and ks: "ks \<in> paths" "tbl E pt ks = Some t"
    and agree: "\<And>u j. u \<in> tables E pt \<Longrightarrow> j < 512 \<Longrightarrow> (u, j) \<noteq> (t, i) \<Longrightarrow> E' u j = E u j"
    and js: "js \<in> paths" "\<not> prefix (ks @ [i]) js"
  shows "tbl E' pt js = tbl E pt js"
  using js
proof (induction js rule: rev_induct)
  case (snoc j js)
  have IH: "tbl E' pt js = tbl E pt js" using snoc by auto
  show ?case
  proof (cases "tbl E pt js")
    case (Some u)
    have "(u, j) \<noteq> (t, i)"
    proof
      assume "(u, j) = (t, i)"
      moreover from this ks snoc.prems(1) Some tree have "js = ks" by (auto dest: ptreeD)
      ultimately show False using snoc.prems(2) by simp
    qed
    with agree [of u j] tablesI [OF _ Some] snoc.prems(1) have "E' u j = E u j" by auto
    with IH Some show ?thesis by (simp add: tbl_snoc)
  qed (simp add: IH tbl_snoc)
qed simp

lemma leaf_write:
  assumes tree: "ptree E pt" and ks: "ks \<in> paths" "length ks = 2" "tbl E pt ks = Some t"
    and agree: "\<And>u j. u \<in> tables E pt \<Longrightarrow> j < 512 \<Longrightarrow> E' u j = (if u = t \<and> j = i then v else E u j)"
  shows "ptree E' pt" "tables E' pt = tables E pt" "\<And>js. js \<in> paths \<Longrightarrow> tbl E' pt js = tbl E pt js"
    "\<And>js. i < 512 \<Longrightarrow> js \<in> lpaths \<Longrightarrow> leaf E' pt js = (if js = ks @ [i] then v else leaf E pt js)"
proof -
  show same: "tbl E' pt js = tbl E pt js" if "js \<in> paths" for js
  proof (rule tbl_upd_other [OF tree ks(1,3) _ that])
    show "\<not> prefix (ks @ [i]) js"
      using prefix_length_le [of "ks @ [i]" js] that ks(2) by (auto simp: paths_def)
    show "E' u j = E u j" if "u \<in> tables E pt" "j < 512" "(u, j) \<noteq> (t, i)" for u j
      using agree [OF that(1,2)] that(3) by auto
  qed
  show "ptree E' pt" using tree same by (auto simp: ptree_def)
  show "tables E' pt = tables E pt" using same by (auto simp: tables_def)
  show "leaf E' pt js = (if js = ks @ [i] then v else leaf E pt js)" if i: "i < 512" and "js \<in> lpaths" for js
    using that(2)
  proof (rule lpathsE)
    fix qs c assume js: "js = qs @ [c]" "qs \<in> paths" "length qs = 2" "c < 512"
    show ?thesis
    proof (cases "tbl E pt qs")
      case None
      with js ks same show ?thesis by (auto simp: leaf_snoc)
    next
      case (Some u)
      have "u = t \<longleftrightarrow> qs = ks" using ptreeD [OF tree js(2) ks(1) Some] ks(3) Some by auto
      with agree [OF tablesI [OF js(2) Some] js(4)] Some js same [OF js(2)] show ?thesis
        by (auto simp: leaf_snoc)
    qed
  qed
qed

lemma new_table:
  assumes tree: "ptree E pt" and ks: "ks \<in> paths" "length ks \<le> 1" "tbl E pt ks = Some t" and i: "i < 512"
    and free: "E t i AND PTE_V = 0" and new: "t' \<notin> tables E pt"
    and v: "v AND PTE_V \<noteq> 0" "PTE2PA v = t'"
    and agree: "\<And>u j. u \<in> tables E pt \<Longrightarrow> j < 512 \<Longrightarrow> E' u j = (if u = t \<and> j = i then v else E u j)"
    and zero: "\<And>j. j < 512 \<Longrightarrow> E' t' j = 0"
  shows "ptree E' pt" "tables E' pt = insert t' (tables E pt)"
    "\<And>js. js \<in> lpaths \<Longrightarrow> leaf E' pt js = leaf E pt js"
    "tbl E' pt (ks @ [i]) = Some t'"
    "\<And>js u. js \<in> paths \<Longrightarrow> tbl E pt js = Some u \<Longrightarrow> tbl E' pt js = Some u"
proof -
  have same: "tbl E' pt js = tbl E pt js" if "js \<in> paths" "\<not> prefix (ks @ [i]) js" for js
  proof (rule tbl_upd_other [OF tree ks(1,3) _ that])
    show "E' u j = E u j" if "u \<in> tables E pt" "j < 512" "(u, j) \<noteq> (t, i)" for u j
      using agree [OF that(1,2)] that(3) by auto
  qed
  have none: "tbl E pt js = None" if "prefix (ks @ [i]) js" for js
    using that ks(3) free by (auto simp: prefix_def tbl_append)
  have t: "E' t i = v" "tbl E' pt ks = Some t"
    using agree [OF tablesI [OF ks(1,3)] i] same [OF ks(1)] ks(3) by (auto simp: prefix_def)
  show at: "tbl E' pt (ks @ [i]) = Some t'" using t v by (simp add: tbl_snoc)
  have below: "tbl E' pt js = (if js = ks @ [i] then Some t' else None)" if "js \<in> paths" "prefix (ks @ [i]) js" for js
  proof -
    from that(2) obtain zs where zs: "js = (ks @ [i]) @ zs" by (auto simp: prefix_def)
    show ?thesis
    proof (cases zs)
      case (Cons z zs')
      then have "z < 512" using that(1) zs by (auto simp: paths_def)
      with zs at zero Cons show ?thesis by (auto simp: tbl_append simp del: append_assoc)
    qed (use zs at in simp)
  qed
  have all: "tbl E' pt js = (if js = ks @ [i] then Some t' else tbl E pt js)" if "js \<in> paths" for js
    using same [OF that] below [OF that] none [of js] by (cases "prefix (ks @ [i]) js") auto
  have kp: "ks @ [i] \<in> paths" using ks i by simp
  have ne: "tbl E pt js \<noteq> Some t'" if "js \<in> paths" for js using new tablesI [OF that] by auto
  show "ptree E' pt"
    using tree ne by (auto simp: ptree_def all split: if_splits)
  show keep: "tbl E' pt js = Some u" if "js \<in> paths" "tbl E pt js = Some u" for js u
    using that all none [of "ks @ [i]"] by auto
  have "tables E pt \<subseteq> tables E' pt" "t' \<in> tables E' pt"
    using keep tablesI [OF kp at] by (auto simp: tables_def)
  then show "tables E' pt = insert t' (tables E pt)"
    by (auto simp: tables_def all split: if_splits)
  show "leaf E' pt js = leaf E pt js" if "js \<in> lpaths" for js
    using that
  proof (rule lpathsE)
    fix qs c assume js: "js = qs @ [c]" "qs \<in> paths" "length qs = 2" "c < 512"
    show ?thesis
    proof (cases "qs = ks @ [i]")
      case True
      then show ?thesis
        unfolding js(1) leaf_snoc using none [of qs] at zero [OF js(4)] by simp
    next
      case False
      have "E' u c = E u c" if "tbl E pt qs = Some u" for u
        using agree [OF tablesI [OF js(2) that] js(4)] ptreeD [OF tree js(2) ks(1) that] ks js(3) that by auto
      with False js show ?thesis by (auto simp: leaf_snoc all split: option.splits)
    qed
  qed
qed

section \<open>Entries in memory\<close>

definition vpath :: "u64 \<Rightarrow> nat list" where
  "vpath va = [unat (PX 2 va), unat (PX 1 va), unat (PX 0 va)]"

definition pte_of :: "mem \<Rightarrow> u64 \<Rightarrow> u64 \<Rightarrow> u64" where
  "pte_of m pt va = leaf (ent m) pt (vpath va)"

lemma unat_PX_less: "unat (PX l va) < 512"
  using PX_less by (simp add: word_less_nat_alt)

lemma vpath_in [simp]: "vpath va \<in> lpaths" "[unat (PX 2 va), unat (PX 1 va)] \<in> paths" "[unat (PX 2 va)] \<in> paths"
  by (simp_all add: vpath_def lpaths_def paths_def unat_PX_less)

lemma pte_slot_eq: "pte_slot t l va = t + 8 * of_nat (unat (PX l va))"
  by (simp add: pte_slot_def)

lemma ld64_pte_slot: "ld64 m (pte_slot t l va) = ent m t (unat (PX l va))"
  by (simp add: ent_def pte_slot_eq)

lemma unat_8i: "i < 512 \<Longrightarrow> unat (8 * of_nat i :: u64) = 8 * i"
  by (simp add: unat_word_ariths unsigned_of_nat take_bit_nat_eq_self)

lemma in_page_slot: "i < 512 \<Longrightarrow> in_page t (t + 8 * of_nat i) 8"
  by (simp add: in_page_def unat_8i)

lemma slots_apart:
  assumes "i < 512" and "j < 512" and "i \<noteq> j"
  shows "apart (t + 8 * of_nat i) 8 (t + 8 * of_nat j) 8"
  using assms unat_8i [OF assms(1)] unat_8i [OF assms(2)]
  by (auto simp: apart_def unat_sub_if')

lemma page_slot_apart:
  assumes "aligned t" and "aligned u" and "t \<noteq> u" and "j < 512" and "in_page t a k"
  shows "apart (u + 8 * of_nat j) 8 a k"
  using apart_sub [OF pages_apart [of u t] assms(5)] assms
    apart_sub [of a k u "u + 8 * of_nat j" 8] in_page_slot [OF assms(4)]
  by (simp add: apart_sym)

lemma ent_st64:
  assumes "aligned t" and "aligned u" and "i < 512" and "j < 512"
  shows "ent (st64 m (t + 8 * of_nat i) v) u j = (if u = t \<and> j = i then v else ent m u j)"
proof (cases "u = t")
  case True
  then show ?thesis using slots_apart [of j i u] assms by (auto simp: ent_def ld64_st64_apart)
next
  case False
  with page_slot_apart [OF assms(1,2) _ assms(4) in_page_slot [OF assms(3)]] show ?thesis
    by (auto simp: ent_def ld64_st64_apart)
qed

lemma ent_write_other:
  assumes "aligned t" and "aligned u" and "t \<noteq> u" and "j < 512" and "in_page t a (length bs)"
  shows "ent (mem_write m a bs) u j = ent m u j"
  using page_slot_apart [OF assms] by (simp add: ent_def ld64_write_apart)

lemma ent_zero_page:
  assumes "j < 512"
  shows "ent (mem_write m t (replicate 4096 0)) t j = 0"
proof -
  have "mem_read (mem_write m t (replicate 4096 0)) (t + 8 * of_nat j) 8 = replicate 8 0"
  proof (rule nth_equalityI)
    fix k assume "k < length (mem_read (mem_write m t (replicate 4096 0)) (t + 8 * of_nat j) 8)"
    then have k: "k < 8" by simp
    have "mem_write m t (replicate 4096 0) (t + 8 * of_nat j + of_nat k) = 0"
      using mem_write_at [of "8 * j + k" "replicate 4096 (0 :: u8)" m t] k assms by (simp add: add.assoc)
    with k show "mem_read (mem_write m t (replicate 4096 0)) (t + 8 * of_nat j) 8 ! k = replicate 8 0 ! k"
      by (simp add: mem_read_def)
  qed simp
  moreover have "of_bytes (replicate 8 0) = (0 :: u64)" by code_simp
  ultimately show ?thesis by (simp add: ent_def ld64_def)
qed

lemma vpath_snoc: "vpath va = take 2 (vpath va) @ [unat (PX 0 va)]"
  by (simp add: vpath_def)

lemma pte_of_eq: "pte_of m pt va =
    (case tbl (ent m) pt (take 2 (vpath va)) of None \<Rightarrow> 0 | Some t \<Rightarrow> ent m t (unat (PX 0 va)))"
  by (subst pte_of_def, subst vpath_snoc) (simp only: leaf_snoc)

lemma walk_no_alloc:
  assumes "va < MAXVA"
  shows "walk pt va False s = Inr (case tbl (ent (mem s)) pt (take 2 (vpath va)) of
    None \<Rightarrow> 0 | Some t \<Rightarrow> pte_slot t 0 va, s)"
  using assms by (simp add: walk_def numeral_2_eq_2 ld64_pte_slot Let_def not_le vpath_def)

section \<open>Well-formed page tables of the kernel\<close>

definition pt_ok :: "'a kst_scheme \<Rightarrow> u64 list \<Rightarrow> u64 \<Rightarrow> bool" where
  "pt_ok s ps pt \<longleftrightarrow> kpool s ps \<and> ptree (ent (mem s)) pt \<and>
     (\<forall>t\<in>tables (ent (mem s)) pt. kpage (kend s) t \<and> t \<notin> set ps)"

text \<open>
  The table at \<open>pt\<close> may have gained table pages from the pool, but translates as before; only
  pages of the table and of the pool were written.
\<close>

definition ptgrow :: "u64 \<Rightarrow> 'a kst_scheme \<Rightarrow> u64 list \<Rightarrow> 'a kst_scheme \<Rightarrow> u64 list \<Rightarrow> bool" where
  "ptgrow pt s ps s' ps' \<longleftrightarrow> pt_ok s' ps' pt \<and> krest s' = krest s \<and> suffix ps' ps \<and>
     (\<forall>js\<in>lpaths. leaf (ent (mem s')) pt js = leaf (ent (mem s)) pt js) \<and>
     (\<forall>js\<in>paths. \<forall>u. tbl (ent (mem s)) pt js = Some u \<longrightarrow> tbl (ent (mem s')) pt js = Some u) \<and>
     tables (ent (mem s')) pt \<union> set ps' = tables (ent (mem s)) pt \<union> set ps \<and>
     (\<forall>x. (\<forall>q\<in>tables (ent (mem s)) pt \<union> set ps. 4096 \<le> unat (x - q)) \<longrightarrow> mem s' x = mem s x)"

lemma ptgrow_refl: "pt_ok s ps pt \<Longrightarrow> ptgrow pt s ps s ps"
  by (simp add: ptgrow_def)

lemma ptgrow_trans: "ptgrow pt s ps s1 ps1 \<Longrightarrow> ptgrow pt s1 ps1 s2 ps2 \<Longrightarrow> ptgrow pt s ps s2 ps2"
  unfolding ptgrow_def by (intro conjI) (auto intro: suffix_order.trans)

lemma kpage_bounds:
  assumes "kpage e t"
  shows "aligned t" "unat t < 2 ^ 56" "unat t + 4096 \<le> 2 ^ 64"
  using assms by (auto simp: kpage_def word_less_nat_alt layout_nums)

lemma st64_other: "8 \<le> unat (x - a) \<Longrightarrow> st64 m a v x = m x"
  by (simp add: st64_def mem_write_other)

lemma slot_far:
  fixes x t :: u64
  assumes "4096 \<le> unat (x - t)" and "i < 512"
  shows "8 \<le> unat (x - (t + 8 * of_nat i))"
proof -
  have "x - (t + 8 * of_nat i) = (x - t) - of_nat (8 * i)" by simp
  moreover have "8 * i \<le> unat (x - t)" using assms by simp
  ultimately have "unat (x - (t + 8 * of_nat i)) = unat (x - t) - 8 * i"
    using unat_sub_of_nat [of "8 * i" "x - t"] by presburger
  with assms show ?thesis by simp
qed

lemma new_pte:
  assumes "kpage e t"
  shows "(PA2PTE t OR PTE_V) AND PTE_V \<noteq> 0" "PTE2PA (PA2PTE t OR PTE_V) = t"
proof -
  show "(PA2PTE t OR PTE_V) AND PTE_V \<noteq> 0"
    by (simp add: PTE_bits word_bw_comms bit.conj_disj_distrib2 bit.conj_disj_distrib word_ao_absorbs)
  show "PTE2PA (PA2PTE t OR PTE_V) = t"
    using kpage_bounds [OF assms] by (intro PTE2PA_PA2PTE) (simp_all add: PTE_bits)
qed

lemma pt_ok_alloc:
  assumes ok: "pt_ok s ps pt" and ks: "ks \<in> paths" "length ks \<le> 1" "tbl (ent (mem s)) pt ks = Some t"
    and i: "i < 512" and inval: "ent (mem s) t i AND PTE_V = 0"
    and ps: "ps = t' # qs" and run: "kpool s1 qs" "krest s1 = krest s"
      "mem s1 = mem_write (mem s) t' (replicate 4096 5)"
  defines "s2 \<equiv> s1\<lparr>mem := st64 (memset t' 0 (of_nat PGSIZE) (mem s1)) (t + 8 * of_nat i) (PA2PTE t' OR PTE_V)\<rparr>"
  shows "ptgrow pt s ps s2 qs" "tbl (ent (mem s2)) pt (ks @ [i]) = Some t'"
proof -
  let ?E = "ent (mem s)" and ?E' = "ent (mem s2)"
  have pool: "kpool s ps" and tree: "ptree ?E pt" using ok by (auto simp: pt_ok_def)
  have tb: "kpage (kend s) u" "u \<notin> set ps" if "u \<in> tables ?E pt" for u
    using ok that by (auto simp: pt_ok_def)
  have t: "t \<in> tables ?E pt" using tablesI [OF ks(1,3)] .
  have t': "kpage (kend s) t'" "t' \<notin> set qs" "t' \<notin> tables ?E pt"
    using pool ps tb by (auto simp: kpool_def)
  have m2: "mem s2 = st64 (mem_write (mem_write (mem s) t' (replicate 4096 5)) t' (replicate 4096 0))
      (t + 8 * of_nat i) (PA2PTE t' OR PTE_V)"
    by (simp add: s2_def run(3) memset_eq PGSIZE_def)
  note al = kpage_bounds(1) [OF t'(1)] kpage_bounds(1) [OF tb(1) [OF t]]
  have agree: "?E' u j = (if u = t \<and> j = i then PA2PTE t' OR PTE_V else ?E u j)"
    if "u \<in> tables ?E pt" "j < 512" for u j
  proof -
    have "t' \<noteq> u" "aligned u" using that(1) t'(3) kpage_bounds(1) [OF tb(1)] by auto
    then show ?thesis using al i that(2) by (simp add: m2 ent_st64 ent_write_other)
  qed
  have zero: "?E' t' j = 0" if "j < 512" for j
    using al i that t'(3) t by (simp add: m2 ent_st64 ent_zero_page) auto
  note new = new_table [OF tree ks(1,2,3) i inval t'(3) new_pte [OF t'(1)] agree zero]
  have e: "kend s2 = kend s" using run(2) by (simp add: s2_def krest_def)
  have "kpool s2 qs"
    using kpool_write [OF kpool_write [OF run(1) al(1) t'(2), of t' "replicate 4096 0"] al(2), of
        "t + 8 * of_nat i" "to_bytes 8 (PA2PTE t' OR PTE_V)"] in_page_slot [OF i, of t] tb(2) [OF t] ps
    by (simp add: s2_def memset_eq PGSIZE_def st64_eq_write)
  then have "pt_ok s2 qs pt"
    using new(1,2) t' tb ps by (auto simp: pt_ok_def e)
  moreover have "mem s2 x = mem s x" if "\<forall>q\<in>tables ?E pt \<union> set ps. 4096 \<le> unat (x - q)" for x
    using that t ps slot_far [of x t i] i by (simp add: m2 st64_other mem_write_other)
  ultimately show "ptgrow pt s ps s2 qs"
    using new(2,3,5) run(2) ps by (auto simp: ptgrow_def s2_def suffix_def)
  show "tbl ?E' pt (ks @ [i]) = Some t'" by (rule new(4))
qed

lemma take_vpath:
  "l \<le> 1 \<Longrightarrow> take (2 - l) (vpath va) = take (2 - Suc l) (vpath va) @ [unat (PX (Suc l) va)]"
  by (cases l) (auto simp: vpath_def numeral_2_eq_2)

lemma take_vpath_in: "k \<le> 2 \<Longrightarrow> take k (vpath va) \<in> paths"
  using set_take_subset [of k "vpath va"] by (auto simp: paths_def vpath_def unat_PX_less dest!: subsetD)

lemma pte_slot_nonzero:
  assumes "pt_ok s ps pt" and "t \<in> tables (ent (mem s)) pt"
  shows "pte_slot t 0 va \<noteq> 0"
proof -
  have "kpage (kend s) t" "0 < kend s" using assms by (auto simp: pt_ok_def kpool_def)
  then have "0 < unat t" "unat t + 4096 \<le> 2 ^ 64"
    using kpage_bounds [of "kend s" t] by (auto simp: kpage_def word_le_nat_alt word_less_nat_alt)
  moreover obtain i where i: "pte_slot t 0 va = t + 8 * of_nat i" "i < 512"
    using pte_slot_eq unat_PX_less by blast
  ultimately have "unat (t + 8 * of_nat i) = unat t + 8 * i" "0 < unat t"
    using unat_8i [OF i(2)] by (simp_all add: unat_word_ariths(1))
  then show ?thesis unfolding i by auto
qed

lemma walk_loop_alloc:
  assumes "pt_ok s ps pt" and "l \<le> 2" and "tbl (ent (mem s)) pt (take (2 - l) (vpath va)) = Some t"
  shows "\<exists>a s' ps'. walk_loop l t va True s = Inr (a, s') \<and> ptgrow pt s ps s' ps' \<and>
    (if a = 0 then ps' = []
     else \<exists>t0. tbl (ent (mem s')) pt (take 2 (vpath va)) = Some t0 \<and> a = pte_slot t0 0 va)"
  using assms
proof (induction l arbitrary: s ps t)
  case 0
  have "pte_slot t 0 va \<noteq> 0"
    using pte_slot_nonzero [OF 0(1) tablesI [OF take_vpath_in [of 2 va]]] 0(3) by simp
  with 0 show ?case by (auto intro!: ptgrow_refl)
next
  case (Suc l)
  let ?ks = "take (2 - Suc l) (vpath va)" and ?i = "unat (PX (Suc l) va)"
  have l: "l \<le> 1" using Suc.prems(2) by simp
  have ks: "?ks \<in> paths" "length ?ks \<le> 1" by (simp_all add: take_vpath_in)
  show ?case
  proof (cases "ent (mem s) t ?i AND PTE_V = 0")
    case False
    with Suc.prems(3) have "tbl (ent (mem s)) pt (take (2 - l) (vpath va)) = Some (PTE2PA (ent (mem s) t ?i))"
      by (simp only: take_vpath [OF l] tbl_snoc) simp
    from Suc.IH [OF Suc.prems(1) _ this] l False show ?thesis
      by (simp add: ld64_pte_slot Let_def)
  next
    case inval: True
    have pool: "kpool s ps" using Suc.prems(1) by (simp add: pt_ok_def)
    show ?thesis
      using pool
    proof (cases rule: kmem.alloc_cases)
      case (none s1)
      then have "ptgrow pt s [] s1 []"
        using Suc.prems(1) by (simp add: ptgrow_def pt_ok_def krest_def)
      with none inval show ?thesis by (auto simp: ld64_pte_slot Let_def)
    next
      case (some t' qs s1)
      define s2 where "s2 = s1\<lparr>mem := st64 (memset t' 0 (of_nat PGSIZE) (mem s1)) (t + 8 * of_nat ?i) (PA2PTE t' OR PTE_V)\<rparr>"
      note grow = pt_ok_alloc [OF Suc.prems(1) ks Suc.prems(3) unat_PX_less inval some(1,3,4,5), folded s2_def]
      have run: "walk_loop (Suc l) t va True s = walk_loop l t' va True s2"
        using inval some(2,8) by (simp add: ld64_pte_slot Let_def) (simp add: s2_def pte_slot_eq)
      have "pt_ok s2 qs pt" using grow(1) by (simp add: ptgrow_def)
      from Suc.IH [OF this _ grow(2) [folded take_vpath [OF l]]] l obtain a s' ps' where
        "walk_loop l t' va True s2 = Inr (a, s')" "ptgrow pt s2 qs s' ps'"
        "if a = 0 then ps' = [] else \<exists>t0. tbl (ent (mem s')) pt (take 2 (vpath va)) = Some t0 \<and> a = pte_slot t0 0 va"
        by auto
      then show ?thesis unfolding run
        by (intro exI [of _ a] exI [of _ s'] exI [of _ ps'] conjI ptgrow_trans [OF grow(1)])
    qed
  qed
qed

lemma walk_alloc:
  assumes "pt_ok s ps pt" and "va < MAXVA"
  obtains (nomem) s' where "walk pt va True s = Inr (0, s')" "ptgrow pt s ps s' []"
  | (slot) s' ps' t where "walk pt va True s = Inr (pte_slot t 0 va, s')" "ptgrow pt s ps s' ps'"
      "tbl (ent (mem s')) pt (take 2 (vpath va)) = Some t" "pte_slot t 0 va \<noteq> 0"
proof -
  from walk_loop_alloc [OF assms(1), of 2 va pt] obtain a s' ps' where
    w: "walk_loop 2 pt va True s = Inr (a, s')" "ptgrow pt s ps s' ps'"
      "if a = 0 then ps' = [] else \<exists>t0. tbl (ent (mem s')) pt (take 2 (vpath va)) = Some t0 \<and> a = pte_slot t0 0 va"
    by auto
  have "walk pt va True s = Inr (a, s')" using assms(2) w(1) by (simp add: walk_def not_le)
  with w(2,3) show ?thesis by (cases "a = 0") (auto intro: nomem slot)
qed

section \<open>Writing a leaf\<close>

text \<open>As \<open>ptgrow\<close>, but with the leaf at \<open>va\<close> set to \<open>v\<close>.\<close>

definition ptset :: "u64 \<Rightarrow> u64 \<Rightarrow> u64 \<Rightarrow> 'a kst_scheme \<Rightarrow> u64 list \<Rightarrow> 'a kst_scheme \<Rightarrow> bool" where
  "ptset pt va v s ps s' \<longleftrightarrow> pt_ok s' ps pt \<and> krest s' = krest s \<and>
     (\<forall>js\<in>lpaths. leaf (ent (mem s')) pt js = (if js = vpath va then v else leaf (ent (mem s)) pt js)) \<and>
     tables (ent (mem s')) pt = tables (ent (mem s)) pt \<and>
     (\<forall>x. (\<forall>q\<in>tables (ent (mem s)) pt. 4096 \<le> unat (x - q)) \<longrightarrow> mem s' x = mem s x)"

lemma pte_of_slot: "tbl (ent m) pt (take 2 (vpath va)) = Some t \<Longrightarrow> ld64 m (pte_slot t 0 va) = pte_of m pt va"
  by (simp add: pte_of_eq ld64_pte_slot)

lemma ptset_st64:
  assumes ok: "pt_ok s ps pt" and t: "tbl (ent (mem s)) pt (take 2 (vpath va)) = Some t"
  shows "ptset pt va v s ps (s\<lparr>mem := st64 (mem s) (pte_slot t 0 va) v\<rparr>)"
proof -
  let ?E = "ent (mem s)" and ?i = "unat (PX 0 va)"
  let ?E' = "ent (st64 (mem s) (pte_slot t 0 va) v)"
  have tree: "ptree ?E pt" and pool: "kpool s ps" using ok by (auto simp: pt_ok_def)
  have tb: "kpage (kend s) u" "aligned u" "u \<notin> set ps" if "u \<in> tables ?E pt" for u
    using ok that kpage_bounds(1) by (auto simp: pt_ok_def)
  have tin: "t \<in> tables ?E pt" using tablesI [OF take_vpath_in t] by simp
  have agree: "?E' u j = (if u = t \<and> j = ?i then v else ?E u j)" if "u \<in> tables ?E pt" "j < 512" for u j
    unfolding pte_slot_eq using ent_st64 [OF tb(2) [OF tin] tb(2) [OF that(1)] unat_PX_less that(2)] .
  have len: "length (take 2 (vpath va)) = 2" by (simp add: vpath_def)
  note lw = leaf_write [OF tree take_vpath_in [of 2] len t agree, simplified]
  have "kpool (s\<lparr>mem := st64 (mem s) (pte_slot t 0 va) v\<rparr>) ps"
    unfolding pte_slot_eq st64_eq_write
    using kpool_write [OF pool tb(2,3) [OF tin]] in_page_slot [OF unat_PX_less] by simp
  then have "pt_ok (s\<lparr>mem := st64 (mem s) (pte_slot t 0 va) v\<rparr>) ps pt"
    using lw(1,2) tb by (auto simp: pt_ok_def)
  moreover have "st64 (mem s) (pte_slot t 0 va) v x = mem s x" if "\<forall>q\<in>tables ?E pt. 4096 \<le> unat (x - q)" for x
    unfolding pte_slot_eq by (rule st64_other, rule slot_far [OF _ unat_PX_less]) (use that tin in blast)
  moreover have "leaf ?E' pt js = (if js = vpath va then v else leaf ?E pt js)" if "js \<in> lpaths" for js
    using lw(4) [OF that] by (simp add: vpath_snoc [symmetric])
  ultimately show ?thesis
    using lw(2) by (simp add: ptset_def)
qed

section \<open>Mapping a range\<close>

text \<open>The table at \<open>pt\<close> now translates by \<open>G\<close>.\<close>

definition ptrel :: "u64 \<Rightarrow> (nat list \<Rightarrow> u64) \<Rightarrow> 'a kst_scheme \<Rightarrow> u64 list \<Rightarrow> 'a kst_scheme \<Rightarrow> u64 list \<Rightarrow> bool" where
  "ptrel pt G s ps s' ps' \<longleftrightarrow> pt_ok s' ps' pt \<and> krest s' = krest s \<and> suffix ps' ps \<and>
     (\<forall>js\<in>lpaths. leaf (ent (mem s')) pt js = G js) \<and>
     tables (ent (mem s')) pt \<union> set ps' = tables (ent (mem s)) pt \<union> set ps \<and>
     (\<forall>x. (\<forall>q\<in>tables (ent (mem s)) pt \<union> set ps. 4096 \<le> unat (x - q)) \<longrightarrow> mem s' x = mem s x)"

lemma ptrel_grow: "ptgrow pt s ps s' ps' \<Longrightarrow> (\<And>js. js \<in> lpaths \<Longrightarrow> leaf (ent (mem s)) pt js = G js) \<Longrightarrow> ptrel pt G s ps s' ps'"
  by (simp add: ptgrow_def ptrel_def)

lemma ptrel_set:
  "ptrel pt G s ps s1 ps1 \<Longrightarrow> ptset pt va v s1 ps1 s2 \<Longrightarrow> ptrel pt (G(vpath va := v)) s ps s2 ps1"
  unfolding ptset_def ptrel_def by (intro conjI) (auto, metis UnI1)

lemma ptrel_trans: "ptrel pt G s ps s1 ps1 \<Longrightarrow> ptrel pt G' s1 ps1 s2 ps2 \<Longrightarrow> ptrel pt G' s ps s2 ps2"
  unfolding ptrel_def by (intro conjI) (auto intro: suffix_order.trans)

primrec map_range :: "nat \<Rightarrow> u64 \<Rightarrow> u64 \<Rightarrow> u64 \<Rightarrow> (nat list \<Rightarrow> u64) \<Rightarrow> nat list \<Rightarrow> u64" where
  "map_range 0 a pa perm G = G"
| "map_range (Suc k) a pa perm G =
     map_range k (a + PGSZ) (pa + PGSZ) perm (G(vpath a := PA2PTE pa OR perm OR PTE_V))"

lemma vpath_eq_iff:
  assumes "va < MAXVA" and "va' < MAXVA"
  shows "vpath va = vpath va' \<longleftrightarrow> PGROUNDDOWN va = PGROUNDDOWN va'"
proof
  assume "vpath va = vpath va'"
  then show "PGROUNDDOWN va = PGROUNDDOWN va'"
    using PX_inj [OF assms] by (simp add: vpath_def word_unat_eq_iff)
next
  assume "PGROUNDDOWN va = PGROUNDDOWN va'"
  then show "vpath va = vpath va'" unfolding vpath_def by (metis PX_PGROUNDDOWN)
qed

lemma next_page:
  assumes "unat a + 4096 * Suc k \<le> unat MAXVA"
  shows "unat (a + PGSZ) = unat a + 4096"
  using assms by (simp add: unat_word_ariths layout_nums)

lemma map_range_at:
  assumes "aligned a" and "unat a + 4096 * k \<le> unat MAXVA" and "va < MAXVA"
  shows "map_range k a pa perm G (vpath va) =
    (if unat a \<le> unat va \<and> unat va < unat a + 4096 * k
     then PA2PTE (pa + (PGROUNDDOWN va - a)) OR perm OR PTE_V else G (vpath va))"
  using assms
proof (induction k arbitrary: a pa G)
  case (Suc k)
  note np = next_page [OF Suc.prems(2)]
  have al: "aligned (a + PGSZ)" using Suc.prems(1) np by (simp add: aligned_unat)
  have aM: "a < MAXVA" using Suc.prems(2) by (simp add: word_less_nat_alt)
  have here: "vpath va = vpath a \<longleftrightarrow> unat a \<le> unat va \<and> unat va < unat a + 4096"
  proof -
    have "vpath va = vpath a \<longleftrightarrow> unat va div 4096 = unat a div 4096"
      unfolding vpath_eq_iff [OF Suc.prems(3) aM] by (simp add: word_unat_eq_iff unat_PGROUNDDOWN)
    moreover obtain b where "unat a = 4096 * b" using Suc.prems(1) by (auto simp: aligned_unat)
    ultimately show ?thesis by auto
  qed
  have pd: "PGROUNDDOWN va = a" if "vpath va = vpath a"
    using that Suc.prems(1) by (simp add: vpath_eq_iff [OF Suc.prems(3) aM] PGROUNDDOWN_aligned)
  have IH: "map_range k (a + PGSZ) (pa + PGSZ) perm (G(vpath a := PA2PTE pa OR perm OR PTE_V)) (vpath va) =
     (if unat (a + PGSZ) \<le> unat va \<and> unat va < unat (a + PGSZ) + 4096 * k
      then PA2PTE (pa + PGSZ + (PGROUNDDOWN va - (a + PGSZ))) OR perm OR PTE_V
      else (G(vpath a := PA2PTE pa OR perm OR PTE_V)) (vpath va))"
    using Suc.prems np by (intro Suc.IH [OF al]) simp_all
  show ?case
    using here pd by (auto simp: IH np)
qed auto

lemma mappages_loop_ok:
  assumes "pt_ok s ps pt" and "unat a + 4096 * Suc n \<le> unat MAXVA"
    and "\<And>i. i \<le> n \<Longrightarrow> pte_of (mem s) pt (a + of_nat (4096 * i)) AND PTE_V = 0"
    and "\<And>js. js \<in> lpaths \<Longrightarrow> leaf (ent (mem s)) pt js = G js"
  shows "\<exists>r s' ps' k. mappages_loop pt a (a + of_nat (4096 * n)) pa perm s = Inr (r, s') \<and>
    (r = 0 \<and> k = Suc n \<or> r = - 1 \<and> k \<le> n \<and> ps' = []) \<and> ptrel pt (map_range k a pa perm G) s ps s' ps'"
  using assms
proof (induction n arbitrary: a pa s ps G)
  case 0
  have aM: "a < MAXVA" using 0 by (simp add: word_less_nat_alt)
  from 0(1) aM show ?case
  proof (cases rule: walk_alloc)
    case (nomem s')
    then show ?thesis
      using ptrel_grow [OF nomem(2) 0(4)]
      by (intro exI [of _ "- 1"] exI [of _ s'] exI [of _ "[]"] exI [of _ 0]) (simp add: mappages_loop.simps [of _ a])
  next
    case (slot s1 ps1 t)
    have "pte_of (mem s1) pt a AND PTE_V = 0"
      using 0(3) [of 0] slot(2) by (simp add: pte_of_def ptgrow_def)
    moreover have "pt_ok s1 ps1 pt" using slot(2) by (simp add: ptgrow_def)
    ultimately show ?thesis
      using slot ptrel_set [OF ptrel_grow [OF slot(2) 0(4)] ptset_st64 [OF _ slot(3)]]
      by (intro exI [of _ 0]) (auto simp: mappages_loop.simps [of _ a] pte_of_slot)
  qed
next
  case (Suc n)
  let ?G = "G(vpath a := PA2PTE pa OR perm OR PTE_V)"
  note np = next_page [OF Suc.prems(2)]
  have aM: "a < MAXVA" using Suc by (simp add: word_less_nat_alt)
  from Suc.prems(1) aM show ?case
  proof (cases rule: walk_alloc)
    case (nomem s')
    then show ?thesis
      using ptrel_grow [OF nomem(2) Suc.prems(4)]
      by (intro exI [of _ "- 1"] exI [of _ s'] exI [of _ "[]"] exI [of _ 0]) (simp add: mappages_loop.simps [of _ a])
  next
    case (slot s1 ps1 t)
    define s2 where "s2 = s1\<lparr>mem := st64 (mem s1) (pte_slot t 0 a) (PA2PTE pa OR perm OR PTE_V)\<rparr>"
    have free: "pte_of (mem s1) pt a AND PTE_V = 0"
      using Suc.prems(3) [of 0] slot(2) by (simp add: pte_of_def ptgrow_def)
    have "pt_ok s1 ps1 pt" using slot(2) by (simp add: ptgrow_def)
    then have rel: "ptrel pt ?G s ps s2 ps1"
      unfolding s2_def using ptrel_set [OF ptrel_grow [OF slot(2) Suc.prems(4)] ptset_st64 [OF _ slot(3)]] by blast
    have ne: "a \<noteq> a + of_nat (4096 * Suc n)"
    proof -
      have "unat (of_nat (4096 * Suc n) :: u64) = 4096 * Suc n"
        using Suc.prems(2) u64_less [of a] by (intro unat_of_nat_u64) (simp add: layout_nums)
      then show ?thesis by auto
    qed
    have run: "mappages_loop pt a (a + of_nat (4096 * Suc n)) pa perm s =
        mappages_loop pt (a + PGSZ) (a + PGSZ + of_nat (4096 * n)) (pa + PGSZ) perm s2"
      using slot(1,4) free ne pte_of_slot [OF slot(3)]
      by (simp add: mappages_loop.simps [of _ a] s2_def add.assoc)
    have "pt_ok s2 ps1 pt" using rel by (simp add: ptrel_def)
    moreover have "unat (a + PGSZ) + 4096 * Suc n \<le> unat MAXVA" using Suc.prems(2) np by simp
    moreover have "pte_of (mem s2) pt (a + PGSZ + of_nat (4096 * i)) AND PTE_V = 0" if "i \<le> n" for i
    proof -
      have b: "a + PGSZ + of_nat (4096 * i) = a + of_nat (4096 * Suc i)" by (simp add: add.assoc)
      have u: "unat (a + of_nat (4096 * Suc i)) = unat a + 4096 * Suc i"
        using Suc.prems(2) that by (intro unat_add_of_nat) (simp add: layout_nums)
      have "vpath (a + of_nat (4096 * Suc i)) \<noteq> vpath a"
        using Suc.prems(2) that u
        by (subst vpath_eq_iff) (auto simp: word_less_nat_alt word_unat_eq_iff unat_PGROUNDDOWN)
      with Suc.prems(3) [of "Suc i"] that rel Suc.prems(4) show ?thesis
        unfolding b by (simp add: pte_of_def ptrel_def)
    qed
    moreover have "leaf (ent (mem s2)) pt js = ?G js" if "js \<in> lpaths" for js
      using rel that by (simp add: ptrel_def)
    ultimately obtain r s' ps' k where
      "mappages_loop pt (a + PGSZ) (a + PGSZ + of_nat (4096 * n)) (pa + PGSZ) perm s2 = Inr (r, s')"
      "r = 0 \<and> k = Suc n \<or> r = - 1 \<and> k \<le> n \<and> ps' = []"
      "ptrel pt (map_range k (a + PGSZ) (pa + PGSZ) perm ?G) s2 ps1 s' ps'"
      using Suc.IH [of s2 ps1 "a + PGSZ" ?G "pa + PGSZ"] by blast
    then show ?thesis unfolding run
      using ptrel_trans [OF rel]
      by (intro exI [of _ r] exI [of _ s'] exI [of _ ps'] exI [of _ "Suc k"]) auto
  qed
qed

lemma mappages_loop_remap:
  assumes "pt_ok s ps pt" and "a < MAXVA" and "pte_of (mem s) pt a AND PTE_V \<noteq> 0"
  shows "mappages_loop pt a e pa perm s = panic ''mappages: remap''"
proof -
  have "take 2 (vpath a) = [unat (PX 2 a), unat (PX 1 a)]" by (simp add: vpath_def)
  with assms(3) obtain t where t: "tbl (ent (mem s)) pt (take 2 (vpath a)) = Some t"
    by (auto simp: pte_of_eq split: option.splits)
  then have "walk_loop 2 pt a True s = Inr (pte_slot t 0 a, s)"
    by (auto simp: numeral_2_eq_2 vpath_def ld64_pte_slot Let_def split: if_splits)
  then have "walk pt a True s = Inr (pte_slot t 0 a, s)"
    using assms(2) by (simp add: walk_def not_le)
  moreover have "pte_slot t 0 a \<noteq> 0" using pte_slot_nonzero [OF assms(1) tablesI [OF take_vpath_in t]] by simp
  ultimately show ?thesis
    using assms(3) pte_of_slot [OF t] by (simp add: mappages_loop.simps [of _ a])
qed

text \<open>The number of pages that a byte range meets.\<close>

lemma range_pages:
  assumes sz: "0 < sz" and top: "unat va + unat sz \<le> unat MAXVA"
  obtains n where "unat (PGROUNDDOWN va) + 4096 * n = unat (PGROUNDDOWN (va + sz - 1))"
    "PGROUNDDOWN (va + sz - 1) = PGROUNDDOWN va + of_nat (4096 * n)"
    "unat (PGROUNDDOWN (va + sz - 1)) + 4096 \<le> unat MAXVA"
    "unat (PGROUNDDOWN (va + sz - 1)) < unat va + unat sz"
proof -
  let ?a = "PGROUNDDOWN va" and ?l = "PGROUNDDOWN (va + sz - 1)"
  define n where "n = (unat va + unat sz - 1) div 4096 - unat va div 4096"
  have sz': "0 < unat sz" using sz by (simp add: word_less_nat_alt)
  have sum: "unat (va + sz) = unat va + unat sz"
    using top by (simp add: unat_word_ariths(1) layout_nums)
  then have "va + sz \<noteq> 0" using sz' by auto
  with sum have end_va: "unat (va + sz - 1) = unat va + unat sz - 1" by (simp add: u64_pred_unat)
  have a: "unat ?a = 4096 * (unat va div 4096)" and l: "unat ?l = 4096 * ((unat va + unat sz - 1) div 4096)"
    by (simp_all add: unat_PGROUNDDOWN end_va)
  have "unat va div 4096 \<le> (unat va + unat sz - 1) div 4096" using sz' by (intro div_le_mono) simp
  then have an: "unat ?a + 4096 * n = unat ?l" by (simp add: a l n_def diff_mult_distrib2)
  have "(unat va + unat sz - 1) div 4096 < 67108864"
    using top sz' by (simp add: div_less_iff_less_mult layout_nums)
  then have lM: "unat ?l + 4096 \<le> unat MAXVA" unfolding l layout_nums by simp
  have "?l = ?a + of_nat (4096 * n)"
    using an unat_add_of_nat [of ?a "4096 * n"] u64_less [of ?l] by (simp add: word_unat_eq_iff)
  moreover have "unat ?l \<le> unat va + unat sz - 1" by (simp add: l)
  then have "unat ?l < unat va + unat sz" using sz' by linarith
  ultimately show ?thesis using an lM that by blast
qed

lemma page_le_iff: "aligned l \<Longrightarrow> unat x < unat l + 4096 \<longleftrightarrow> PGROUNDDOWN x \<le> l"
proof -
  assume "aligned l"
  then obtain L where "unat l = 4096 * L" by (auto simp: aligned_unat mod_eq_0_iff_dvd)
  then show ?thesis
    using div_less_iff_less_mult [of 4096 "unat x" "Suc L"]
    by (simp add: word_le_nat_alt unat_PGROUNDDOWN less_Suc_eq_le add.commute mult.commute)
qed

section \<open>Properties\<close>

text \<open>
  (C7) \<open>mappages\<close> on a range of unmapped addresses below \<open>MAXVA\<close> returns 0 or \<open>-1\<close>.
  When it returns 0, every page that meets the range translates to the physical page at the
  same distance from \<open>pa\<close> with the given permissions, and every other address translates as
  before.  It returns \<open>-1\<close> only with the allocator empty.  The table stays a tree of pages
  disjoint from the free list, and memory outside its pages and the free pages is untouched.
\<close>

theorem mappages_maps_range:
  assumes ok: "pt_ok s ps pt" and sz: "0 < sz" and top: "unat va + unat sz \<le> unat MAXVA"
    and free: "\<And>x. PGROUNDDOWN va \<le> x \<Longrightarrow> unat x < unat va + unat sz \<Longrightarrow> pte_of (mem s) pt x AND PTE_V = 0"
  shows "\<exists>r s' ps'. mappages pt va sz pa perm s = Inr (r, s') \<and> pt_ok s' ps' pt \<and> krest s' = krest s \<and>
    (r = 0 \<and> (\<forall>x < MAXVA. pte_of (mem s') pt x =
         (if PGROUNDDOWN va \<le> x \<and> PGROUNDDOWN x \<le> PGROUNDDOWN (va + sz - 1)
          then PA2PTE (pa + (PGROUNDDOWN x - PGROUNDDOWN va)) OR perm OR PTE_V else pte_of (mem s) pt x))
     \<or> r = - 1 \<and> ps' = []) \<and>
    (\<forall>x. (\<forall>q\<in>tables (ent (mem s)) pt \<union> set ps. 4096 \<le> unat (x - q)) \<longrightarrow> mem s' x = mem s x)"
proof -
  let ?a = "PGROUNDDOWN va" and ?l = "PGROUNDDOWN (va + sz - 1)" and ?G = "leaf (ent (mem s)) pt"
  obtain n where an: "unat ?a + 4096 * n = unat ?l" and last: "?l = ?a + of_nat (4096 * n)"
    and lM: "unat ?l + 4096 \<le> unat MAXVA" and lt: "unat ?l < unat va + unat sz"
    using range_pages [OF sz top] by blast
  have unm: "pte_of (mem s) pt (?a + of_nat (4096 * i)) AND PTE_V = 0" if "i \<le> n" for i
  proof (rule free)
    have u: "unat (?a + of_nat (4096 * i)) = unat ?a + 4096 * i"
      using that an u64_less [of ?l] by (intro unat_add_of_nat) (simp add: le_less_trans)
    then show "?a \<le> ?a + of_nat (4096 * i)" by (simp add: word_le_nat_alt)
    show "unat (?a + of_nat (4096 * i)) < unat va + unat sz" using u lt that an by simp
  qed
  have "unat ?a + 4096 * Suc n \<le> unat MAXVA" using an lM by simp
  from mappages_loop_ok [OF ok this unm refl, of pa perm] obtain r s' ps' k where
    run: "mappages_loop pt ?a ?l pa perm s = Inr (r, s')"
    and r: "r = 0 \<and> k = Suc n \<or> r = - 1 \<and> k \<le> n \<and> ps' = []"
    and rel: "ptrel pt (map_range k ?a pa perm ?G) s ps s' ps'"
    unfolding last by blast
  have at: "pte_of (mem s') pt x = (if ?a \<le> x \<and> PGROUNDDOWN x \<le> ?l
      then PA2PTE (pa + (PGROUNDDOWN x - ?a)) OR perm OR PTE_V else pte_of (mem s) pt x)"
    if "k = Suc n" "x < MAXVA" for x
  proof -
    have "unat ?a + 4096 * Suc n = unat ?l + 4096" using an by simp
    then have "unat x < unat ?a + 4096 * Suc n \<longleftrightarrow> PGROUNDDOWN x \<le> ?l"
      by (simp only: page_le_iff [OF aligned_PGROUNDDOWN])
    moreover have "unat ?a + 4096 * k \<le> unat MAXVA" using that(1) an lM by simp
    ultimately show ?thesis
      using map_range_at [of ?a k x pa perm ?G] rel that
      by (simp add: pte_of_def ptrel_def word_le_nat_alt [symmetric])
  qed
  show ?thesis
    using sz run r rel at by (intro exI [of _ r] exI [of _ s'] exI [of _ ps']) (auto simp: mappages_def ptrel_def)
qed

text \<open>
  (C8) Mapping an address that is already mapped panics rather than replacing the translation.
\<close>

theorem mappages_remap_panics:
  assumes "pt_ok s ps pt" and "0 < sz" and "va < MAXVA" and "pte_of (mem s) pt va AND PTE_V \<noteq> 0"
  shows "mappages pt va sz pa perm s = panic ''mappages: remap''"
proof -
  have "PGROUNDDOWN va < MAXVA"
    using assms(3) by (simp add: word_less_nat_alt unat_PGROUNDDOWN)
  moreover have "pte_of (mem s) pt (PGROUNDDOWN va) = pte_of (mem s) pt va"
    by (simp add: pte_of_def vpath_def)
  ultimately show ?thesis
    using assms mappages_loop_remap [OF assms(1), of "PGROUNDDOWN va"] by (simp add: mappages_def word_gt_0)
qed

section \<open>A small table\<close>

text \<open>One user page at virtual address 0, through tables at fixed addresses.\<close>

definition demo_mem :: mem where
  "demo_mem = st64 (st64 (st64 (\<lambda>_. 0) 0x80030000 (PA2PTE 0x80031000 OR PTE_V))
     0x80031000 (PA2PTE 0x80032000 OR PTE_V)) 0x80032000 (PA2PTE 0x80033000 OR PTE_R OR PTE_W OR PTE_U OR PTE_V)"

lemma ent_null: "ent (\<lambda>_. 0) t j = 0"
proof -
  have "mem_read (\<lambda>_. 0) a 8 = replicate 8 0" for a by (intro nth_equalityI) (simp_all add: mem_read_def)
  moreover have "of_bytes (replicate 8 0) = (0 :: u64)" by code_simp
  ultimately show ?thesis by (simp add: ent_def ld64_def)
qed

lemma ent_demo:
  assumes "aligned t" and "j < 512"
  shows "ent demo_mem t j =
    (if j \<noteq> 0 then 0 else if t = 0x80032000 then 0x2000CC17 else if t = 0x80031000 then 0x2000C801
     else if t = 0x80030000 then 0x2000C401 else 0)"
proof -
  have al: "aligned 0x80030000" "aligned 0x80031000" "aligned 0x80032000" by (simp_all add: aligned_def)
  have st: "ent (st64 m a v) t j = (if t = a \<and> j = 0 then v else ent m t j)" if "aligned a" for m a v
    using ent_st64 [OF that assms(1) _ assms(2), of 0 m v] by simp
  show ?thesis
    unfolding demo_mem_def st [OF al(3)] st [OF al(2)] st [OF al(1)] ent_null
    by (simp add: PA2PTE_def PTE_bits)
qed

lemma demo_entries: "PTE2PA 0x2000C401 = 0x80031000" "PTE2PA 0x2000C801 = 0x80032000" "PTE2PA 0x2000CC17 = 0x80033000"
  by (simp_all add: PTE2PA_def)

lemma tbl_demo:
  assumes "js \<in> paths"
  shows "tbl (ent demo_mem) 0x80030000 js =
    (if js = [] then Some 0x80030000 else if js = [0] then Some 0x80031000
     else if js = [0, 0] then Some 0x80032000 else None)"
proof -
  consider "js = []" | i where "js = [i]" "i < 512" | i j where "js = [i, j]" "i < 512" "j < 512"
    using assms by (cases js; cases "tl js"; auto simp: paths_def)
  then show ?thesis
    by cases (auto simp: ent_demo aligned_def PTE_bits demo_entries)
qed

lemma demo_ptree: "ptree (ent demo_mem) 0x80030000" "tables (ent demo_mem) 0x80030000 = {0x80030000, 0x80031000, 0x80032000}"
proof -
  show "ptree (ent demo_mem) 0x80030000" unfolding ptree_def by (auto simp: tbl_demo split: if_splits)
  have p: "[] \<in> paths" "[0] \<in> paths" "[0, 0] \<in> paths" by (auto simp: paths_def)
  have "{0x80030000, 0x80031000, 0x80032000} \<subseteq> tables (ent demo_mem) 0x80030000"
    using tablesI [OF p(1), of "ent demo_mem" "0x80030000" "0x80030000"] tablesI [OF p(2), of "ent demo_mem" "0x80030000" "0x80031000"]
      tablesI [OF p(3), of "ent demo_mem" "0x80030000" "0x80032000"] tbl_demo [OF p(1)] tbl_demo [OF p(2)] tbl_demo [OF p(3)]
    by (simp del: tbl.simps)
  moreover have "t \<in> {0x80030000, 0x80031000, 0x80032000}" if "t \<in> tables (ent demo_mem) 0x80030000" for t
    using that tbl_demo unfolding tables_def by (auto simp del: tbl.simps split: if_splits)
  ultimately show "tables (ent demo_mem) 0x80030000 = {0x80030000, 0x80031000, 0x80032000}" by blast
qed

lemma leaf_demo: "js \<in> lpaths \<Longrightarrow> leaf (ent demo_mem) 0x80030000 js = (if js = [0, 0, 0] then 0x2000CC17 else 0)"
  by (erule lpathsE) (auto simp: leaf_snoc tbl_demo ent_demo aligned_def)

lemma vpath_0: "vpath 0 = [0, 0, 0]"
  by (simp add: vpath_def PX_def)

lemma pte_of_demo:
  assumes "x < MAXVA"
  shows "pte_of demo_mem 0x80030000 x = (if x < PGSZ then 0x2000CC17 else 0)"
proof -
  have "vpath x = [0, 0, 0] \<longleftrightarrow> x < PGSZ"
    unfolding vpath_0 [symmetric] using vpath_eq_iff [OF assms, of 0] layout_nums
    by (auto simp: word_unat_eq_iff unat_PGROUNDDOWN word_less_nat_alt)
  then show ?thesis by (simp add: pte_of_def leaf_demo)
qed

definition demo_vm :: kst where
  "demo_vm = demo_kst demo_mem 0x80040000 0x80020000"

lemma demo_pt_ok: "pt_ok demo_vm [0x80040000] 0x80030000"
proof -
  have "ld64 demo_mem 0x80040000 = 0"
    using ent_demo [of "0x80040000" 0] by (simp add: ent_def aligned_def)
  then have "kpool demo_vm [0x80040000]"
    by (simp add: kpool_def demo_vm_def kpage_def aligned_def layout_nums)
  then show ?thesis
    using demo_ptree by (simp add: pt_ok_def demo_vm_def kpage_def aligned_def layout_nums)
qed

theorem mappages_maps_range_witness:
  "\<exists>r s' ps'. mappages 0x80030000 PGSZ PGSZ 0x80050000 (PTE_R OR PTE_U) demo_vm = Inr (r, s') \<and>
     pt_ok s' ps' 0x80030000 \<and> (r = 0 \<or> r = - 1 \<and> ps' = [])"
proof -
  have "pte_of (mem demo_vm) 0x80030000 x AND PTE_V = 0" if "PGROUNDDOWN PGSZ \<le> x" "unat x < unat PGSZ + unat PGSZ" for x
  proof -
    have "\<not> x < PGSZ" "x < MAXVA"
      using that by (simp_all add: PGROUNDDOWN_aligned aligned_def word_less_nat_alt word_le_nat_alt layout_nums)
    then show ?thesis by (simp add: demo_vm_def pte_of_demo)
  qed
  moreover have "unat PGSZ + unat PGSZ \<le> unat MAXVA" by (simp add: layout_nums)
  ultimately show ?thesis
    using mappages_maps_range [OF demo_pt_ok, of PGSZ PGSZ "0x80050000" "PTE_R OR PTE_U"] by fastforce
qed

theorem mappages_remap_panics_witness:
  "mappages 0x80030000 8 PGSZ 0x80050000 PTE_R demo_vm = panic ''mappages: remap''"
proof -
  have "pte_of (mem demo_vm) 0x80030000 8 AND PTE_V \<noteq> 0"
    by (simp add: demo_vm_def pte_of_demo layout_nums PTE_bits)
  from mappages_remap_panics [OF demo_pt_ok _ _ this, of PGSZ] show ?thesis by (simp add: layout_nums)
qed

end
