(* ===== verification/Uspace.thy ===== *)
theory Uspace
  imports Pagetable
begin

text \<open>
  User address spaces: a well-formed table whose user-accessible leaves lead to distinct
  pages that hold neither tables nor free memory.  \<open>ubyte\<close> is the byte a user program sees
  at a virtual address; the lemmas give \<open>walkaddr\<close>, \<open>copyout\<close>, \<open>copyin\<close> and
  \<open>copyinstr\<close> their meaning in these terms.
\<close>

section \<open>Memory that agrees on a page\<close>

definition same_page :: "mem \<Rightarrow> mem \<Rightarrow> u64 \<Rightarrow> bool" where
  "same_page m m' q \<longleftrightarrow> (\<forall>k < 4096. m' (q + of_nat k) = m (q + of_nat k))"

lemma same_page_read:
  assumes "same_page m m' q" and "j + k \<le> 4096"
  shows "mem_read m' (q + of_nat j) k = mem_read m (q + of_nat j) k"
proof (rule nth_equalityI)
  fix i assume "i < length (mem_read m' (q + of_nat j) k)"
  then have "m' (q + of_nat (j + i)) = m (q + of_nat (j + i))" and "i < k"
    using assms by (auto simp: same_page_def simp del: of_nat_add)
  then show "mem_read m' (q + of_nat j) k ! i = mem_read m (q + of_nat j) k ! i"
    by (simp add: mem_read_def add.assoc)
qed simp

lemma same_page_ent:
  assumes "same_page m m' q" and "j < 512"
  shows "ent m' q j = ent m q j"
  using same_page_read [OF assms(1), of "8 * j" 8] assms(2) by (simp add: ent_def ld64_def)

lemma same_page_flist:
  "(\<And>q. q \<in> set ps \<Longrightarrow> same_page m m' q) \<Longrightarrow> flist m' p ps = flist m p ps"
proof (induction ps arbitrary: p)
  case (Cons x xs)
  have "ld64 m' x = ld64 m x"
    using same_page_ent [of m m' x 0] Cons.prems by (simp add: ent_def)
  with Cons show ?case by simp
qed simp

lemma same_pageI: "(\<And>x. unat (x - q) < 4096 \<Longrightarrow> m' x = m x) \<Longrightarrow> same_page m m' q"
  by (simp add: same_page_def unat_of_nat_u64)

lemma same_page_far:
  assumes "aligned q" and "aligned t" and "q \<noteq> t" and "in_page t a (length bs)"
  shows "same_page m (mem_write m a bs) q"
proof -
  have ap: "apart q 4096 a (length bs)"
    using apart_sub [OF pages_apart [of q t] assms(4)] assms by simp
  have "mem_write m a bs (q + of_nat k) = m (q + of_nat k)" if "k < 4096" for k
    using apart_offset [OF ap that] by (rule mem_write_other)
  then show ?thesis by (simp add: same_page_def)
qed

lemma tbl_same:
  assumes "\<And>t. t \<in> tables E pt \<Longrightarrow> \<forall>j<512. E' t j = E t j" and "js \<in> paths"
  shows "tbl E' pt js = tbl E pt js"
  using assms(2)
proof (induction js rule: rev_induct)
  case (snoc j js)
  then have "tbl E' pt js = tbl E pt js" "js \<in> paths" "j < 512" by auto
  then show ?case
    using assms(1) [OF tablesI] by (auto simp: tbl_snoc split: option.split)
qed simp

lemma leaf_same:
  assumes "\<And>t. t \<in> tables E pt \<Longrightarrow> \<forall>j<512. E' t j = E t j" and "js \<in> lpaths"
  shows "leaf E' pt js = leaf E pt js"
  using assms(2)
proof (rule lpathsE)
  fix qs c assume js: "js = qs @ [c]" "qs \<in> paths" "c < 512"
  then show ?thesis
    using tbl_same [OF assms(1) js(2)] assms(1) [OF tablesI [OF js(2)]]
    by (auto simp: leaf_snoc split: option.split)
qed

lemma pt_ok_agree:
  assumes ok: "pt_ok s ps pt"
    and same: "\<And>q. q \<in> tables (ent (mem s)) pt \<union> set ps \<Longrightarrow> same_page (mem s) m' q"
  shows "pt_ok (s\<lparr>mem := m'\<rparr>) ps pt" "tables (ent m') pt = tables (ent (mem s)) pt"
    "\<And>js. js \<in> lpaths \<Longrightarrow> leaf (ent m') pt js = leaf (ent (mem s)) pt js"
    "\<And>va. pte_of m' pt va = pte_of (mem s) pt va"
proof -
  have e: "\<forall>j<512. ent m' t j = ent (mem s) t j" if "t \<in> tables (ent (mem s)) pt" for t
    using same_page_ent [OF same] that by auto
  note t = tbl_same [OF e]
  show tb: "tables (ent m') pt = tables (ent (mem s)) pt" using t by (auto simp: tables_def)
  have "ptree (ent m') pt" using ok t by (auto simp: pt_ok_def ptree_def)
  moreover have "kpool (s\<lparr>mem := m'\<rparr>) ps"
    using ok same_page_flist [of ps "mem s" m' "kfreelist s"] same by (auto simp: pt_ok_def kpool_def)
  ultimately show "pt_ok (s\<lparr>mem := m'\<rparr>) ps pt" using ok tb by (simp add: pt_ok_def)
  show lf: "leaf (ent m') pt js = leaf (ent (mem s)) pt js" if "js \<in> lpaths" for js
    using leaf_same [OF e that] .
  show "pte_of m' pt va = pte_of (mem s) pt va" for va by (simp add: pte_of_def lf)
qed

section \<open>What a user program sees\<close>

definition uaccess :: "u64 \<Rightarrow> bool" where
  "uaccess pte \<longleftrightarrow> pte AND PTE_V \<noteq> 0 \<and> pte AND PTE_U \<noteq> 0"

definition ubyte :: "mem \<Rightarrow> u64 \<Rightarrow> u64 \<Rightarrow> u8 option" where
  "ubyte m pt va = (if va < MAXVA \<and> uaccess (pte_of m pt va)
     then Some (m (PTE2PA (pte_of m pt va) + (va - PGROUNDDOWN va))) else None)"

definition upages :: "mem \<Rightarrow> u64 \<Rightarrow> u64 set" where
  "upages m pt = {PTE2PA (leaf (ent m) pt js) |js. js \<in> lpaths \<and> uaccess (leaf (ent m) pt js)}"

definition uspace :: "'a kst_scheme \<Rightarrow> u64 list \<Rightarrow> u64 \<Rightarrow> bool" where
  "uspace s ps pt \<longleftrightarrow> pt_ok s ps pt \<and>
     (\<forall>q\<in>upages (mem s) pt. kpage (kend s) q \<and> q \<notin> set ps \<and> q \<notin> tables (ent (mem s)) pt) \<and>
     (\<forall>is\<in>lpaths. \<forall>js\<in>lpaths. uaccess (leaf (ent (mem s)) pt is) \<and> uaccess (leaf (ent (mem s)) pt js) \<and>
        PTE2PA (leaf (ent (mem s)) pt is) = PTE2PA (leaf (ent (mem s)) pt js) \<longrightarrow> is = js)"

lemma upages_pte: "uaccess (pte_of m pt va) \<Longrightarrow> PTE2PA (pte_of m pt va) \<in> upages m pt"
  by (auto simp: upages_def pte_of_def)

lemma uspace_agree:
  assumes us: "uspace s ps pt"
    and same: "\<And>q. q \<in> tables (ent (mem s)) pt \<union> set ps \<Longrightarrow> same_page (mem s) m' q"
  shows "uspace (s\<lparr>mem := m'\<rparr>) ps pt" "upages m' pt = upages (mem s) pt"
    "tables (ent m') pt = tables (ent (mem s)) pt" "\<And>va. pte_of m' pt va = pte_of (mem s) pt va"
proof -
  have ok: "pt_ok s ps pt" using us by (simp add: uspace_def)
  note ag = pt_ok_agree [OF ok same]
  show up: "upages m' pt = upages (mem s) pt"
    unfolding upages_def using ag(3) by (metis (no_types, lifting))
  show "uspace (s\<lparr>mem := m'\<rparr>) ps pt"
    using us ag by (simp add: uspace_def up)
  show "tables (ent m') pt = tables (ent (mem s)) pt" "pte_of m' pt va = pte_of (mem s) pt va" for va
    using ag by auto
qed

lemma walkaddr_eq:
  assumes "pt_ok s ps pt"
  shows "walkaddr pt va s =
    Inr (if va < MAXVA \<and> uaccess (pte_of (mem s) pt va) then PTE2PA (pte_of (mem s) pt va) else 0, s)"
proof (cases "va < MAXVA")
  case True
  show ?thesis
  proof (cases "tbl (ent (mem s)) pt (take 2 (vpath va))")
    case None
    with True show ?thesis by (simp add: walkaddr_def walk_no_alloc uaccess_def pte_of_eq)
  next
    case (Some t)
    have "pte_slot t 0 va \<noteq> 0"
      using pte_slot_nonzero [OF assms tablesI [OF take_vpath_in Some]] by simp
    moreover have "\<not> MAXVA \<le> va" using True by simp
    ultimately show ?thesis
      using pte_of_slot [OF Some] Some True by (simp add: walkaddr_def walk_no_alloc uaccess_def)
  qed
next
  case False
  then have "MAXVA \<le> va" by simp
  with False show ?thesis by (simp add: walkaddr_def)
qed

section \<open>Writing to a user page\<close>

lemma vpath_page: "PGROUNDDOWN x = PGROUNDDOWN va \<Longrightarrow> vpath x = vpath va"
  unfolding vpath_def by (metis PX_PGROUNDDOWN)

lemma page_offset: "va - PGROUNDDOWN va = of_nat (unat va mod 4096)"
  using chunk_bounds(4) [of 1 va] by (simp add: word_unat_eq_iff unat_of_nat_u64)

lemma same_page_near:
  assumes "unat (x - va) + unat va mod 4096 < 4096" and "va < MAXVA"
  shows "PGROUNDDOWN x = PGROUNDDOWN va"
proof -
  define d where "d = unat (x - va)"
  have "x = va + of_nat d" by (simp add: d_def)
  moreover have "unat va + d < 2 ^ 64"
    using assms by (simp add: d_def word_less_nat_alt layout_nums)
  ultimately have "unat x = unat va + d" using unat_add_of_nat by blast
  moreover have "(a + d) div 4096 = a div 4096" if "d + a mod 4096 < 4096" for a :: nat
    using that div_add1_eq [of a d 4096] by simp
  ultimately have "unat x div 4096 = unat va div 4096" using assms(1) by (simp add: d_def)
  then show ?thesis by (simp add: word_unat_eq_iff unat_PGROUNDDOWN)
qed

lemma uwrite:
  assumes us: "uspace s ps pt" and va: "va < MAXVA" "uaccess (pte_of (mem s) pt va)"
    and bs: "0 < length bs" "unat va mod 4096 + length bs \<le> 4096"
  defines "m' \<equiv> mem_write (mem s) (PTE2PA (pte_of (mem s) pt va) + (va - PGROUNDDOWN va)) bs"
  shows "uspace (s\<lparr>mem := m'\<rparr>) ps pt" "upages m' pt = upages (mem s) pt"
    "tables (ent m') pt = tables (ent (mem s)) pt" "\<And>x. pte_of m' pt x = pte_of (mem s) pt x"
    "\<And>x. ubyte m' pt x = (if unat (x - va) < length bs then Some (bs ! unat (x - va)) else ubyte (mem s) pt x)"
    "\<And>x. (\<And>q. q \<in> upages (mem s) pt \<Longrightarrow> 4096 \<le> unat (x - q)) \<Longrightarrow> m' x = mem s x"
proof -
  define q where "q = PTE2PA (pte_of (mem s) pt va)"
  define o' where "o' = unat va mod 4096"
  have off: "va - PGROUNDDOWN va = of_nat o'"
    by (simp add: o'_def page_offset)
  have m': "m' = mem_write (mem s) (q + of_nat o') bs" by (simp add: m'_def q_def off)
  have q: "q \<in> upages (mem s) pt" using va(2) by (simp add: q_def upages_pte)
  then have qk: "kpage (kend s) q" "q \<notin> set ps" "q \<notin> tables (ent (mem s)) pt" "aligned q"
    using us kpage_bounds(1) by (auto simp: uspace_def)
  have inp: "in_page q (q + of_nat o') (length bs)"
    using bs by (simp add: in_page_def unat_of_nat_u64 o'_def)
  have far: "same_page (mem s) m' t" if "aligned t" "t \<noteq> q" for t
    unfolding m' using same_page_far [OF that(1) qk(4) that(2) inp] .
  have pg: "kpage (kend s) t" if "t \<in> tables (ent (mem s)) pt \<union> set ps" for t
    using us that by (auto simp: uspace_def pt_ok_def kpool_def)
  have same: "same_page (mem s) m' t" if "t \<in> tables (ent (mem s)) pt \<union> set ps" for t
    using that qk kpage_bounds(1) [OF pg [OF that]] by (intro far) auto
  note ag = uspace_agree [OF us same]
  show "uspace (s\<lparr>mem := m'\<rparr>) ps pt" "upages m' pt = upages (mem s) pt"
    "tables (ent m') pt = tables (ent (mem s)) pt" and pte: "pte_of m' pt x = pte_of (mem s) pt x" for x
    using ag by blast+
  show "m' x = mem s x" if "\<And>q. q \<in> upages (mem s) pt \<Longrightarrow> 4096 \<le> unat (x - q)" for x
  proof -
    have "4096 \<le> unat (x - q)" using that [OF q] .
    then have "unat (x - (q + of_nat o')) = unat (x - q) - o'"
      using unat_sub_of_nat [of o' "x - q"] bs by (simp add: diff_diff_eq o'_def)
    with \<open>4096 \<le> unat (x - q)\<close> bs show ?thesis by (simp add: m' mem_write_other o'_def)
  qed
  show "ubyte m' pt x = (if unat (x - va) < length bs then Some (bs ! unat (x - va)) else ubyte (mem s) pt x)" for x
  proof (cases "PGROUNDDOWN x = PGROUNDDOWN va")
    case True
    have x: "x < MAXVA" "pte_of (mem s) pt x = pte_of (mem s) pt va"
    proof -
      have "unat x div 4096 = unat va div 4096" using True by (simp add: word_unat_eq_iff unat_PGROUNDDOWN)
      moreover have "y < MAXVA \<longleftrightarrow> unat y div 4096 < 67108864" for y
        by (simp add: word_less_nat_alt layout_nums div_less_iff_less_mult)
      ultimately show "x < MAXVA" using va(1) by simp
      show "pte_of (mem s) pt x = pte_of (mem s) pt va" by (simp add: pte_of_def vpath_page [OF True])
    qed
    have "q + (x - PGROUNDDOWN x) - (q + of_nat o') = x - va"
      by (simp add: True off [symmetric])
    then have "m' (q + (x - PGROUNDDOWN x)) =
        (if unat (x - va) < length bs then bs ! unat (x - va) else mem s (q + (x - PGROUNDDOWN x)))"
      by (simp only: m' mem_write_def)
    with x va(2) show ?thesis by (simp add: ubyte_def pte q_def)
  next
    case False
    have "\<not> unat (x - va) < length bs"
    proof
      assume "unat (x - va) < length bs"
      then have "unat (x - va) + unat va mod 4096 < 4096" using bs(2) by linarith
      from same_page_near [OF this va(1)] False show False by simp
    qed
    moreover have "m' (PTE2PA (pte_of (mem s) pt x) + (x - PGROUNDDOWN x)) =
        mem s (PTE2PA (pte_of (mem s) pt x) + (x - PGROUNDDOWN x))" if x: "x < MAXVA" "uaccess (pte_of (mem s) pt x)"
    proof -
      have "vpath x \<noteq> vpath va" using False vpath_eq_iff [OF x(1) va(1)] by simp
      then have "PTE2PA (pte_of (mem s) pt x) \<noteq> q"
        using us x(2) va(2) by (auto simp: uspace_def pte_of_def q_def)
      moreover have "aligned (PTE2PA (pte_of (mem s) pt x))"
        using us upages_pte [OF x(2)] kpage_bounds(1) by (auto simp: uspace_def)
      ultimately show ?thesis
        using far by (simp add: page_offset same_page_def)
    qed
    ultimately show ?thesis by (simp add: ubyte_def pte)
  qed
qed

section \<open>copyout and copyin\<close>

lemma MAXVA_page: "y < MAXVA \<longleftrightarrow> unat y div 4096 < 67108864"
  by (simp add: word_less_nat_alt layout_nums div_less_iff_less_mult)

lemma page_eq_iff: "PGROUNDDOWN x = PGROUNDDOWN va \<longleftrightarrow> unat x div 4096 = unat va div 4096"
  by (simp add: word_unat_eq_iff unat_PGROUNDDOWN)

lemma ubyte_page:
  assumes "PGROUNDDOWN x = PGROUNDDOWN va"
  shows "ubyte m pt x = None \<longleftrightarrow> ubyte m pt va = None"
proof -
  have "x < MAXVA \<longleftrightarrow> va < MAXVA" using assms by (simp only: MAXVA_page page_eq_iff)
  then show ?thesis by (simp add: ubyte_def pte_of_def vpath_page [OF assms])
qed

lemma ubyte_mapped: "(\<And>x. pte_of m' pt x = pte_of m pt x) \<Longrightarrow> ubyte m' pt x = None \<longleftrightarrow> ubyte m pt x = None"
  by (simp add: ubyte_def)

lemma walkaddr_page:
  assumes "uspace s ps pt"
  shows "ubyte (mem s) pt va = None \<Longrightarrow> walkaddr pt (PGROUNDDOWN va) s = Inr (0, s)"
    and "ubyte (mem s) pt va \<noteq> None \<Longrightarrow> walkaddr pt (PGROUNDDOWN va) s = Inr (PTE2PA (pte_of (mem s) pt va), s) \<and>
      PTE2PA (pte_of (mem s) pt va) \<noteq> 0 \<and> kpage (kend s) (PTE2PA (pte_of (mem s) pt va)) \<and>
      va < MAXVA \<and> uaccess (pte_of (mem s) pt va)"
proof -
  have v: "PGROUNDDOWN va < MAXVA \<longleftrightarrow> va < MAXVA" "pte_of (mem s) pt (PGROUNDDOWN va) = pte_of (mem s) pt va"
    by (simp_all add: MAXVA_page unat_PGROUNDDOWN pte_of_def vpath_def)
  have ok: "pt_ok s ps pt" and e: "0 < kend s" using assms by (auto simp: uspace_def pt_ok_def kpool_def)
  show "walkaddr pt (PGROUNDDOWN va) s = Inr (0, s)" if "ubyte (mem s) pt va = None"
    using that by (auto simp: walkaddr_eq [OF ok] v ubyte_def split: if_splits)
  show "walkaddr pt (PGROUNDDOWN va) s = Inr (PTE2PA (pte_of (mem s) pt va), s) \<and>
      PTE2PA (pte_of (mem s) pt va) \<noteq> 0 \<and> kpage (kend s) (PTE2PA (pte_of (mem s) pt va)) \<and>
      va < MAXVA \<and> uaccess (pte_of (mem s) pt va)" if "ubyte (mem s) pt va \<noteq> None"
  proof -
    have u: "va < MAXVA" "uaccess (pte_of (mem s) pt va)" using that by (auto simp: ubyte_def split: if_splits)
    then have "kpage (kend s) (PTE2PA (pte_of (mem s) pt va))"
      using assms upages_pte by (auto simp: uspace_def)
    with u kpage_nonzero [OF this e] show ?thesis by (simp add: walkaddr_eq [OF ok] v)
  qed
qed

lemma unat_ucast_chunk: "0 < len \<Longrightarrow> unat (ucast (chunk va len) :: u32) = unat (chunk va len)"
  using chunk_bounds(3) [of len va] by (simp add: unsigned_ucast_eq take_bit_nat_eq_self)

lemma page_addr:
  assumes "kpage e q"
  shows "unat (q + (va - PGROUNDDOWN va)) = unat q + unat va mod 4096"
proof -
  have "unat q + unat va mod 4096 < 2 ^ 64"
    using kpage_bounds(3) [OF assms] mod_less_divisor [of 4096 "unat va"] by linarith
  then show ?thesis by (simp add: page_offset unat_add_of_nat)
qed

text \<open>One round of the copy loops: the bytes of this page, and what is left.\<close>

lemma range_split:
  fixes a n len :: u64
  assumes "unat n \<le> unat len"
  shows "unat (x - a) < unat len \<longleftrightarrow> unat (x - a) < unat n \<or> unat (x - (a + n)) < unat (len - n)"
    and "\<not> unat (x - a) < unat n \<or> \<not> unat (x - (a + n)) < unat (len - n)"
proof -
  define d where "d = x - a"
  have x: "x - (a + n) = d - n" by (simp add: d_def)
  show "unat (x - a) < unat len \<longleftrightarrow> unat (x - a) < unat n \<or> unat (x - (a + n)) < unat (len - n)"
    "\<not> unat (x - a) < unat n \<or> \<not> unat (x - (a + n)) < unat (len - n)"
    using assms u64_less [of len] u64_less [of d] u64_less [of n]
    unfolding x d_def [symmetric] by (auto simp: unat_sub_if')
qed

lemma all_split:
  fixes a n len :: u64
  assumes "unat n \<le> unat len"
  shows "(\<forall>i < unat len. P (a + of_nat i)) \<longleftrightarrow>
    (\<forall>i < unat n. P (a + of_nat i)) \<and> (\<forall>i < unat (len - n). P (a + n + of_nat i))"
proof -
  have "(\<forall>i < unat k. P (b + of_nat i)) \<longleftrightarrow> (\<forall>x. unat (x - b) < unat k \<longrightarrow> P x)" for b k :: u64
  proof (intro iffI allI impI)
    fix x assume "\<forall>i < unat k. P (b + of_nat i)" "unat (x - b) < unat k"
    then have "P (b + of_nat (unat (x - b)))" by blast
    then show "P x" by simp
  next
    fix i assume "\<forall>x. unat (x - b) < unat k \<longrightarrow> P x" "i < unat k"
    moreover from this have "unat (b + of_nat i - b) = i" using u64_less [of k] by (simp add: unat_of_nat_u64)
    ultimately show "P (b + of_nat i)" by metis
  qed
  then show ?thesis using range_split [OF assms, of _ a] by auto
qed

lemma chunk_next:
  assumes "0 < len" and "chunk va len \<noteq> len"
  shows "PGROUNDDOWN va + PGSZ = va + chunk va len"
proof -
  have "unat (va - PGROUNDDOWN va) + unat (chunk va len) = 4096"
    using chunk_bounds(5) [OF assms] .
  then have "of_nat (unat (va - PGROUNDDOWN va) + unat (chunk va len)) = (4096 :: u64)" by simp
  then have "PGROUNDDOWN va + ((va - PGROUNDDOWN va) + chunk va len) = PGROUNDDOWN va + 4096" by simp
  then show ?thesis by (simp add: add.assoc [symmetric])
qed

lemma ubyte_near:
  assumes "ubyte m pt va \<noteq> None" and "unat d + unat va mod 4096 < 4096"
  shows "ubyte m pt (va + d) = Some (m (PTE2PA (pte_of m pt va) + (va - PGROUNDDOWN va) + d))"
proof -
  have va: "va < MAXVA" "uaccess (pte_of m pt va)" using assms(1) by (auto simp: ubyte_def split: if_splits)
  have pg: "PGROUNDDOWN (va + d) = PGROUNDDOWN va"
    using same_page_near [of "va + d" va] assms(2) va(1) by simp
  have "va + d < MAXVA" using va(1) pg by (simp add: MAXVA_page page_eq_iff)
  moreover have "pte_of m pt (va + d) = pte_of m pt va" by (simp add: pte_of_def vpath_page [OF pg])
  moreover have "PTE2PA p + (va + d - PGROUNDDOWN va) = PTE2PA p + (va - PGROUNDDOWN va) + d" for p by simp
  ultimately show ?thesis using va by (simp only: ubyte_def pg simp_thms if_True)
qed

lemma chunk_mapped:
  assumes "0 < len" and "ubyte m pt va \<noteq> None" and "i < unat (chunk va len)"
  shows "ubyte m pt (va + of_nat i) \<noteq> None"
proof -
  have "i < 4096" using assms(3) chunk_bounds(3) [OF assms(1), of va] by linarith
  then have "unat (va + of_nat i - va) + unat va mod 4096 < 4096"
    using assms(3) chunk_bounds(3,4) [OF assms(1), of va] by (simp add: unat_of_nat_u64)
  moreover have "va < MAXVA" using assms(2) by (auto simp: ubyte_def split: if_splits)
  ultimately have "PGROUNDDOWN (va + of_nat i) = PGROUNDDOWN va" by (rule same_page_near)
  from ubyte_page [OF this, of m pt] assms(2) show ?thesis by simp
qed

definition umapped :: "mem \<Rightarrow> u64 \<Rightarrow> u64 \<Rightarrow> u64 \<Rightarrow> bool" where
  "umapped m pt va len \<longleftrightarrow> (\<forall>i < unat len. ubyte m pt (va + of_nat i) \<noteq> None)"

lemma umapped_first: "0 < len \<Longrightarrow> umapped m pt va len \<Longrightarrow> ubyte m pt va \<noteq> None"
  by (auto simp: umapped_def word_less_nat_alt dest: spec [of _ 0])

lemma umapped_rest:
  assumes "0 < len" and "ubyte m pt va \<noteq> None" and "\<And>x. ubyte m' pt x = None \<longleftrightarrow> ubyte m pt x = None"
  shows "umapped m pt va len \<longleftrightarrow> umapped m' pt (PGROUNDDOWN va + PGSZ) (len - chunk va len)"
proof (cases "chunk va len = len")
  case True
  with chunk_mapped [OF assms(1,2)] show ?thesis by (auto simp: umapped_def)
next
  case False
  show ?thesis
    using all_split [OF chunk_bounds(2) [OF assms(1), of va], of "\<lambda>x. ubyte m pt x \<noteq> None" va]
      chunk_mapped [OF assms(1,2)] assms(3)
    unfolding umapped_def chunk_next [OF assms(1) False] by blast
qed

definition user_frame :: "u64 \<Rightarrow> 'a kst_scheme \<Rightarrow> u64 list \<Rightarrow> 'a kst_scheme \<Rightarrow> bool" where
  "user_frame pt s ps s' \<longleftrightarrow> uspace s' ps pt \<and> krest s' = krest s \<and> upages (mem s') pt = upages (mem s) pt \<and>
     tables (ent (mem s')) pt = tables (ent (mem s)) pt"

lemma user_frame_trans: "user_frame pt s ps s1 \<Longrightarrow> user_frame pt s1 ps s2 \<Longrightarrow> user_frame pt s ps s2"
  by (simp add: user_frame_def)

lemma copyout_ok:
  assumes "uspace s ps pt" and "unat src + unat len \<le> 2 ^ 64"
    and "\<And>x q. unat (x - src) < unat len \<Longrightarrow> q \<in> upages (mem s) pt \<Longrightarrow> 4096 \<le> unat (x - q)"
  shows "\<exists>r s'. copyout pt dstva src len s = Inr (r, s') \<and> user_frame pt s ps s' \<and>
    (\<forall>x. (\<forall>q\<in>upages (mem s) pt. 4096 \<le> unat (x - q)) \<longrightarrow> mem s' x = mem s x) \<and>
    (if umapped (mem s) pt dstva len
     then r = 0 \<and> (\<forall>x. ubyte (mem s') pt x =
       (if unat (x - dstva) < unat len then Some (mem s (src + (x - dstva))) else ubyte (mem s) pt x))
     else r = - 1)"
  using assms
proof (induction "unat len" arbitrary: len dstva src s rule: less_induct)
  case less
  show ?case
  proof (cases "0 < len")
    case False
    then have "len = 0" by (simp add: word_gt_0)
    then show ?thesis using less.prems(1)
      by (auto simp: copyout.simps [of _ dstva] user_frame_def umapped_def)
  next
    case len: True
    show ?thesis
    proof (cases "ubyte (mem s) pt dstva = None")
      case True
      then show ?thesis
        using less.prems(1) len walkaddr_page(1) [OF less.prems(1) True] umapped_first [OF len, of "mem s" pt dstva]
        by (auto simp: copyout.simps [of _ dstva] user_frame_def Let_def)
    next
      case False
      let ?n = "chunk dstva len" and ?q = "PTE2PA (pte_of (mem s) pt dstva)"
      let ?o = "dstva - PGROUNDDOWN dstva"
      note w = walkaddr_page(2) [OF less.prems(1) False]
      note cb = chunk_bounds [OF len, of dstva]
      define bs where "bs = mem_read (mem s) src (unat ?n)"
      define s1 where "s1 = s\<lparr>mem := mem_write (mem s) (?q + ?o) bs\<rparr>"
      have bs: "length bs = unat ?n" "0 < length bs" "unat dstva mod 4096 + length bs \<le> 4096"
        using cb by (simp_all add: bs_def)
      have mv: "memmove (?q + ?o) src (ucast ?n) (mem s) = mem s1"
      proof -
        have "unat (?q + ?o) + unat ?n \<le> 2 ^ 64"
          using w page_addr [of "kend s" ?q dstva] kpage_bounds(3) [of "kend s" ?q] bs by simp
        then show ?thesis
          using memmove_eq [of src "ucast ?n" "?q + ?o" "mem s"] less.prems(2) cb(2)
          by (simp add: unat_ucast_chunk [OF len] s1_def bs_def)
      qed
      have u: "user_frame pt s ps s1" and pte: "pte_of (mem s1) pt x = pte_of (mem s) pt x"
        and ub: "ubyte (mem s1) pt x = (if unat (x - dstva) < unat ?n then Some (bs ! unat (x - dstva)) else ubyte (mem s) pt x)"
        and fr: "(\<And>q. q \<in> upages (mem s) pt \<Longrightarrow> 4096 \<le> unat (x - q)) \<Longrightarrow> mem s1 x = mem s x" for x
        using uwrite [OF less.prems(1) _ _ bs(2,3)] w by (simp_all add: s1_def user_frame_def bs(1))
      have run: "copyout pt dstva src len s = copyout pt (PGROUNDDOWN dstva + PGSZ) (src + ?n) (len - ?n) s1"
        using len w mv by (simp add: copyout.simps [of _ dstva] Let_def s1_def)
      have src_s1: "mem s1 x = mem s x" if "unat (x - src) < unat len" for x
        using fr less.prems(3) that by blast
      have up: "upages (mem s1) pt = upages (mem s) pt" using u by (simp add: user_frame_def)
      have "\<exists>r s'. copyout pt (PGROUNDDOWN dstva + PGSZ) (src + ?n) (len - ?n) s1 = Inr (r, s') \<and> user_frame pt s1 ps s' \<and>
        (\<forall>x. (\<forall>q\<in>upages (mem s1) pt. 4096 \<le> unat (x - q)) \<longrightarrow> mem s' x = mem s1 x) \<and>
        (if umapped (mem s1) pt (PGROUNDDOWN dstva + PGSZ) (len - ?n)
         then r = 0 \<and> (\<forall>x. ubyte (mem s') pt x =
           (if unat (x - (PGROUNDDOWN dstva + PGSZ)) < unat (len - ?n)
            then Some (mem s1 (src + ?n + (x - (PGROUNDDOWN dstva + PGSZ)))) else ubyte (mem s1) pt x))
         else r = - 1)"
      proof (rule less.hyps)
        show "unat (len - ?n) < unat len" using len by (rule chunk_less)
        show "uspace s1 ps pt" using u by (simp add: user_frame_def)
        have "unat (src + ?n) \<le> unat src + unat ?n" by (simp add: unat_word_ariths(1))
        moreover have "unat (len - ?n) = unat len - unat ?n" using cb(2) by (simp add: unat_sub_if')
        ultimately show "unat (src + ?n) + unat (len - ?n) \<le> 2 ^ 64" using less.prems(2) cb(2) by linarith
        show "4096 \<le> unat (x - q)" if "unat (x - (src + ?n)) < unat (len - ?n)" "q \<in> upages (mem s1) pt" for x q
          using less.prems(3) range_split(1) [OF cb(2), of x src] that up by simp
      qed
      then obtain r s' where r: "copyout pt (PGROUNDDOWN dstva + PGSZ) (src + ?n) (len - ?n) s1 = Inr (r, s')"
        "user_frame pt s1 ps s'"
        "\<And>x. (\<forall>q\<in>upages (mem s) pt. 4096 \<le> unat (x - q)) \<Longrightarrow> mem s' x = mem s1 x"
        "if umapped (mem s) pt dstva len
         then r = 0 \<and> (\<forall>x. ubyte (mem s') pt x =
           (if unat (x - (PGROUNDDOWN dstva + PGSZ)) < unat (len - ?n)
            then Some (mem s1 (src + ?n + (x - (PGROUNDDOWN dstva + PGSZ)))) else ubyte (mem s1) pt x))
         else r = - 1"
        unfolding up umapped_rest [OF len False ubyte_mapped [OF pte], symmetric] by blast
      have bsk: "bs ! unat (x - dstva) = mem s (src + (x - dstva))" if "unat (x - dstva) < unat ?n" for x
        using that by (simp add: bs_def mem_read_def)
      have all: "ubyte (mem s') pt x =
          (if unat (x - dstva) < unat len then Some (mem s (src + (x - dstva))) else ubyte (mem s) pt x)"
        if "umapped (mem s) pt dstva len" for x
      proof (cases "?n = len")
        case True
        with r(4) that ub [of x] bsk [of x] show ?thesis by simp
      next
        case nl: False
        have d: "src + ?n + (x - (dstva + ?n)) = src + (x - dstva)" by simp
        have "mem s1 (src + (x - dstva)) = mem s (src + (x - dstva))" if "unat (x - dstva) < unat len"
          using src_s1 [of "src + (x - dstva)"] that by simp
        with r(4) that ub [of x] bsk [of x] range_split [OF cb(2), of x dstva] show ?thesis
          unfolding chunk_next [OF len nl] d by auto
      qed
      have "mem s' x = mem s x" if "\<forall>q\<in>upages (mem s) pt. 4096 \<le> unat (x - q)" for x
        using r(3) [OF that] fr [of x] that by simp
      with run r(1,4) all user_frame_trans [OF u r(2)] show ?thesis by (auto split: if_splits)
    qed
  qed
qed

text \<open>Kernel memory that belongs to neither the table, its user pages nor the free list.\<close>

definition kernel_buf :: "'a kst_scheme \<Rightarrow> u64 list \<Rightarrow> u64 \<Rightarrow> u64 \<Rightarrow> u64 \<Rightarrow> bool" where
  "kernel_buf s ps pt a len \<longleftrightarrow> unat a + unat len \<le> 2 ^ 64 \<and>
     (\<forall>x. unat (x - a) < unat len \<longrightarrow>
       (\<forall>q \<in> tables (ent (mem s)) pt \<union> set ps \<union> upages (mem s) pt. 4096 \<le> unat (x - q)))"

lemma kernel_bufD:
  "kernel_buf s ps pt a len \<Longrightarrow> unat (x - a) < unat len \<Longrightarrow>
   q \<in> tables (ent (mem s)) pt \<union> set ps \<union> upages (mem s) pt \<Longrightarrow> 4096 \<le> unat (x - q)"
  unfolding kernel_buf_def by blast

lemma kernel_write:
  assumes us: "uspace s ps pt" and kb: "kernel_buf s ps pt a len"
    and m': "\<And>x. unat len \<le> unat (x - a) \<Longrightarrow> m' x = mem s x"
  shows "user_frame pt s ps (s\<lparr>mem := m'\<rparr>)" "\<And>x. ubyte m' pt x = ubyte (mem s) pt x"
proof -
  have same: "same_page (mem s) m' q" if "q \<in> tables (ent (mem s)) pt \<union> set ps \<union> upages (mem s) pt" for q
  proof (rule same_pageI)
    fix x assume "unat (x - q) < 4096"
    then have "\<not> unat (x - a) < unat len" using kernel_bufD [OF kb _ that, of x] by linarith
    then show "m' x = mem s x" using m' by simp
  qed
  note ag = uspace_agree [OF us, of m'] 
  show "user_frame pt s ps (s\<lparr>mem := m'\<rparr>)"
    using ag same by (simp add: user_frame_def)
  show "ubyte m' pt x = ubyte (mem s) pt x" for x
  proof -
    have pte: "pte_of m' pt x = pte_of (mem s) pt x" using ag(4) same by simp
    have "m' (PTE2PA (pte_of (mem s) pt x) + (x - PGROUNDDOWN x)) = mem s (PTE2PA (pte_of (mem s) pt x) + (x - PGROUNDDOWN x))"
      if "uaccess (pte_of (mem s) pt x)"
      using same [of "PTE2PA (pte_of (mem s) pt x)"] upages_pte [OF that] by (simp add: page_offset same_page_def)
    then show ?thesis by (simp add: ubyte_def pte)
  qed
qed

lemma kernel_buf_sub:
  assumes "kernel_buf s ps pt a len" and "unat n \<le> unat len" and "user_frame pt s ps s'"
  shows "kernel_buf s' ps pt (a + n) (len - n)"
proof -
  have "unat (a + n) \<le> unat a + unat n" by (simp add: unat_word_ariths(1))
  moreover have "unat (len - n) = unat len - unat n" using assms(2) by (simp add: unat_sub_if')
  ultimately have "unat (a + n) + unat (len - n) \<le> 2 ^ 64"
    using assms(1,2) unfolding kernel_buf_def by linarith
  with assms range_split(1) [OF assms(2), of _ a] show ?thesis by (auto simp: kernel_buf_def user_frame_def)
qed

lemma copyin_ok:
  assumes "uspace s ps pt" and "kernel_buf s ps pt dst len"
  shows "\<exists>r s'. copyin pt dst srcva len s = Inr (r, s') \<and> user_frame pt s ps s' \<and>
    (\<forall>x. ubyte (mem s') pt x = ubyte (mem s) pt x) \<and> (\<forall>x. unat len \<le> unat (x - dst) \<longrightarrow> mem s' x = mem s x) \<and>
    (if umapped (mem s) pt srcva len
     then r = 0 \<and> (\<forall>x. unat (x - dst) < unat len \<longrightarrow> Some (mem s' x) = ubyte (mem s) pt (srcva + (x - dst)))
     else r = - 1)"
  using assms
proof (induction "unat len" arbitrary: len dst srcva s rule: less_induct)
  case less
  show ?case
  proof (cases "0 < len")
    case False
    then have "len = 0" by (simp add: word_gt_0)
    then show ?thesis using less.prems(1)
      by (auto simp: copyin.simps [of _ dst] user_frame_def umapped_def)
  next
    case len: True
    show ?thesis
    proof (cases "ubyte (mem s) pt srcva = None")
      case True
      then show ?thesis
        using less.prems(1) len walkaddr_page(1) [OF less.prems(1) True] umapped_first [OF len, of "mem s" pt srcva]
        by (auto simp: copyin.simps [of _ dst] user_frame_def Let_def)
    next
      case False
      let ?n = "chunk srcva len" and ?q = "PTE2PA (pte_of (mem s) pt srcva)"
      let ?o = "srcva - PGROUNDDOWN srcva" and ?va = "PGROUNDDOWN srcva + PGSZ"
      note w = walkaddr_page(2) [OF less.prems(1) False]
      note cb = chunk_bounds [OF len, of srcva]
      define s1 where "s1 = s\<lparr>mem := mem_write (mem s) dst (mem_read (mem s) (?q + ?o) (unat ?n))\<rparr>"
      have "unat (?q + ?o) + unat ?n \<le> 2 ^ 64"
        using w page_addr [of "kend s" ?q srcva] kpage_bounds(3) [of "kend s" ?q] cb(3,4) by simp
      moreover have "unat dst + unat ?n \<le> 2 ^ 64" using less.prems(2) cb(2) by (simp add: kernel_buf_def)
      ultimately have mv: "memmove dst (?q + ?o) (ucast ?n) (mem s) = mem s1"
        using memmove_eq [of "?q + ?o" "ucast ?n" dst "mem s"]
        by (simp add: unat_ucast_chunk [OF len] s1_def)
      have run: "copyin pt dst srcva len s = copyin pt (dst + ?n) ?va (len - ?n) s1"
        using len w mv by (simp add: copyin.simps [of _ dst] Let_def s1_def)
      have far: "mem s1 x = mem s x" if "unat ?n \<le> unat (x - dst)" for x
        using that by (simp add: s1_def mem_write_other)
      have s1u: "user_frame pt s ps s1" "ubyte (mem s1) pt x = ubyte (mem s) pt x" for x
        using kernel_write [OF less.prems, of "mem s1"] far cb(2) by (auto simp: s1_def)
      have us1: "uspace s1 ps pt" using s1u(1) by (simp add: user_frame_def)
      have umapped_s1: "umapped (mem s1) pt ?va (len - ?n) = umapped (mem s) pt srcva len"
        using umapped_rest [OF len False, of "mem s1"] s1u(2) by simp
      have near: "Some (mem s1 x) = ubyte (mem s) pt (srcva + (x - dst))" if "unat (x - dst) < unat ?n" for x
        using ubyte_near [OF False, of "x - dst"] that cb(3,4) by (simp add: s1_def mem_write_def mem_read_def)
      obtain r s' where r: "copyin pt (dst + ?n) ?va (len - ?n) s1 = Inr (r, s')" "user_frame pt s1 ps s'"
        "\<And>x. ubyte (mem s') pt x = ubyte (mem s) pt x"
        "\<And>x. unat (len - ?n) \<le> unat (x - (dst + ?n)) \<Longrightarrow> mem s' x = mem s1 x"
        "if umapped (mem s) pt srcva len
         then r = 0 \<and> (\<forall>x. unat (x - (dst + ?n)) < unat (len - ?n) \<longrightarrow>
           Some (mem s' x) = ubyte (mem s) pt (?va + (x - (dst + ?n))))
         else r = - 1"
        using less.hyps [OF chunk_less [OF len] us1 kernel_buf_sub [OF less.prems(2) cb(2) s1u(1)], of ?va]
        unfolding s1u(2) umapped_s1 by (elim exE conjE) (rule that, blast+)
      have out: "mem s' x = mem s x" if "unat len \<le> unat (x - dst)" for x
        using that r(4) [of x] far [of x] range_split(1) [OF cb(2), of x dst] by auto
      have all: "Some (mem s' x) = ubyte (mem s) pt (srcva + (x - dst))"
        if "umapped (mem s) pt srcva len" "unat (x - dst) < unat len" for x
      proof (cases "unat (x - dst) < unat ?n")
        case True
        with range_split(2) [OF cb(2), of x dst] r(4) [of x] near [of x] show ?thesis by simp
      next
        case far: False
        with that(2) range_split(1) [OF cb(2), of x dst] have d: "unat (x - (dst + ?n)) < unat (len - ?n)" by simp
        then have "?n \<noteq> len" by auto
        with r(5) that(1) d chunk_next [OF len] show ?thesis by simp
      qed
      show ?thesis
        using run r(1,3,5) out all user_frame_trans [OF s1u(1) r(2)] by (auto split: if_splits)
    qed
  qed
qed

section \<open>Properties\<close>

text \<open>
  (C4) \<open>copyout\<close> returns 0 exactly when every byte of the destination range is mapped for
  the user, and then a user program reads there the bytes of the kernel buffer, across page
  boundaries, with every other user byte as before.  Otherwise it returns \<open>-1\<close>.  In both
  cases it writes only to pages of that user.
\<close>

theorem copyout_writes_user:
  assumes "uspace s ps pt" and "unat src + unat len \<le> 2 ^ 64"
    and "\<forall>q\<in>upages (mem s) pt. \<forall>x. unat (x - src) < unat len \<longrightarrow> 4096 \<le> unat (x - q)"
  shows "\<exists>r s'. copyout pt dstva src len s = Inr (r, s') \<and> uspace s' ps pt \<and> krest s' = krest s \<and>
    (\<forall>x. (\<forall>q\<in>upages (mem s) pt. 4096 \<le> unat (x - q)) \<longrightarrow> mem s' x = mem s x) \<and>
    (if umapped (mem s) pt dstva len
     then r = 0 \<and> (\<forall>x. ubyte (mem s') pt x =
       (if unat (x - dstva) < unat len then Some (mem s (src + (x - dstva))) else ubyte (mem s) pt x))
     else r = - 1)"
proof -
  have "\<exists>r s'. copyout pt dstva src len s = Inr (r, s') \<and> user_frame pt s ps s' \<and>
    (\<forall>x. (\<forall>q\<in>upages (mem s) pt. 4096 \<le> unat (x - q)) \<longrightarrow> mem s' x = mem s x) \<and>
    (if umapped (mem s) pt dstva len
     then r = 0 \<and> (\<forall>x. ubyte (mem s') pt x =
       (if unat (x - dstva) < unat len then Some (mem s (src + (x - dstva))) else ubyte (mem s) pt x))
     else r = - 1)"
    using assms(3) by (intro copyout_ok [OF assms(1,2)]) simp
  then show ?thesis
    by (elim exE conjE) (rule exI, rule exI, intro conjI; (assumption | simp add: user_frame_def))
qed

text \<open>
  (C5) \<open>copyin\<close> returns 0 exactly when every byte of the source range is mapped for the
  user, and then the kernel buffer holds the bytes the user program sees there.  Otherwise it
  returns \<open>-1\<close>.  It writes nothing outside the buffer and leaves the address space alone.
\<close>

theorem copyin_reads_user:
  assumes "uspace s ps pt" and "kernel_buf s ps pt dst len"
  shows "\<exists>r s'. copyin pt dst srcva len s = Inr (r, s') \<and> uspace s' ps pt \<and> krest s' = krest s \<and>
    (\<forall>x. ubyte (mem s') pt x = ubyte (mem s) pt x) \<and> (\<forall>x. unat len \<le> unat (x - dst) \<longrightarrow> mem s' x = mem s x) \<and>
    (if umapped (mem s) pt srcva len
     then r = 0 \<and> (\<forall>x. unat (x - dst) < unat len \<longrightarrow> Some (mem s' x) = ubyte (mem s) pt (srcva + (x - dst)))
     else r = - 1)"
  using copyin_ok [OF assms, of srcva]
  by (elim exE conjE) (rule exI, rule exI, intro conjI; (assumption | simp add: user_frame_def))

lemma demo_upages: "upages demo_mem 0x80030000 = {0x80033000}"
proof -
  have "[0, 0, 0] \<in> lpaths" by (simp add: lpaths_def)
  then show ?thesis
    by (auto simp: upages_def leaf_demo uaccess_def PTE_bits demo_entries split: if_splits intro!: exI [of _ "[0, 0, 0]"])
qed

lemma demo_uspace: "uspace demo_vm [0x80040000] 0x80030000"
proof -
  have "mem demo_vm = demo_mem" "kend demo_vm = 0x80020000" by (simp_all add: demo_vm_def)
  then show ?thesis
    using demo_pt_ok demo_upages demo_ptree(2)
    by (auto simp: uspace_def leaf_demo uaccess_def kpage_def aligned_def layout_nums split: if_splits)
qed

lemma demo_umapped: "umapped demo_mem 0x80030000 16 100"
  unfolding umapped_def
proof (intro allI impI)
  fix i assume "i < unat (100 :: u64)"
  then have "unat (16 + of_nat i :: u64) = 16 + i" using unat_add_of_nat [of 16 i] by simp
  with \<open>i < unat 100\<close> show "ubyte demo_mem 0x80030000 (16 + of_nat i) \<noteq> None"
    by (simp add: ubyte_def pte_of_demo word_less_nat_alt layout_nums uaccess_def PTE_bits)
qed

lemma demo_far:
  fixes x q :: u64
  assumes "unat (x - 0x80010000) < 100" and "0x80030000 \<le> unat q" and "unat q \<le> 0x80040000"
  shows "4096 \<le> unat (x - q)"
proof -
  define d where "d = unat (x - 0x80010000)"
  have "x = 0x80010000 + of_nat d" by (simp add: d_def)
  then have "unat x = 0x80010000 + d"
    using assms(1) unat_add_of_nat [of "0x80010000" d] by (simp add: d_def)
  moreover have "d < 100" using assms(1) by (simp add: d_def)
  ultimately have "unat x < unat q" "unat x + 2 ^ 64 - unat q \<ge> 4096" using assms(2,3) by simp_all
  then show ?thesis by (simp add: unat_sub_if')
qed

theorem copyout_writes_user_witness:
  "\<exists>r s'. copyout 0x80030000 16 0x80010000 100 demo_vm = Inr (r, s') \<and> r = 0 \<and>
     ubyte (mem s') 0x80030000 20 = Some (mem demo_vm 0x80010004)"
proof -
  have m: "mem demo_vm = demo_mem" by (simp add: demo_vm_def)
  have "\<forall>q\<in>upages (mem demo_vm) 0x80030000. \<forall>x. unat (x - 0x80010000) < unat (100 :: u64) \<longrightarrow> 4096 \<le> unat (x - q)"
    by (auto simp: m demo_upages intro!: demo_far)
  from copyout_writes_user [OF demo_uspace _ this, of 16] obtain r s' where
    "copyout 0x80030000 16 0x80010000 100 demo_vm = Inr (r, s')" "r = 0"
    "\<forall>x. ubyte (mem s') 0x80030000 x = (if unat (x - 16) < unat (100 :: u64)
       then Some (mem demo_vm (0x80010000 + (x - 16))) else ubyte (mem demo_vm) 0x80030000 x)"
    using demo_umapped by (auto simp: m)
  then show ?thesis by (intro exI [of _ r] exI [of _ s']) simp
qed

theorem copyin_reads_user_witness:
  "\<exists>r s'. copyin 0x80030000 0x80010000 16 100 demo_vm = Inr (r, s') \<and> r = 0 \<and>
     Some (mem s' 0x80010004) = ubyte (mem demo_vm) 0x80030000 20"
proof -
  have m: "mem demo_vm = demo_mem" by (simp add: demo_vm_def)
  have "kernel_buf demo_vm [0x80040000] 0x80030000 0x80010000 100"
    unfolding kernel_buf_def
  proof (intro conjI allI impI ballI)
    fix x q :: u64
    assume x: "unat (x - 0x80010000) < unat (100 :: u64)"
      and q: "q \<in> tables (ent (mem demo_vm)) 0x80030000 \<union> set [0x80040000] \<union> upages (mem demo_vm) 0x80030000"
    have "q = 0x80030000 \<or> q = 0x80031000 \<or> q = 0x80032000 \<or> q = 0x80040000 \<or> q = 0x80033000"
      using q by (simp add: m demo_upages demo_ptree) blast
    then have "0x80030000 \<le> unat q \<and> unat q \<le> 0x80040000" by auto
    with x show "4096 \<le> unat (x - q)" by (intro demo_far) simp_all
  qed simp
  from copyin_reads_user [OF demo_uspace this, of 16] obtain r s' where
    "copyin 0x80030000 0x80010000 16 100 demo_vm = Inr (r, s')" "r = 0"
    "\<forall>x. unat (x - 0x80010000) < unat (100 :: u64) \<longrightarrow> Some (mem s' x) = ubyte (mem demo_vm) 0x80030000 (16 + (x - 0x80010000))"
    using demo_umapped by (auto simp: m)
  then show ?thesis by (intro exI [of _ r] exI [of _ s']) simp
qed

end
