(* ===== verification/Ucopy.thy ===== *)
theory Ucopy
  imports Uspace
begin

text \<open>
  \<open>copyout\<close>, \<open>copyin\<close> and \<open>copyinstr\<close> of \<open>kernel/vm.c\<close> for kernel objects that the model
  holds as values (a local variable, a disk buffer, a directory entry): the kernel side is a list
  of bytes in place of an address.  Where the kernel side is in memory, the two forms agree.
  \<open>copyinb\<close> returns the result of \<open>copyin\<close> and the bytes that reached the destination, also
  when it fails part of the way.
\<close>

section \<open>Definitions\<close>

definition page_left :: "u64 \<Rightarrow> nat" where
  "page_left va = 4096 - unat (va - PGROUNDDOWN va)"

lemma page_left_pos: "0 < page_left va"
  using chunk_bounds(4) [of 1 va] by (simp add: page_left_def)

function copyoutb :: "u64 \<Rightarrow> u64 \<Rightarrow> u8 list \<Rightarrow> 'a kst_scheme \<Rightarrow> (int \<times> 'a kst_scheme) res" where
  "copyoutb pagetable dstva src s =
     (if src = [] then Inr (0, s)
      else let va0 = PGROUNDDOWN dstva in
        bindR (walkaddr pagetable va0 s) (\<lambda>(pa0, s).
          if pa0 = 0 then Inr (- 1, s)
          else let n = min (page_left dstva) (length src);
                   s = s\<lparr>mem := mem_write (mem s) (pa0 + (dstva - va0)) (take n src)\<rparr> in
            copyoutb pagetable (va0 + PGSZ) (drop n src) s))"
  by pat_completeness auto

termination
  by (relation "measure (\<lambda>(_, _, src, _). length src)") (auto simp: page_left_pos)

function copyinb :: "u64 \<Rightarrow> u64 \<Rightarrow> nat \<Rightarrow> 'a kst_scheme \<Rightarrow> ((int \<times> u8 list) \<times> 'a kst_scheme) res" where
  "copyinb pagetable srcva len s =
     (if len = 0 then Inr ((0, []), s)
      else let va0 = PGROUNDDOWN srcva in
        bindR (walkaddr pagetable va0 s) (\<lambda>(pa0, s).
          if pa0 = 0 then Inr ((- 1, []), s)
          else let n = min (page_left srcva) len;
                   bs = mem_read (mem s) (pa0 + (srcva - va0)) n in
            bindR (copyinb pagetable (va0 + PGSZ) (len - n) s) (\<lambda>((r, rest), s). Inr ((r, bs @ rest), s))))"
  by pat_completeness auto

termination
  by (relation "measure (\<lambda>(_, _, len, _). len)") (auto simp: page_left_pos)

text \<open>The characters before the NUL, or \<open>None\<close> when there is none among the first \<open>mx\<close>.\<close>

function copyinstrb :: "u64 \<Rightarrow> u64 \<Rightarrow> nat \<Rightarrow> 'a kst_scheme \<Rightarrow> (u8 list option \<times> 'a kst_scheme) res" where
  "copyinstrb pagetable srcva mx s =
     (if mx = 0 then Inr (None, s)
      else let va0 = PGROUNDDOWN srcva in
        bindR (walkaddr pagetable va0 s) (\<lambda>(pa0, s).
          if pa0 = 0 then Inr (None, s)
          else let n = min (page_left srcva) mx;
                   bs = mem_read (mem s) (pa0 + (srcva - va0)) n in
            if 0 \<in> set bs then Inr (Some (takeWhile (\<lambda>b. b \<noteq> 0) bs), s)
            else bindR (copyinstrb pagetable (va0 + PGSZ) (mx - n) s) (\<lambda>(r, s). Inr (map_option ((@) bs) r, s))))"
  by pat_completeness auto

termination
  by (relation "measure (\<lambda>(_, _, mx, _). mx)") (auto simp: page_left_pos)

declare copyoutb.simps [simp del] copyinb.simps [simp del] copyinstrb.simps [simp del]

section \<open>Agreement with the memory-to-memory copies\<close>

lemma unat_chunk: "0 < len \<Longrightarrow> unat (chunk va len) = min (page_left va) (unat len)"
proof -
  assume len: "0 < len"
  have "unat (PGSZ - (va - PGROUNDDOWN va)) = page_left va"
    using chunk_bounds(4) [OF len, of va] by (simp add: page_left_def unat_sub_if')
  then show ?thesis by (auto simp: chunk_def Let_def word_less_nat_alt min_def)
qed

lemma mem_read_drop: "n \<le> k \<Longrightarrow> drop n (mem_read m a k) = mem_read m (a + of_nat n) (k - n)"
  by (rule nth_equalityI) (simp_all add: add.assoc)

lemma mem_read_take: "n \<le> k \<Longrightarrow> take n (mem_read m a k) = mem_read m a n"
  by (rule nth_equalityI) simp_all

lemma mem_read_cong: "(\<And>i. i < k \<Longrightarrow> m' (a + of_nat i) = m (a + of_nat i)) \<Longrightarrow> mem_read m' a k = mem_read m a k"
  by (rule nth_equalityI) simp_all

lemma mem_read_rest:
  assumes "unat n \<le> unat len" and "\<And>x. unat (x - src) < unat len \<Longrightarrow> m' x = m x"
  shows "mem_read m' (src + n) (unat (len - n)) = drop (unat n) (mem_read m src (unat len))"
proof -
  have "mem_read m' (src + n) (unat (len - n)) = mem_read m (src + n) (unat (len - n))"
  proof (rule mem_read_cong)
    fix i assume i: "i < unat (len - n)"
    then have "unat (src + n + of_nat i - (src + n)) < unat (len - n)"
      using u64_less [of "len - n"] by (simp add: unat_of_nat_u64)
    then have "unat (src + n + of_nat i - src) < unat len"
      using range_split(1) [OF assms(1), of "src + n + of_nat i" src] by blast
    then show "m' (src + n + of_nat i) = m (src + n + of_nat i)" by (rule assms(2))
  qed
  then show ?thesis using assms(1) by (simp add: mem_read_drop unat_sub_if')
qed

text \<open>The first round of \<open>copyout\<close> as a write of bytes into one user page.\<close>

lemma copyout_round:
  assumes us: "uspace s ps pt" and len: "0 < len" and ub: "ubyte (mem s) pt dstva \<noteq> None"
    and fits: "unat src + unat len \<le> 2 ^ 64"
  defines "n \<equiv> chunk dstva len" and "q \<equiv> PTE2PA (pte_of (mem s) pt dstva)"
    and "off \<equiv> dstva - PGROUNDDOWN dstva"
  defines "s1 \<equiv> s\<lparr>mem := mem_write (mem s) (q + off) (mem_read (mem s) src (unat n))\<rparr>"
  shows "copyout pt dstva src len s = copyout pt (PGROUNDDOWN dstva + PGSZ) (src + n) (len - n) s1"
    and "user_frame pt s ps s1"
    and "\<And>x. (\<And>q. q \<in> upages (mem s) pt \<Longrightarrow> 4096 \<le> unat (x - q)) \<Longrightarrow> mem s1 x = mem s x"
proof -
  note w = walkaddr_page(2) [OF us ub]
  note cb = chunk_bounds [OF len, of dstva]
  let ?bs = "mem_read (mem s) src (unat n)"
  have bs: "length ?bs = unat n" "0 < length ?bs" "unat dstva mod 4096 + length ?bs \<le> 4096"
    using cb by (simp_all add: n_def)
  have "unat (q + off) + unat n \<le> 2 ^ 64"
    using w page_addr [of "kend s" q dstva] kpage_bounds(3) [of "kend s" q] bs by (simp add: q_def off_def)
  then have "memmove (q + off) src (ucast n) (mem s) = mem s1"
    using memmove_eq [of src "ucast n" "q + off" "mem s"] fits cb(2)
    by (simp add: unat_ucast_chunk [OF len] s1_def n_def)
  then show "copyout pt dstva src len s = copyout pt (PGROUNDDOWN dstva + PGSZ) (src + n) (len - n) s1"
    using len w by (simp add: copyout.simps [of _ dstva] Let_def s1_def n_def q_def off_def)
  show "user_frame pt s ps s1"
    and "\<And>x. (\<And>q. q \<in> upages (mem s) pt \<Longrightarrow> 4096 \<le> unat (x - q)) \<Longrightarrow> mem s1 x = mem s x"
    using uwrite [OF us _ _ bs(2,3)] w by (simp_all add: s1_def user_frame_def bs(1) q_def off_def)
qed



section \<open>Reading user memory\<close>

definition urange :: "mem \<Rightarrow> u64 \<Rightarrow> u64 \<Rightarrow> nat \<Rightarrow> u8 list option" where
  "urange m pt va n =
     (if \<forall>i < n. ubyte m pt (va + of_nat i) \<noteq> None
      then Some (map (\<lambda>i. the (ubyte m pt (va + of_nat i))) [0..<n]) else None)"

lemma urange_0 [simp]: "urange m pt va 0 = Some []"
  by (simp add: urange_def)

lemma urange_None: "ubyte m pt va = None \<Longrightarrow> 0 < n \<Longrightarrow> urange m pt va n = None"
  by (auto simp: urange_def dest: spec [of _ 0])

lemma all_less_split: "(\<forall>i < k + j. P i) \<longleftrightarrow> (\<forall>i < k. P i) \<and> (\<forall>i < (j :: nat). P (k + i))"
proof (intro iffI conjI allI impI)
  fix i assume "(\<forall>i < k. P i) \<and> (\<forall>i < j. P (k + i))" "i < k + j"
  then show "P i" by (cases "i < k") (auto dest: spec [of _ "i - k"])
qed auto

lemma urange_append:
  "urange m pt va (k + j) = (case urange m pt va k of None \<Rightarrow> None
     | Some bs \<Rightarrow> map_option ((@) bs) (urange m pt (va + of_nat k) j))"
proof -
  have "[0..<k + j] = [0..<k] @ map (\<lambda>i. k + i) [0..<j]"
    by (rule nth_equalityI) (auto simp: nth_append)
  then show ?thesis
    unfolding urange_def all_less_split by (auto simp: add.assoc o_def)
qed

lemma page_left_next:
  assumes "page_left va \<le> k"
  shows "PGROUNDDOWN va + PGSZ = va + of_nat (page_left va)"
proof -
  have le: "unat (va - PGROUNDDOWN va) \<le> 4096" using chunk_bounds(4) [of 1 va] by simp
  then have "of_nat (page_left va) = 4096 - (va - PGROUNDDOWN va)"
    unfolding page_left_def by (subst of_nat_diff) simp_all
  then show ?thesis by simp
qed

lemma urange_page:
  assumes "ubyte m pt va \<noteq> None" and "n \<le> page_left va"
  shows "urange m pt va n = Some (mem_read m (PTE2PA (pte_of m pt va) + (va - PGROUNDDOWN va)) n)"
proof -
  have o: "unat (va - PGROUNDDOWN va) = unat va mod 4096" using chunk_bounds(4) [of 1 va] by simp
  have "ubyte m pt (va + of_nat i) = Some (m (PTE2PA (pte_of m pt va) + (va - PGROUNDDOWN va) + of_nat i))"
    if "i < n" for i
  proof (rule ubyte_near [OF assms(1)])
    have "i < 4096 - unat va mod 4096" using that assms(2) o by (simp add: page_left_def)
    moreover from this have "i < 4096" by linarith
    ultimately show "unat (of_nat i :: u64) + unat va mod 4096 < 4096" by (simp add: unat_of_nat_u64)
  qed
  then show ?thesis by (simp add: urange_def mem_read_def)
qed

lemma copyinb_eq:
  assumes "uspace s ps pt"
  shows "\<exists>bs. copyinb pt va n s = Inr (case urange (mem s) pt va n of Some r \<Rightarrow> (0, r) | None \<Rightarrow> (- 1, bs), s)"
proof (induction n arbitrary: va rule: less_induct)
  case (less n)
  show ?case
  proof (cases "n = 0 \<or> ubyte (mem s) pt va = None")
    case True
    then show ?thesis
      using walkaddr_page(1) [OF assms, of va] urange_None [of "mem s" pt va n]
      by (auto simp: copyinb.simps [of _ va] Let_def)
  next
    case False
    let ?k = "min (page_left va) n"
    note w = walkaddr_page(2) [OF assms conjunct2 [OF False [unfolded de_Morgan_disj]]]
    have k: "n - ?k < n" "n = ?k + (n - ?k)" using False page_left_pos [of va] by auto
    have next_page: "PGROUNDDOWN va + PGSZ = va + of_nat ?k" if "n \<noteq> ?k"
      using page_left_next [of va n] that by (cases "page_left va \<le> n") (simp_all add: min_def)
    have "urange (mem s) pt (PGROUNDDOWN va + PGSZ) (n - ?k) = urange (mem s) pt (va + of_nat ?k) (n - ?k)"
      using next_page k(2) by (cases "n = ?k") auto
    moreover have "urange (mem s) pt va ?k = Some (mem_read (mem s) (PTE2PA (pte_of (mem s) pt va) + (va - PGROUNDDOWN va)) ?k)"
      using False by (intro urange_page) auto
    moreover obtain bs where "copyinb pt (PGROUNDDOWN va + PGSZ) (n - ?k) s =
        Inr (case urange (mem s) pt (PGROUNDDOWN va + PGSZ) (n - ?k) of Some r \<Rightarrow> (0, r) | None \<Rightarrow> (- 1, bs), s)"
      using less.IH [OF k(1), of "PGROUNDDOWN va + PGSZ"] by blast
    ultimately show ?thesis
      using w False urange_append [of "mem s" pt va ?k "n - ?k"]
      by (auto simp: copyinb.simps [of _ va] Let_def split: option.split)
  qed
qed

end
