(* ===== verification/Grep.thy ===== *)
theory Grep
  imports Xv6_Prelude
begin

text \<open>
  The pattern matcher and line loop of \<open>user/grep.c\<close>.  A C string is the list of its
  characters before the NUL.  \<open>matchhere\<close>, \<open>matchstar\<close> and \<open>match\<close> are shown equivalent
  to a declarative reading of patterns; the line loop is shown to print exactly the matching
  lines, however \<open>read\<close> cuts the input.
\<close>

section \<open>The matcher\<close>

function (sequential) matchhere :: "string \<Rightarrow> string \<Rightarrow> bool"
  and matchstar :: "char \<Rightarrow> string \<Rightarrow> string \<Rightarrow> bool" where
  "matchhere [] tx = True"
| "matchhere (c # re) tx =
     (if re \<noteq> [] \<and> hd re = CHR ''*'' then matchstar c (tl re) tx
      else if c = CHR ''$'' \<and> re = [] then tx = []
      else case tx of
          [] \<Rightarrow> False
        | x # tx' \<Rightarrow> if c = CHR ''.'' \<or> c = x then matchhere re tx' else False)"
| "matchstar c re tx =
     (if matchhere re tx then True
      else case tx of
          [] \<Rightarrow> False
        | x # tx' \<Rightarrow> if x = c \<or> c = CHR ''.'' then matchstar c re tx' else False)"
  by pat_completeness auto

termination
  by (relation "measures [case_sum (\<lambda>(re, tx). length re + length tx) (\<lambda>(c, re, tx). length re + length tx),
      case_sum (\<lambda>_. 0) (\<lambda>_. 1)]")
    (auto simp: neq_Nil_conv)

fun match_from :: "string \<Rightarrow> string \<Rightarrow> bool" where
  "match_from re [] = matchhere re []"
| "match_from re (x # tx) = (if matchhere re (x # tx) then True else match_from re tx)"

definition match :: "string \<Rightarrow> string \<Rightarrow> bool" where
  "match re tx =
     (if re \<noteq> [] \<and> hd re = CHR ''^'' then matchhere (tl re) tx else match_from re tx)"

section \<open>The line loop\<close>

text \<open>
  The input is the list of pieces that \<open>read\<close> can return; a piece longer than the room in
  the buffer is returned in parts.
\<close>

fun read_input :: "nat \<Rightarrow> string list \<Rightarrow> string \<times> string list" where
  "read_input mx [] = ([], [])"
| "read_input mx (c # cs) = (if length c \<le> mx then (c, cs) else (take mx c, drop mx c # cs))"

fun strchr :: "string \<Rightarrow> char \<Rightarrow> nat option" where
  "strchr [] c = None"
| "strchr (x # s) c =
     (if x = CHR 0x00 then None else if x = c then Some 0 else map_option Suc (strchr s c))"

lemma strchr_less: "strchr s c = Some i \<Longrightarrow> i < length s"
  by (induction s arbitrary: i) (auto split: if_splits)

function grep_lines :: "string \<Rightarrow> string \<Rightarrow> string \<times> string" where
  "grep_lines pattern p =
     (case strchr p CHR 0x0A of
        None \<Rightarrow> ([], p)
      | Some q \<Rightarrow>
          (case grep_lines pattern (drop (Suc q) p) of
             (out, rest) \<Rightarrow> ((if match pattern (take q p) then take (Suc q) p else []) @ out, rest)))"
  by pat_completeness auto

termination
  by (relation "measure (\<lambda>(_, p). length p)") (auto dest: strchr_less)

definition BUFSZ :: nat where "BUFSZ = 1024"

text \<open>Characters still to come, counting one for every piece.\<close>

definition pending :: "string list \<Rightarrow> nat" where
  "pending cs = sum_list (map (\<lambda>c. Suc (length c)) cs)"

lemma read_input_pending: "read_input mx cs = (c, cs') \<Longrightarrow> c \<noteq> [] \<Longrightarrow> pending cs' < pending cs"
  by (cases cs) (auto simp: pending_def split: if_splits)

function grep_loop :: "string \<Rightarrow> string \<Rightarrow> string list \<Rightarrow> string" where
  "grep_loop pattern buf input =
     (case read_input (BUFSZ - length buf - 1) input of
        (c, input') \<Rightarrow>
          if c = [] then []
          else case grep_lines pattern (buf @ c) of
            (out, rest) \<Rightarrow> out @ grep_loop pattern rest input')"
  by pat_completeness auto

termination
  by (relation "measure (\<lambda>(_, _, cs). pending cs)") (auto intro: read_input_pending [OF sym] simp del: read_input.simps grep_lines.simps)

definition grep :: "string \<Rightarrow> string list \<Rightarrow> string" where
  "grep pattern input = grep_loop pattern [] input"

declare grep_lines.simps [simp del] grep_loop.simps [simp del]

section \<open>What a pattern means\<close>

datatype elem = One char | Star char | End

fun elems :: "string \<Rightarrow> elem list" where
  "elems [] = []"
| "elems [c] = (if c = CHR ''$'' then [End] else [One c])"
| "elems (c # d # re) = (if d = CHR ''*'' then Star c # elems re else One c # elems (d # re))"

definition fits :: "char \<Rightarrow> char \<Rightarrow> bool" where
  "fits c x \<longleftrightarrow> c = CHR ''.'' \<or> c = x"

fun elang :: "elem \<Rightarrow> string set" where
  "elang (One c) = {[x] |x. fits c x}"
| "elang (Star c) = {w. \<forall>x\<in>set w. fits c x}"
| "elang End = {[]}"

definition prefix_match :: "elem list \<Rightarrow> string \<Rightarrow> bool" where
  "prefix_match es tx \<longleftrightarrow> (\<exists>ws rest. tx = concat ws @ rest \<and>
     list_all2 (\<lambda>w e. w \<in> elang e) ws es \<and> (End \<in> set es \<longrightarrow> rest = []))"

lemma prefix_match_Nil [simp]: "prefix_match [] tx"
  by (simp add: prefix_match_def)

lemma prefix_match_End [simp]: "prefix_match [End] tx \<longleftrightarrow> tx = []"
  by (auto simp: prefix_match_def list_all2_Cons2)

lemma prefix_match_Cons:
  assumes "e \<noteq> End"
  shows "prefix_match (e # es) tx \<longleftrightarrow> (\<exists>w rest. tx = w @ rest \<and> w \<in> elang e \<and> prefix_match es rest)"
proof
  assume "prefix_match (e # es) tx"
  then obtain vs rest where v: "tx = concat vs @ rest" "list_all2 (\<lambda>w e. w \<in> elang e) vs (e # es)"
    "End \<in> set (e # es) \<longrightarrow> rest = []" unfolding prefix_match_def by blast
  from v(2) obtain w ws where "vs = w # ws" "w \<in> elang e" "list_all2 (\<lambda>w e. w \<in> elang e) ws es"
    by (auto simp: list_all2_Cons2)
  with v show "\<exists>w rest. tx = w @ rest \<and> w \<in> elang e \<and> prefix_match es rest"
    by (intro exI [of _ w] exI [of _ "concat ws @ rest"]) (auto simp: prefix_match_def)
next
  assume "\<exists>w rest. tx = w @ rest \<and> w \<in> elang e \<and> prefix_match es rest"
  then obtain w ws rest where "tx = w @ concat ws @ rest" "w \<in> elang e"
    "list_all2 (\<lambda>w e. w \<in> elang e) ws es" "End \<in> set es \<longrightarrow> rest = []"
    by (auto simp: prefix_match_def)
  with assms show "prefix_match (e # es) tx"
    by (auto simp: prefix_match_def intro!: exI [of _ "w # ws"] exI [of _ rest])
qed

lemma prefix_match_ConsI:
  "e \<noteq> End \<Longrightarrow> w \<in> elang e \<Longrightarrow> prefix_match es rest \<Longrightarrow> prefix_match (e # es) (w @ rest)"
  using prefix_match_Cons [of e es "w @ rest"] by blast

lemma prefix_match_One:
  "prefix_match (One c # es) tx \<longleftrightarrow> (case tx of [] \<Rightarrow> False | x # t \<Rightarrow> fits c x \<and> prefix_match es t)"
proof (cases tx)
  case (Cons x t)
  have "fits c x \<and> prefix_match es t" if "prefix_match (One c # es) (x # t)"
    using that by (auto simp: prefix_match_Cons)
  moreover have "prefix_match (One c # es) (x # t)" if "fits c x" "prefix_match es t"
    using prefix_match_ConsI [of "One c" "[x]" es t] that by simp
  ultimately show ?thesis using Cons by auto
qed (auto simp: prefix_match_Cons)

lemma prefix_match_Star:
  "prefix_match (Star c # es) tx \<longleftrightarrow>
     prefix_match es tx \<or> (case tx of [] \<Rightarrow> False | x # t \<Rightarrow> fits c x \<and> prefix_match (Star c # es) t)"
  (is "?L \<longleftrightarrow> ?R")
proof
  assume ?L
  then obtain w rest where w: "tx = w @ rest" "\<forall>x\<in>set w. fits c x" "prefix_match es rest"
    by (auto simp: prefix_match_Cons)
  show ?R
  proof (cases w)
    case (Cons x w')
    with w prefix_match_ConsI [of "Star c" w' es rest] show ?thesis by simp
  qed (use w in simp)
next
  assume ?R
  then consider "prefix_match es tx" | x t where "tx = x # t" "fits c x" "prefix_match (Star c # es) t"
    by (auto split: list.splits)
  then show ?L
  proof cases
    case 1
    then show ?thesis using prefix_match_ConsI [of "Star c" "[]" es tx] by simp
  next
    case (2 x t)
    then obtain w rest where "t = w @ rest" "\<forall>x\<in>set w. fits c x" "prefix_match es rest"
      by (auto simp: prefix_match_Cons)
    with 2 prefix_match_ConsI [of "Star c" "x # w" es rest] show ?thesis by simp
  qed
qed

lemma elems_Cons:
  "elems (c # re) = (if re \<noteq> [] \<and> hd re = CHR ''*'' then Star c # elems (tl re)
     else if c = CHR ''$'' \<and> re = [] then [End] else One c # elems re)"
  by (cases re) auto

lemma matchhere_elems:
  "matchhere re tx \<longleftrightarrow> prefix_match (elems re) tx"
  "matchstar c re' tx' \<longleftrightarrow> prefix_match (Star c # elems re') tx'"
proof (induction re tx and c re' tx' rule: matchhere_matchstar.induct)
  case (2 c re tx)
  then show ?case
    by (cases tx) (simp_all add: elems_Cons prefix_match_One fits_def)
next
  case (3 c re tx)
  then show ?case
    using prefix_match_Star [of c "elems re" tx] by (cases tx) (auto simp: fits_def)
qed simp

lemma match_from_suffix: "match_from re tx \<longleftrightarrow> (\<exists>pre suf. tx = pre @ suf \<and> matchhere re suf)"
proof (induction tx)
  case (Cons x tx)
  have "(\<exists>pre suf. x # tx = pre @ suf \<and> matchhere re suf) \<longleftrightarrow>
      matchhere re (x # tx) \<or> (\<exists>pre suf. tx = pre @ suf \<and> matchhere re suf)"
    by (auto simp: Cons_eq_append_conv)
  with Cons show ?case by auto
qed simp

section \<open>Lines\<close>

fun lines :: "string \<Rightarrow> string list \<times> string" where
  "lines [] = ([], [])"
| "lines (x # s) = (case lines s of (ls, r) \<Rightarrow>
     if x = CHR 0x0A then ([] # ls, r)
     else case ls of [] \<Rightarrow> ([], x # r) | l # ls' \<Rightarrow> ((x # l) # ls', r))"

definition printed :: "string \<Rightarrow> string list \<Rightarrow> string" where
  "printed pattern ls = concat (map (\<lambda>l. l @ [CHR 0x0A]) (filter (match pattern) ls))"

lemma lines_append_nl: "CHR 0x0A \<notin> set l \<Longrightarrow> lines (l @ CHR 0x0A # s) = (l # fst (lines s), snd (lines s))"
  by (induction l) (auto split: prod.split)

lemma lines_no_nl: "CHR 0x0A \<notin> set s \<Longrightarrow> lines s = ([], s)"
  by (induction s) auto

lemma strchr_None: "CHR 0x00 \<notin> set s \<Longrightarrow> strchr s c = None \<longleftrightarrow> c \<notin> set s"
  by (induction s) auto

lemma strchr_Some: "strchr s c = Some i \<Longrightarrow> s = take i s @ c # drop (Suc i) s \<and> c \<notin> set (take i s)"
  by (induction s arbitrary: i) (auto split: if_splits)

lemma grep_lines_eq:
  "CHR 0x00 \<notin> set p \<Longrightarrow> grep_lines pattern p = (printed pattern (fst (lines p)), snd (lines p))"
proof (induction pattern p rule: grep_lines.induct)
  case (1 pattern p)
  show ?case
  proof (cases "strchr p CHR 0x0A")
    case None
    with strchr_None [OF 1(2), of "CHR 0x0A"] show ?thesis
      by (subst grep_lines.simps) (simp add: lines_no_nl printed_def)
  next
    case (Some i)
    note p = strchr_Some [OF Some]
    have "CHR 0x00 \<notin> set (drop (Suc i) p)" using 1(2) in_set_dropD by fast
    with 1(1) Some have IH: "grep_lines pattern (drop (Suc i) p) =
      (printed pattern (fst (lines (drop (Suc i) p))), snd (lines (drop (Suc i) p)))" by simp
    have l: "lines p = (take i p # fst (lines (drop (Suc i) p)), snd (lines (drop (Suc i) p)))"
      using p lines_append_nl [of "take i p" "drop (Suc i) p"] by simp
    have "take (Suc i) p = take i p @ [CHR 0x0A]"
      using strchr_less [OF Some] p by (metis append_eq_conv_conj nth_append_length take_Suc_conv_app_nth length_take min.absorb4)
    with Some IH l show ?thesis
      by (subst grep_lines.simps) (simp add: printed_def)
  qed
qed

lemma lines_append: "lines (s @ t) = (case lines s of (ls, r) \<Rightarrow> case lines (r @ t) of (ls', r') \<Rightarrow> (ls @ ls', r'))"
  by (induction s) (auto split: prod.splits list.splits)

lemma lines_rest: "CHR 0x0A \<notin> set (snd (lines s))"
  by (induction s) (auto split: prod.splits list.splits)

lemma lines_prefix:
  "CHR 0x0A \<notin> set b \<Longrightarrow> lines (b @ s) =
     (case lines s of ([], r) \<Rightarrow> ([], b @ r) | (l # ls, r) \<Rightarrow> ((b @ l) # ls, r))"
  by (induction b) (auto split: prod.splits list.splits)

definition short :: "string \<Rightarrow> bool" where
  "short s \<longleftrightarrow> (\<forall>l\<in>set (snd (lines s) # fst (lines s)). length l < BUFSZ - 1)"

lemma short_prefix: "CHR 0x0A \<notin> set b \<Longrightarrow> short (b @ s) \<Longrightarrow> length b < BUFSZ - 1"
  by (auto simp: short_def lines_prefix split: prod.splits list.splits)

lemma set_snd_lines: "set (snd (lines s)) \<subseteq> set s"
  by (induction s) (auto split: prod.splits list.splits)

lemma read_input_concat:
  assumes "[] \<notin> set cs" and "cs \<noteq> []" and "0 < mx" and "read_input mx cs = (c, cs')"
  shows "c @ concat cs' = concat cs" "c \<noteq> []" "[] \<notin> set cs'"
  using assms by (cases cs; auto split: if_splits)+

lemma grep_loop_eq:
  assumes "[] \<notin> set input" and "CHR 0x0A \<notin> set buf" and "CHR 0x00 \<notin> set (buf @ concat input)"
    and "short (buf @ concat input)"
  shows "grep_loop pattern buf input = printed pattern (fst (lines (buf @ concat input)))"
  using assms
proof (induction pattern buf input rule: grep_loop.induct)
  case (1 pattern buf input)
  obtain c input' where rd: "read_input (BUFSZ - length buf - 1) input = (c, input')" by (cases "read_input (BUFSZ - length buf - 1) input")
  show ?case
  proof (cases "input = []")
    case True
    with 1(3) show ?thesis by (subst grep_loop.simps) (simp add: lines_no_nl printed_def)
  next
    case False
    have room: "0 < BUFSZ - length buf - 1" using short_prefix [OF 1(3,5)] by simp
    note rc = read_input_concat [OF 1(2) False room rd]
    let ?r = "snd (lines (buf @ c))"
    have nul: "CHR 0x00 \<notin> set (buf @ c)" "CHR 0x00 \<notin> set (?r @ concat input')"
      using 1(4) rc(1) [symmetric] set_snd_lines [of "buf @ c"] by auto
    have split: "lines (buf @ concat input) =
      (fst (lines (buf @ c)) @ fst (lines (?r @ concat input')), snd (lines (?r @ concat input')))"
      using lines_append [of "buf @ c" "concat input'"] rc(1) by (auto split: prod.splits)
    have "short (?r @ concat input')" using 1(5) split by (auto simp: short_def)
    with 1(1) [OF rd [symmetric] rc(2) _ rc(3) lines_rest nul(2)] grep_lines_eq [OF nul(1), of pattern]
    have "grep_loop pattern ?r input' = printed pattern (fst (lines (?r @ concat input')))" by simp
    with rd rc(2) grep_lines_eq [OF nul(1), of pattern] split show ?thesis
      by (subst grep_loop.simps) (simp add: printed_def)
  qed
qed

section \<open>Properties\<close>

text \<open>
  (C12) The recursive matcher decides its pattern language.  A pattern that starts with a
  caret matches a text when a prefix of the text splits into pieces fitting the pattern's
  elements one by one (a starred character fits a run, a dot any character, a final dollar
  sign only the end); any other pattern matches when some suffix of the text does so.
\<close>

theorem match_decides_pattern:
  "match re tx \<longleftrightarrow>
     (if re \<noteq> [] \<and> hd re = CHR ''^'' then prefix_match (elems (tl re)) tx
      else \<exists>pre suf. tx = pre @ suf \<and> prefix_match (elems re) suf)"
  by (simp add: match_def match_from_suffix matchhere_elems)



end
