(* ===== verification/Printing.thy ===== *)
theory Printing
  imports Xv6_Prelude "HOL-Library.Char_ord"
begin

text \<open>
  Formatted output: \<open>printint\<close>, \<open>printptr\<close> and the format loop, once as in
  \<open>kernel/printf.c\<close> and once as in \<open>user/printf.c\<close>, with \<open>atoi\<close> of \<open>user/ulib.c\<close> as
  the reader.  The functions return the characters handed to \<open>consputc\<close> or \<open>putc\<close>, in
  order; \<open>int\<close> and \<open>uint\<close> are 32-bit words.  Reading an argument of the wrong kind, or one
  that was not passed, is undefined in C and is the outcome None.
\<close>

section \<open>Numbers\<close>

definition kdigits :: string where "kdigits = ''0123456789abcdef''"
definition udigits :: string where "udigits = ''0123456789ABCDEF''"

text \<open>The loop that fills \<open>buf\<close>, lowest digit first; \<open>base\<close> is 10 or 16.\<close>

function digit_loop :: "string \<Rightarrow> u32 \<Rightarrow> u32 \<Rightarrow> string" where
  "digit_loop ds base x =
     ds ! unat (x mod base) # (if x div base = 0 \<or> base < 2 then [] else digit_loop ds base (x div base))"
  by pat_completeness auto

termination
proof (relation "measure (\<lambda>(_, _, x). unat x)")
  fix ds base x assume "\<not> (x div base = 0 \<or> base < (2 :: u32))"
  then have b: "2 \<le> unat base" and "unat (x div base) \<noteq> 0"
    by (auto simp: word_less_nat_alt word_unat_eq_iff)
  then have "0 < unat x" by (cases "unat x = 0") (auto simp: unat_div)
  then have "unat x div unat base < unat x" using b by simp
  then show "((ds, base, x div base), (ds, base, x)) \<in> measure (\<lambda>(_, _, x). unat x)"
    by (simp add: unat_div)
qed simp

declare digit_loop.simps [simp del]

definition printint_buf :: "string \<Rightarrow> u32 \<Rightarrow> u32 \<Rightarrow> bool \<Rightarrow> string" where
  "printint_buf ds xx base sign =
     (let neg = (sign \<and> xx <s 0);
          x = (if neg then - xx else xx)
      in digit_loop ds base x @ (if neg then ''-'' else []))"

definition kprintint :: "u32 \<Rightarrow> u32 \<Rightarrow> bool \<Rightarrow> string" where
  "kprintint xx base sign = rev (printint_buf kdigits xx base sign)"

definition uprintint :: "u32 \<Rightarrow> u32 \<Rightarrow> bool \<Rightarrow> string" where
  "uprintint xx base sign = rev (printint_buf udigits xx base sign)"

primrec ptr_loop :: "string \<Rightarrow> nat \<Rightarrow> u64 \<Rightarrow> string" where
  "ptr_loop ds 0 x = []"
| "ptr_loop ds (Suc n) x = ds ! unat (drop_bit 60 x) # ptr_loop ds n (push_bit 4 x)"

definition kprintptr :: "u64 \<Rightarrow> string" where
  "kprintptr x = ''0x'' @ ptr_loop kdigits 16 x"

definition uprintptr :: "u64 \<Rightarrow> string" where
  "uprintptr x = ''0x'' @ ptr_loop udigits 16 x"

fun atoi_loop :: "u32 \<Rightarrow> string \<Rightarrow> u32" where
  "atoi_loop n [] = n"
| "atoi_loop n (c # s) =
     (if CHR ''0'' \<le> c \<and> c \<le> CHR ''9'' then atoi_loop (n * 10 + of_char c - of_char CHR ''0'') s else n)"

definition atoi :: "string \<Rightarrow> u32" where
  "atoi s = atoi_loop 0 s"

section \<open>Formats\<close>

datatype varg = VNum u64 | VStr "string option"

text \<open>A null pointer prints as \<open>(null)\<close>.\<close>

definition str_arg :: "string option \<Rightarrow> string" where
  "str_arg s = (case s of None \<Rightarrow> ''(null)'' | Some t \<Rightarrow> t)"

definition take_num :: "varg list \<Rightarrow> (u64 \<times> varg list) option" where
  "take_num ap = (case ap of VNum x # ap \<Rightarrow> Some (x, ap) | _ \<Rightarrow> None)"

definition take_str :: "varg list \<Rightarrow> (string \<times> varg list) option" where
  "take_str ap = (case ap of VStr s # ap \<Rightarrow> Some (str_arg s, ap) | _ \<Rightarrow> None)"

definition kdirective :: "char \<Rightarrow> varg list \<Rightarrow> (string \<times> varg list) option" where
  "kdirective c ap =
     (if c = CHR ''d'' then map_option (\<lambda>(x, ap). (kprintint (ucast x) 10 True, ap)) (take_num ap)
      else if c = CHR ''x'' then map_option (\<lambda>(x, ap). (kprintint (ucast x) 16 True, ap)) (take_num ap)
      else if c = CHR ''p'' then map_option (\<lambda>(x, ap). (kprintptr x, ap)) (take_num ap)
      else if c = CHR ''s'' then take_str ap
      else if c = CHR ''%'' then Some (''%'', ap)
      else Some ([CHR ''%'', c], ap))"

fun kformat :: "string \<Rightarrow> varg list \<Rightarrow> string option" where
  "kformat [] ap = Some []"
| "kformat (c # fmt) ap =
     (if c \<noteq> CHR ''%'' then map_option (Cons c) (kformat fmt ap)
      else case fmt of
          [] \<Rightarrow> Some []
        | d # fmt' \<Rightarrow>
            (case kdirective d ap of None \<Rightarrow> None
             | Some (out, ap') \<Rightarrow> map_option (append out) (kformat fmt' ap')))"

definition udirective :: "char \<Rightarrow> varg list \<Rightarrow> (string \<times> varg list) option" where
  "udirective c ap =
     (if c = CHR ''d'' then map_option (\<lambda>(x, ap). (uprintint (ucast x) 10 True, ap)) (take_num ap)
      else if c = CHR ''l'' then map_option (\<lambda>(x, ap). (uprintint (ucast x) 10 False, ap)) (take_num ap)
      else if c = CHR ''x'' then map_option (\<lambda>(x, ap). (uprintint (ucast x) 16 False, ap)) (take_num ap)
      else if c = CHR ''p'' then map_option (\<lambda>(x, ap). (uprintptr x, ap)) (take_num ap)
      else if c = CHR ''s'' then take_str ap
      else if c = CHR ''c'' then map_option (\<lambda>(x, ap). ([char_of (unat x)], ap)) (take_num ap)
      else if c = CHR ''%'' then Some ([c], ap)
      else Some ([CHR ''%'', c], ap))"

text \<open>\<open>pct\<close> is the variable \<open>state\<close>: true after a percent sign.\<close>

fun vprintf_loop :: "bool \<Rightarrow> string \<Rightarrow> varg list \<Rightarrow> string option" where
  "vprintf_loop pct [] ap = Some []"
| "vprintf_loop pct (c # fmt) ap =
     (if \<not> pct then
        if c = CHR ''%'' then vprintf_loop True fmt ap
        else map_option (Cons c) (vprintf_loop False fmt ap)
      else case udirective c ap of None \<Rightarrow> None
        | Some (out, ap') \<Rightarrow> map_option (append out) (vprintf_loop False fmt ap'))"

definition vprintf :: "string \<Rightarrow> varg list \<Rightarrow> string option" where
  "vprintf fmt ap = vprintf_loop False fmt ap"

section \<open>Digits\<close>

function ndigits :: "nat \<Rightarrow> nat \<Rightarrow> nat list" where
  "ndigits b n = n mod b # (if n div b = 0 \<or> b < 2 then [] else ndigits b (n div b))"
  by pat_completeness auto

termination
proof (relation "measure snd")
  fix b n :: nat assume "\<not> (n div b = 0 \<or> b < 2)"
  then have "1 < b" "0 < n" by (auto intro: gr0I)
  then show "((b, n div b), b, n) \<in> measure snd" by simp
qed simp

declare ndigits.simps [simp del]

lemma digit_loop_ndigits: "digit_loop ds b x = map (\<lambda>d. ds ! d) (ndigits (unat b) (unat x))"
proof (induction ds b x rule: digit_loop.induct)
  case (1 ds b x)
  have "x div b = 0 \<longleftrightarrow> unat x div unat b = 0" by (simp add: word_unat_eq_iff unat_div)
  moreover have "b < 2 \<longleftrightarrow> unat b < 2" by (simp add: word_less_nat_alt)
  ultimately show ?case
    using 1 by (subst digit_loop.simps, subst ndigits.simps) (simp add: unat_mod unat_div)
qed

lemma ndigits_less: "0 < b \<Longrightarrow> d \<in> set (ndigits b n) \<Longrightarrow> d < b"
  by (induction b n rule: ndigits.induct) (subst (asm) (2) ndigits.simps, auto split: if_splits)

lemma ndigits_length: "2 \<le> b \<Longrightarrow> n < b ^ Suc k \<Longrightarrow> length (ndigits b n) \<le> Suc k"
proof (induction k arbitrary: n)
  case 0
  then show ?case by (subst ndigits.simps) simp
next
  case (Suc k)
  have "n div b < b ^ Suc k" using Suc.prems by (simp add: less_mult_imp_div_less mult.commute)
  from Suc.IH [OF Suc.prems(1) this] show ?case by (subst ndigits.simps) simp
qed

lemma ndigits_horner: "2 \<le> b \<Longrightarrow> foldl (\<lambda>a d. a * b + d) 0 (rev (ndigits b n)) = n"
proof (induction b n rule: ndigits.induct)
  case (1 b n)
  show ?case
  proof (cases "n div b = 0")
    case True
    then show ?thesis by (subst ndigits.simps) (use 1 in \<open>auto simp: div_eq_0_iff\<close>)
  next
    case False
    with 1 show ?thesis by (subst ndigits.simps) simp
  qed
qed

lemma digit_char:
  assumes "d < 10"
  shows "CHR ''0'' \<le> udigits ! d" "udigits ! d \<le> CHR ''9''"
    "of_char (udigits ! d) = (48 + of_nat d :: u32)" "kdigits ! d = udigits ! d"
proof -
  have "d \<in> {0, 1, 2, 3, 4, 5, 6, 7, 8, 9}" using assms by auto
  then show "CHR ''0'' \<le> udigits ! d" "udigits ! d \<le> CHR ''9''"
    "of_char (udigits ! d) = (48 + of_nat d :: u32)" "kdigits ! d = udigits ! d"
    by (auto simp: udigits_def kdigits_def less_eq_char_def)
qed

lemma atoi_loop_digits:
  "(\<And>d. d \<in> set ds \<Longrightarrow> d < 10) \<Longrightarrow>
   atoi_loop n (map (\<lambda>d. udigits ! d) ds) = foldl (\<lambda>a d. a * 10 + of_nat d) n ds"
proof (induction ds arbitrary: n)
  case (Cons d ds)
  have "of_char CHR ''0'' = (48 :: u32)" by simp
  with Cons digit_char [of d] show ?case by (simp add: algebra_simps)
qed simp

lemma foldl_of_nat: "foldl (\<lambda>a d. a * 10 + of_nat d) (of_nat n) ds = (of_nat (foldl (\<lambda>a d. a * 10 + d) n ds) :: u32)"
proof (induction ds arbitrary: n)
  case (Cons d ds)
  from Cons [of "n * 10 + d"] show ?case by simp
qed simp

lemma atoi_digits: "atoi (rev (digit_loop udigits 10 x)) = x"
proof -
  have "atoi (rev (digit_loop udigits 10 x)) = foldl (\<lambda>a d. a * 10 + of_nat d) 0 (rev (ndigits 10 (unat x)))"
    unfolding atoi_def digit_loop_ndigits rev_map
    using atoi_loop_digits [of "rev (ndigits 10 (unat x))" 0] ndigits_less [of 10] by simp
  also have "\<dots> = of_nat (foldl (\<lambda>a d. a * 10 + d) 0 (rev (ndigits 10 (unat x))))"
    using foldl_of_nat [of 0] by simp
  also have "\<dots> = x" by (simp add: ndigits_horner)
  finally show ?thesis .
qed

section \<open>Properties\<close>



text \<open>
  (C15) The 16-byte buffer of \<open>printint\<close> never overflows: in base 10 or 16 every number, with
  its sign, needs at most 11 characters.
\<close>

theorem printint_buf_fits:
  assumes "base = 10 \<or> base = 16"
  shows "length (printint_buf ds xx base sign) \<le> 11"
proof -
  have "length (digit_loop ds base x) \<le> 10" for x
  proof -
    have "unat x < 2 ^ 32" using unsigned_less [of x, where ?'a = nat] by simp
    then have "unat x < unat base ^ Suc 9" using assms by auto
    from ndigits_length [OF _ this] assms show ?thesis by (auto simp: digit_loop_ndigits)
  qed
  then have "length (digit_loop ds base x) \<le> 11" "Suc (length (digit_loop ds base x)) \<le> 11" for x
    using le_trans [of "length (digit_loop ds base x)" 10 11] by simp_all
  then show ?thesis by (simp add: printint_buf_def Let_def)
qed

theorem printint_buf_fits_witness: "length (printint_buf kdigits (- 2147483648) 10 True) \<le> 11"
  using printint_buf_fits [of 10] by simp

lemma kprintint_10: "kprintint x 10 sign = uprintint x 10 sign"
proof -
  have "digit_loop kdigits 10 y = digit_loop udigits 10 y" for y
    using ndigits_less [of 10] by (auto simp: digit_loop_ndigits digit_char(4))
  then show ?thesis by (simp add: kprintint_def uprintint_def printint_buf_def)
qed

text \<open>Every character after a percent sign is one the two format loops treat alike.\<close>

fun common_fmt :: "string \<Rightarrow> bool" where
  "common_fmt [] \<longleftrightarrow> True"
| "common_fmt [c] \<longleftrightarrow> True"
| "common_fmt (c # d # fmt) \<longleftrightarrow> (if c = CHR ''%'' then d \<notin> set ''xplc'' \<and> common_fmt fmt else common_fmt (d # fmt))"



end
