(* ===== verification/Shell.thy ===== *)
theory Shell
  imports Fcntl "HOL-Library.Sublist"
begin

text \<open>
  The command parser of \<open>user/sh.c\<close>.  A pointer into the command buffer is the part of the
  buffer from there to its end \<open>es\<close>, so \<open>*ps\<close> is the input still to parse and a token is
  the pair of pointers \<open>q\<close>, \<open>eq\<close> around it.  The recursive descent takes fuel, which the
  lemmas show is always enough.
\<close>

section \<open>Tokens\<close>

definition whitespace :: string where
  "whitespace = [CHR 0x20, CHR 0x09, CHR 0x0D, CHR 0x0A, CHR 0x0B]"

definition symbols :: string where
  "symbols = ''<|>&;()''"

definition skip_ws :: "string \<Rightarrow> string" where
  "skip_ws s = dropWhile (\<lambda>c. c \<in> set whitespace) s"

definition is_word :: "char \<Rightarrow> bool" where
  "is_word c \<longleftrightarrow> c \<notin> set whitespace \<and> c \<notin> set symbols"

text \<open>The result is \<open>ret\<close>, \<open>*q\<close>, \<open>*eq\<close> and the new \<open>*ps\<close>.\<close>

definition gettoken :: "string \<Rightarrow> char \<times> string \<times> string \<times> string" where
  "gettoken ps =
     (let s = skip_ws ps; q = s in
      case s of
        [] \<Rightarrow> (CHR 0x00, q, s, s)
      | c # t \<Rightarrow>
          if c \<in> set ''|();&<'' then (c, q, t, skip_ws t)
          else if c = CHR ''>'' then
            if t \<noteq> [] \<and> hd t = CHR ''>'' then (CHR ''+'', q, tl t, skip_ws (tl t))
            else (c, q, t, skip_ws t)
          else let e = dropWhile is_word s in (CHR ''a'', q, e, skip_ws e))"

definition peek :: "string \<Rightarrow> string \<Rightarrow> bool \<times> string" where
  "peek ps toks = (let s = skip_ws ps in (s \<noteq> [] \<and> hd s \<in> set toks, s))"

abbreviation rest_token :: "string \<Rightarrow> string" where
  "rest_token ps \<equiv> snd (snd (snd (gettoken ps)))"

section \<open>Commands\<close>

definition MAXARGS :: nat where "MAXARGS = 10"

type_synonym token = "string \<times> string"

datatype cmd =
    EXEC "token list"
  | REDIR cmd token u32 nat
  | PIPE cmd cmd
  | LIST cmd cmd
  | BACK cmd

lemma skip_ws_length: "length (skip_ws s) \<le> length s"
  by (simp add: skip_ws_def length_dropWhile_le)

lemma gettoken_length:
  "length (rest_token ps) \<le> length ps"
  "skip_ws ps \<noteq> [] \<Longrightarrow> length (rest_token ps) < length ps"
proof -
  have le: "length (skip_ws ps) \<le> length ps" by (rule skip_ws_length)
  have "length (rest_token ps) < length ps" if "skip_ws ps = c # t" for c t
  proof -
    have e: "length (skip_ws (tl t)) \<le> length t" "length (skip_ws t) \<le> length t"
      using skip_ws_length [of "tl t"] skip_ws_length [of t] by auto
    have w: "length (dropWhile is_word (c # t)) \<le> length t" if "c \<notin> set ''|();&<''" "c \<noteq> CHR ''>''"
    proof -
      have "c \<notin> set whitespace" using \<open>skip_ws ps = c # t\<close> by (auto simp: skip_ws_def dropWhile_eq_Cons_conv)
      moreover have "c \<notin> set symbols" using that by (auto simp: symbols_def)
      ultimately show ?thesis by (simp add: is_word_def length_dropWhile_le)
    qed
    then have w': "length (skip_ws (dropWhile is_word (c # t))) \<le> length t" if "c \<notin> set ''|();&<''" "c \<noteq> CHR ''>''"
      using that skip_ws_length [of "dropWhile is_word (c # t)"] by (auto intro: le_trans)
    have "length t < length ps" using le \<open>skip_ws ps = c # t\<close> by simp
    then show ?thesis
      using e w' \<open>skip_ws ps = c # t\<close> by (auto simp: gettoken_def Let_def simp del: dropWhile.simps)
  qed
  then show "skip_ws ps \<noteq> [] \<Longrightarrow> length (rest_token ps) < length ps" by (auto simp: neq_Nil_conv)
  show "length (rest_token ps) \<le> length ps"
  proof (cases "skip_ws ps")
    case Nil
    then show ?thesis by (simp add: gettoken_def)
  qed (use \<open>\<And>c t. skip_ws ps = c # t \<Longrightarrow> length (rest_token ps) < length ps\<close> in \<open>simp add: less_imp_le\<close>)
qed

lemma skip_ws_idem [simp]: "skip_ws (skip_ws s) = skip_ws s"
  by (simp add: skip_ws_def dropWhile_idem)

lemma peek_length: "peek ps toks = (b, s) \<Longrightarrow> length s \<le> length ps \<and> (b \<longrightarrow> length (rest_token s) < length ps)"
  using skip_ws_length [of ps] gettoken_length(2) [of "skip_ws ps"]
  by (auto simp: peek_def Let_def)

definition add_redir :: "char \<Rightarrow> token \<Rightarrow> cmd \<Rightarrow> cmd" where
  "add_redir tok f c =
     (if tok = CHR ''<'' then REDIR c f O_RDONLY 0
      else if tok = CHR ''>'' then REDIR c f (O_WRONLY OR O_CREATE OR O_TRUNC) 1
      else if tok = CHR ''+'' then REDIR c f (O_WRONLY OR O_CREATE) 1
      else c)"

lemma redir_length:
  assumes "(b, s) = peek ps toks" and "b" and "(r, q, eq, s') = gettoken (rest_token s)"
  shows "length s' < length ps"
proof -
  have "rest_token (rest_token s) = s'" using assms(3) by (metis snd_conv)
  then show ?thesis
    using peek_length [OF assms(1) [symmetric]] assms(2) gettoken_length(1) [of "rest_token s"] by simp
qed

function parseredirs :: "cmd \<Rightarrow> string \<Rightarrow> (cmd \<times> string) res" where
  "parseredirs c ps =
     (case peek ps ''<>'' of (b, s) \<Rightarrow>
        if \<not> b then Inr (c, s)
        else case gettoken (rest_token s) of (r, q, eq, s') \<Rightarrow>
          if r \<noteq> CHR ''a'' then panic ''missing file for redirection''
          else parseredirs (add_redir (fst (gettoken s)) (q, eq) c) s')"
  by pat_completeness auto

termination
  by (relation "measure (\<lambda>(_, ps). length ps)") (auto dest: redir_length)

declare parseredirs.simps [simp del]

function parseamps :: "cmd \<Rightarrow> string \<Rightarrow> cmd \<times> string" where
  "parseamps c ps =
     (case peek ps ''&'' of (b, s) \<Rightarrow>
        if b then parseamps (BACK c) (rest_token s) else (c, s))"
  by pat_completeness auto

termination
  by (relation "measure (\<lambda>(_, ps). length ps)") (auto dest: peek_length [OF sym])

declare parseamps.simps [simp del]

text \<open>
  \<open>ret\<close> is the exec node wrapped in the redirections seen so far; the arguments are stored
  into that node, through the pointer \<open>cmd\<close>, as they are found.
\<close>

primrec fill_exec :: "token list \<Rightarrow> cmd \<Rightarrow> cmd" where
  "fill_exec argv (EXEC _) = EXEC argv"
| "fill_exec argv (REDIR c f m fd) = REDIR (fill_exec argv c) f m fd"
| "fill_exec argv (PIPE l r) = PIPE l r"
| "fill_exec argv (LIST l r) = LIST l r"
| "fill_exec argv (BACK c) = BACK c"

lemma parseredirs_cases:
  obtains (stop) s where "peek ps ''<>'' = (False, s)" "parseredirs c ps = Inr (c, s)"
  | (bad) "parseredirs c ps = panic ''missing file for redirection''"
  | (more) s q eq s' where "peek ps ''<>'' = (True, s)" "gettoken (rest_token s) = (CHR ''a'', q, eq, s')"
      "parseredirs c ps = parseredirs (add_redir (fst (gettoken s)) (q, eq) c) s'" "length s' < length ps"
proof -
  obtain b s where p: "peek ps ''<>'' = (b, s)" by (cases "peek ps ''<>''")
  obtain r q eq s' where g: "gettoken (rest_token s) = (r, q, eq, s')" by (cases "gettoken (rest_token s)")
  have u: "parseredirs c ps = (if \<not> b then Inr (c, s)
      else if r \<noteq> CHR ''a'' then panic ''missing file for redirection''
      else parseredirs (add_redir (fst (gettoken s)) (q, eq) c) s')"
    by (subst parseredirs.simps) (simp add: p g)
  show ?thesis
  proof (cases b)
    case False
    with p u show ?thesis by (intro stop) simp_all
  next
    case True
    with p u g redir_length [OF p [symmetric] True g [symmetric]] show ?thesis
      by (cases "r = CHR ''a''") (auto intro: bad more)
  qed
qed

lemma parseredirs_length: "parseredirs c ps = Inr (c', s) \<Longrightarrow> length s \<le> length ps"
proof (induction "length ps" arbitrary: c ps rule: less_induct)
  case less
  show ?case
  proof (cases rule: parseredirs_cases [of ps c])
    case (stop s1)
    with less.prems peek_length [OF stop(1)] show ?thesis by simp
  next
    case (more s1 q eq s2)
    with less.hyps [OF more(4)] less.prems show ?thesis by force
  qed (use less.prems in simp)
qed

lemma parseredirs_not_Stuck: "parseredirs c ps \<noteq> Inl Stuck"
proof (induction "length ps" arbitrary: c ps rule: less_induct)
  case less
  show ?case
    by (cases rule: parseredirs_cases [of ps c]) (use less in simp_all)
qed

lemma gettoken_NUL: "skip_ws s = [] \<Longrightarrow> fst (gettoken s) = CHR 0x00"
  by (simp add: gettoken_def)

function parseargs :: "token list \<Rightarrow> cmd \<Rightarrow> string \<Rightarrow> (cmd \<times> string) res" where
  "parseargs argv ret ps =
     (case peek ps ''|)&;'' of (b, s) \<Rightarrow>
        if b then Inr (fill_exec argv ret, s)
        else case gettoken s of (tok, q, eq, s') \<Rightarrow>
          if tok = CHR 0x00 then Inr (fill_exec argv ret, s')
          else if tok \<noteq> CHR ''a'' then panic ''syntax''
          else let argv = argv @ [(q, eq)] in
            if length argv \<ge> MAXARGS then panic ''too many args''
            else bindR (parseredirs ret s') (\<lambda>(ret, s). parseargs argv ret s))"
  by pat_completeness auto

termination
proof (relation "measure (\<lambda>(_, _, ps). length ps)")
  fix argv ret ps b s and tok q eq and s' :: string and x ret' s'' argv' and y z
  assume "(b, s) = peek ps ''|)&;''" "(tok, y) = gettoken s" "(q, z) = y" "(eq, s') = z" "tok \<noteq> CHR 0x00"
    "parseredirs ret s' = Inr x" "(ret', s'') = x"
  then have g: "gettoken s = (tok, q, eq, s')" and r: "parseredirs ret s' = Inr (ret', s'')" by simp_all
  have "length s \<le> length ps"
    using peek_length [OF \<open>(b, s) = peek ps ''|)&;''\<close> [symmetric]] by simp
  moreover have "length s'' \<le> length s'" using parseredirs_length [OF r] .
  moreover have "skip_ws s \<noteq> []" using gettoken_NUL [of s] g \<open>tok \<noteq> CHR 0x00\<close> by auto
  moreover have "rest_token s = s'" using g by simp
  ultimately show "((argv', ret', s''), argv, ret, ps) \<in> measure (\<lambda>(_, _, ps). length ps)"
    using gettoken_length(2) [of s] by simp
qed auto

declare parseargs.simps [simp del]

section \<open>Recursive descent\<close>

fun parseline :: "nat \<Rightarrow> string \<Rightarrow> (cmd \<times> string) res"
  and parsepipe :: "nat \<Rightarrow> string \<Rightarrow> (cmd \<times> string) res"
  and parseexec :: "nat \<Rightarrow> string \<Rightarrow> (cmd \<times> string) res"
  and parseblock :: "nat \<Rightarrow> string \<Rightarrow> (cmd \<times> string) res" where
  "parseline 0 ps = Inl Stuck"
| "parseline (Suc n) ps =
     bindR (parsepipe n ps) (\<lambda>(c, ps).
       case parseamps c ps of (c, ps) \<Rightarrow>
       case peek ps '';'' of (b, s) \<Rightarrow>
         if b then bindR (parseline n (rest_token s)) (\<lambda>(d, ps). Inr (LIST c d, ps))
         else Inr (c, s))"
| "parsepipe 0 ps = Inl Stuck"
| "parsepipe (Suc n) ps =
     bindR (parseexec n ps) (\<lambda>(c, ps).
       case peek ps ''|'' of (b, s) \<Rightarrow>
         if b then bindR (parsepipe n (rest_token s)) (\<lambda>(d, ps). Inr (PIPE c d, ps))
         else Inr (c, s))"
| "parseexec 0 ps = Inl Stuck"
| "parseexec (Suc n) ps =
     (case peek ps ''('' of (b, s) \<Rightarrow>
        if b then parseblock n s
        else bindR (parseredirs (EXEC []) s) (\<lambda>(ret, s). parseargs [] ret s))"
| "parseblock 0 ps = Inl Stuck"
| "parseblock (Suc n) ps =
     (case peek ps ''('' of (b, s) \<Rightarrow>
        if \<not> b then panic ''parseblock''
        else bindR (parseline n (rest_token s)) (\<lambda>(c, ps).
          case peek ps '')'' of (b, s) \<Rightarrow>
            if \<not> b then panic ''syntax - missing )''
            else parseredirs c (rest_token s)))"

text \<open>
  A pointer is the string from it up to the terminating NUL, so in the buffer, which ends with that
  NUL, \<open>p\<close> is at offset \<open>length buf - 1 - length p\<close>.
\<close>

definition put_nul :: "string \<Rightarrow> string \<Rightarrow> string" where
  "put_nul p buf = buf[length buf - 1 - length p := CHR 0x00]"

primrec nulterminate :: "cmd \<Rightarrow> string \<Rightarrow> string" where
  "nulterminate (EXEC argv) buf = fold (\<lambda>(q, eq). put_nul eq) argv buf"
| "nulterminate (REDIR c f m fd) buf = put_nul (snd f) (nulterminate c buf)"
| "nulterminate (PIPE l r) buf = nulterminate r (nulterminate l buf)"
| "nulterminate (LIST l r) buf = nulterminate r (nulterminate l buf)"
| "nulterminate (BACK c) buf = nulterminate c buf"

definition parsecmd :: "string \<Rightarrow> (cmd \<times> string) res" where
  "parsecmd buf =
     bindR (parseline (4 * length buf + 4) buf) (\<lambda>(c, s).
       case peek s [] of (_, s) \<Rightarrow>
         if s \<noteq> [] then panic ''syntax'' else Inr (c, nulterminate c (buf @ [CHR 0x00])))"

section \<open>The parser always returns\<close>

lemma parseamps_length: "parseamps c ps = (c', s) \<Longrightarrow> length s \<le> length ps"
proof (induction "length ps" arbitrary: c ps rule: less_induct)
  case less
  obtain b s1 where p: "peek ps ''&'' = (b, s1)" by (cases "peek ps ''&''")
  show ?case
  proof (cases b)
    case True
    have "length (rest_token s1) < length ps" using peek_length [OF p] True by simp
    moreover have "parseamps (BACK c) (rest_token s1) = (c', s)"
      using less.prems p True by (subst (asm) parseamps.simps) simp
    ultimately show ?thesis using less.hyps by fastforce
  next
    case False
    with less.prems p peek_length [OF p] show ?thesis by (subst (asm) parseamps.simps) simp
  qed
qed

lemma parseargs_cases:
  obtains (stop) "parseargs argv ret ps = Inr (fill_exec argv ret, skip_ws ps)"
  | (bad) m where "parseargs argv ret ps = panic m"
  | (more) s q eq s' where "peek ps ''|)&;'' = (False, s)" "gettoken s = (CHR ''a'', q, eq, s')"
      "parseargs argv ret ps = bindR (parseredirs ret s') (\<lambda>(ret, s). parseargs (argv @ [(q, eq)]) ret s)"
      "length s' < length ps"
proof -
  obtain b s where p: "peek ps ''|)&;'' = (b, s)" by (cases "peek ps ''|)&;''")
  obtain tok q eq s' where g: "gettoken s = (tok, q, eq, s')" by (cases "gettoken s")
  have u: "parseargs argv ret ps = (if b then Inr (fill_exec argv ret, s)
      else if tok = CHR 0x00 then Inr (fill_exec argv ret, s')
      else if tok \<noteq> CHR ''a'' then panic ''syntax''
      else if length (argv @ [(q, eq)]) \<ge> MAXARGS then panic ''too many args''
      else bindR (parseredirs ret s') (\<lambda>(ret, s). parseargs (argv @ [(q, eq)]) ret s))"
    by (subst parseargs.simps) (simp add: p g)
  have le: "length s \<le> length ps" "length s' \<le> length s"
    using peek_length [OF p] gettoken_length(1) [of s] g by auto
  have lt: "length s' < length s" if "tok \<noteq> CHR 0x00"
    using gettoken_length(2) [of s] gettoken_NUL [of s] g that by auto
  show ?thesis
  proof (cases "b \<or> tok = CHR 0x00")
    case True
    moreover have "s = skip_ws ps" using p by (simp add: peek_def Let_def)
    moreover have "s' = skip_ws ps" if "tok = CHR 0x00" "s = skip_ws ps"
      using g that by (auto simp: gettoken_def Let_def split: list.splits if_splits)
    ultimately show ?thesis using u by (cases b) (auto intro: stop)
  next
    case False
    show ?thesis
    proof (cases "tok \<noteq> CHR ''a'' \<or> length (argv @ [(q, eq)]) \<ge> MAXARGS")
      case True
      with u False show ?thesis by (cases "tok = CHR ''a''") (auto intro: bad)
    next
      case ok: False
      with u False p g le(1) lt show ?thesis by (intro more [of s q eq s']) auto
    qed
  qed
qed

text \<open>A parsing function that returns, leaving at most \<open>m\<close> characters.\<close>

definition ret_ok :: "nat \<Rightarrow> (cmd \<times> string) res \<Rightarrow> bool" where
  "ret_ok m r \<longleftrightarrow> r \<noteq> Inl Stuck \<and> (\<forall>c s. r = Inr (c, s) \<longrightarrow> length s \<le> m)"

lemma ret_ok_Inr [simp]: "ret_ok m (Inr (c, s)) \<longleftrightarrow> length s \<le> m"
  by (simp add: ret_ok_def)

lemma ret_ok_panic [simp]: "ret_ok m (panic msg)"
  by (simp add: ret_ok_def)

lemma ret_ok_mono: "ret_ok m r \<Longrightarrow> m \<le> m' \<Longrightarrow> ret_ok m' r"
  by (auto simp: ret_ok_def)

lemma ret_ok_bind:
  assumes "ret_ok m r" and "\<And>c s. length s \<le> m \<Longrightarrow> ret_ok m' (f c s)"
  shows "ret_ok m' (bindR r (\<lambda>(c, s). f c s))"
  using assms by (cases r) (auto simp: ret_ok_def)

lemma ret_ok_redirs: "length ps \<le> m \<Longrightarrow> ret_ok m (parseredirs c ps)"
  using parseredirs_not_Stuck [of c ps] parseredirs_length [of c ps] by (force simp: ret_ok_def)

lemma ret_ok_args: "length ps \<le> m \<Longrightarrow> ret_ok m (parseargs argv ret ps)"
proof (induction "length ps" arbitrary: argv ret ps rule: less_induct)
  case less
  show ?case
  proof (cases rule: parseargs_cases [of argv ret ps])
    case (more s1 q eq s2)
    show ?thesis
      unfolding more(3)
    proof (rule ret_ok_bind [OF ret_ok_redirs [OF order_refl]])
      fix c and s :: string assume "length s \<le> length s2"
      then show "ret_ok m (parseargs (argv @ [(q, eq)]) c s)"
        using less more(4) by simp
    qed
  qed (use less.prems skip_ws_length [of ps] in auto)
qed

lemma parse_returns:
  "4 * length ps + 4 \<le> n \<Longrightarrow> ret_ok (length ps) (parseline n ps)"
  "4 * length ps + 3 \<le> n \<Longrightarrow> ret_ok (length ps) (parsepipe n ps)"
  "4 * length ps + 2 \<le> n \<Longrightarrow> ret_ok (length ps) (parseexec n ps)"
  "4 * length ps + 1 \<le> n \<Longrightarrow> ret_ok (length ps) (parseblock n ps)"
proof (induction n arbitrary: ps)
  case (Suc n)
  {
    case 1
    have "ret_ok (length ps) (case parseamps c s of (c, s) \<Rightarrow> case peek s '';'' of (b, s) \<Rightarrow>
       if b then bindR (parseline n (rest_token s)) (\<lambda>(d, ps). Inr (LIST c d, ps)) else Inr (c, s))"
      if "length s \<le> length ps" for c s
    proof -
      obtain c1 s1 where a: "parseamps c s = (c1, s1)" by (cases "parseamps c s")
      obtain b s2 where p: "peek s1 '';'' = (b, s2)" by (cases "peek s1 '';''")
      have le: "length s1 \<le> length ps" using that parseamps_length [OF a] by simp
      show ?thesis
        using peek_length [OF p] le 1 Suc.IH(1) [of "rest_token s2"]
        by (auto simp: a p intro!: ret_ok_bind)
    qed
    with 1 Suc.IH(2) [of ps] show ?case by (auto intro: ret_ok_bind)
  next
    case 2
    have "ret_ok (length ps) (case peek s ''|'' of (b, s) \<Rightarrow>
       if b then bindR (parsepipe n (rest_token s)) (\<lambda>(d, ps). Inr (PIPE c d, ps)) else Inr (c, s))"
      if "length s \<le> length ps" for c s
    proof -
      obtain b s2 where p: "peek s ''|'' = (b, s2)" by (cases "peek s ''|''")
      show ?thesis
        using peek_length [OF p] that 2 Suc.IH(2) [of "rest_token s2"]
        by (auto simp: p intro!: ret_ok_bind)
    qed
    with 2 Suc.IH(3) [of ps] show ?case by (auto intro: ret_ok_bind)
  next
    case 3
    obtain b s2 where p: "peek ps ''('' = (b, s2)" by (cases "peek ps ''(''")
    show ?case
      using peek_length [OF p] 3 Suc.IH(4) [of s2]
      by (auto simp: p intro!: ret_ok_bind ret_ok_args ret_ok_redirs intro: ret_ok_mono)
  next
    case 4
    obtain b s2 where p: "peek ps ''('' = (b, s2)" by (cases "peek ps ''(''")
    have "ret_ok (length ps) (case peek s '')'' of (b, s) \<Rightarrow>
        if \<not> b then panic ''syntax - missing )'' else parseredirs c (rest_token s))"
      if "length s \<le> length ps" for c s
    proof -
      obtain b' s4 where p': "peek s '')'' = (b', s4)" by (cases "peek s '')''")
      show ?thesis
        using peek_length [OF p'] that by (auto simp: p' intro!: ret_ok_redirs)
    qed
    moreover have "ret_ok (length ps) (parseline n (rest_token s2))" if b
      using peek_length [OF p] 4 that Suc.IH(1) [of "rest_token s2"] by (auto intro: ret_ok_mono)
    ultimately show ?case by (auto simp: p intro: ret_ok_bind)
  }
qed simp_all

section \<open>Fuel does not matter\<close>

definition fuel_le :: "(cmd \<times> string) res \<Rightarrow> (cmd \<times> string) res \<Rightarrow> bool" where
  "fuel_le r r' \<longleftrightarrow> r = Inl Stuck \<or> r' = r"

lemma fuel_le_simps [simp]: "fuel_le r r" "fuel_le (Inl Stuck) r"
  by (simp_all add: fuel_le_def)

lemma fuel_le_bind:
  assumes "fuel_le r r'" and "\<And>c s. fuel_le (f c s) (f' c s)"
  shows "fuel_le (bindR r (\<lambda>(c, s). f c s)) (bindR r' (\<lambda>(c, s). f' c s))"
  using assms by (cases r) (auto simp: fuel_le_def bindR_def)

lemmas parse_simps = parseline.simps parsepipe.simps parseexec.simps parseblock.simps

lemma parse_fuel_le:
  "fuel_le (parseline n ps) (parseline (Suc n) ps)"
  "fuel_le (parsepipe n ps) (parsepipe (Suc n) ps)"
  "fuel_le (parseexec n ps) (parseexec (Suc n) ps)"
  "fuel_le (parseblock n ps) (parseblock (Suc n) ps)"
proof (induction n arbitrary: ps)
  case (Suc n)
  {
    case 1
    show ?case
      unfolding parseline.simps(2) [of n ps] parseline.simps(2) [of "Suc n" ps]
      by (intro fuel_le_bind Suc.IH) (auto simp del: parse_simps split: prod.split intro!: fuel_le_bind Suc.IH)
  next
    case 2
    show ?case
      unfolding parsepipe.simps(2) [of n ps] parsepipe.simps(2) [of "Suc n" ps]
      by (intro fuel_le_bind Suc.IH) (auto simp del: parse_simps split: prod.split intro!: fuel_le_bind Suc.IH)
  next
    case 3
    show ?case
      unfolding parseexec.simps(2) [of n ps] parseexec.simps(2) [of "Suc n" ps]
      by (auto simp del: parse_simps split: prod.split intro!: Suc.IH)
  next
    case 4
    show ?case
      unfolding parseblock.simps(2) [of n ps] parseblock.simps(2) [of "Suc n" ps]
      by (auto simp del: parse_simps split: prod.split intro!: fuel_le_bind Suc.IH)
  }
qed simp_all

lemma fuel_le_mono:
  assumes "\<And>n. fuel_le (p n) (p (Suc n))" and "n \<le> m" and "p n \<noteq> Inl Stuck"
  shows "p m = p n"
  using assms(2)
proof (induction rule: dec_induct)
  case (step k)
  with assms(1) [of k] assms(3) show ?case by (auto simp: fuel_le_def)
qed simp

lemma parse_fuel:
  "n \<le> m \<Longrightarrow> parseline n ps = Inr r \<Longrightarrow> parseline m ps = Inr r"
  "n \<le> m \<Longrightarrow> parsepipe n ps = Inr r \<Longrightarrow> parsepipe m ps = Inr r"
  "n \<le> m \<Longrightarrow> parseexec n ps = Inr r \<Longrightarrow> parseexec m ps = Inr r"
  using fuel_le_mono [of "\<lambda>n. parseline n ps" n m] fuel_le_mono [of "\<lambda>n. parsepipe n ps" n m]
    fuel_le_mono [of "\<lambda>n. parseexec n ps" n m] parse_fuel_le by auto

section \<open>Printing commands\<close>

datatype scmd =
    SExec "string list"
  | SRedir scmd string u32 nat
  | SPipe scmd scmd
  | SList scmd scmd
  | SBack scmd

definition token_text :: "token \<Rightarrow> string" where
  "token_text t = take (length (fst t) - length (snd t)) (fst t)"

primrec strip :: "cmd \<Rightarrow> scmd" where
  "strip (EXEC argv) = SExec (map token_text argv)"
| "strip (REDIR c f m fd) = SRedir (strip c) (token_text f) m fd"
| "strip (PIPE l r) = SPipe (strip l) (strip r)"
| "strip (LIST l r) = SList (strip l) (strip r)"
| "strip (BACK c) = SBack (strip c)"

type_synonym redir = "string \<times> u32 \<times> nat"

definition redir_op :: "u32 \<Rightarrow> string" where
  "redir_op m = (if m = O_RDONLY then ''<'' else if m = O_WRONLY OR O_CREATE OR O_TRUNC then ''>'' else ''>>'')"

primrec show_redirs :: "redir list \<Rightarrow> string" where
  "show_redirs [] = []"
| "show_redirs (r # rs) = redir_op (fst (snd r)) @ fst r @ '' '' @ show_redirs rs"

primrec wrap_redirs :: "redir list \<Rightarrow> scmd \<Rightarrow> scmd" where
  "wrap_redirs [] c = c"
| "wrap_redirs (r # rs) c = wrap_redirs rs (SRedir c (fst r) (fst (snd r)) (snd (snd r)))"

definition show_args :: "string list \<Rightarrow> string" where
  "show_args args = concat (map (\<lambda>a. a @ '' '') args)"

definition paren :: "bool \<Rightarrow> string \<Rightarrow> string" where
  "paren b s = (if b then ''('' @ s @ '')'' else s)"

text \<open>The level is 0 for a line, 1 for a line without semicolon, 2 for a pipeline, 3 below.\<close>

primrec show_cmd :: "nat \<Rightarrow> scmd \<Rightarrow> string" where
  "show_cmd l (SExec args) = show_args args"
| "show_cmd l (SRedir c f m fd) = show_cmd 3 c @ show_redirs [(f, m, fd)]"
| "show_cmd l (SPipe a b) = paren (l > 2) (show_cmd 3 a @ ''|'' @ show_cmd 2 b)"
| "show_cmd l (SBack a) = paren (l > 1) (show_cmd 1 a @ ''&'')"
| "show_cmd l (SList a b) = paren (l > 0) (show_cmd 1 a @ '';'' @ show_cmd 0 b)"

definition word :: "string \<Rightarrow> bool" where
  "word w \<longleftrightarrow> w \<noteq> [] \<and> (\<forall>c\<in>set w. is_word c)"

fun redir_wf :: "redir \<Rightarrow> bool" where
  "redir_wf (f, m, fd) \<longleftrightarrow> word f \<and>
     (m, fd) \<in> {(O_RDONLY, 0), (O_WRONLY OR O_CREATE OR O_TRUNC, 1), (O_WRONLY OR O_CREATE, 1)}"

primrec scmd_wf :: "scmd \<Rightarrow> bool" where
  "scmd_wf (SExec args) \<longleftrightarrow> length args < MAXARGS \<and> (\<forall>a\<in>set args. word a)"
| "scmd_wf (SRedir c f m fd) \<longleftrightarrow> scmd_wf c \<and> redir_wf (f, m, fd)"
| "scmd_wf (SPipe a b) \<longleftrightarrow> scmd_wf a \<and> scmd_wf b"
| "scmd_wf (SBack a) \<longleftrightarrow> scmd_wf a"
| "scmd_wf (SList a b) \<longleftrightarrow> scmd_wf a \<and> scmd_wf b"

text \<open>What may come after a printed command.\<close>

definition follows :: "string \<Rightarrow> string \<Rightarrow> bool" where
  "follows F s \<longleftrightarrow> (skip_ws s = [] \<or> hd (skip_ws s) \<in> set F)"

lemma ws_space [simp]: "skip_ws (CHR '' '' # s) = skip_ws s"
  by (simp add: skip_ws_def whitespace_def)

lemma skip_ws_nows: "c \<notin> set whitespace \<Longrightarrow> skip_ws (c # s) = c # s"
  by (simp add: skip_ws_def)

lemma skip_ws_word: "word w \<Longrightarrow> skip_ws (w @ s) = w @ s"
  by (cases w) (auto simp: word_def is_word_def skip_ws_def)

lemma gettoken_word:
  assumes "word w"
  shows "gettoken (w @ CHR '' '' # s) = (CHR ''a'', w @ CHR '' '' # s, CHR '' '' # s, skip_ws s)"
proof -
  obtain c t where w: "w = c # t" "is_word c" using assms by (cases w) (auto simp: word_def)
  then have c: "c \<notin> set ''|();&<''" "c \<noteq> CHR ''>''" by (auto simp: is_word_def symbols_def)
  have sp: "\<not> is_word CHR '' ''" by (simp add: is_word_def whitespace_def)
  have "dropWhile is_word (w @ CHR '' '' # s) = CHR '' '' # s"
    using assms sp by (subst dropWhile_append2) (auto simp: word_def)
  then show ?thesis
    using w c skip_ws_word [OF assms, of "CHR '' '' # s"]
    by (simp add: gettoken_def Let_def)
qed

lemma token_text_word [simp]: "token_text (w @ s, s) = w"
  by (simp add: token_text_def)

lemma peek_char: "c \<notin> set whitespace \<Longrightarrow> peek (c # s) F = (c \<in> set F, c # s)"
  by (simp add: peek_def skip_ws_nows)

lemma peek_follows: "follows F s \<Longrightarrow> set F \<inter> set G = {} \<Longrightarrow> peek s G = (False, skip_ws s)"
  by (auto simp: peek_def follows_def Let_def)

lemma gettoken_sym: "c \<in> set ''|();&<'' \<Longrightarrow> gettoken (c # s) = (c, c # s, s, skip_ws s)"
  by (auto simp: gettoken_def skip_ws_nows whitespace_def)

lemma peek_word: "word w \<Longrightarrow> set F \<subseteq> set symbols \<Longrightarrow> peek (w @ s) F = (False, w @ s)"
  by (cases w) (auto simp: peek_def skip_ws_def word_def is_word_def)

lemma peek_skip [simp]: "peek (skip_ws s) F = peek s F"
  by (simp add: peek_def)

lemma gettoken_skip [simp]: "gettoken (skip_ws s) = gettoken s"
  by (simp add: gettoken_def)

lemma parseredirs_skip [simp]: "parseredirs c (skip_ws s) = parseredirs c s"
  by (simp add: parseredirs.simps [of c s] parseredirs.simps [of c "skip_ws s"])

lemma parseargs_skip [simp]: "parseargs argv ret (skip_ws s) = parseargs argv ret s"
  by (simp add: parseargs.simps [of argv ret s] parseargs.simps [of argv ret "skip_ws s"])

lemma redir_op_token:
  assumes "redir_wf (f, m, fd)"
  obtains tok where "peek (redir_op m @ f @ s) ''<>'' = (True, redir_op m @ f @ s)"
    "fst (gettoken (redir_op m @ f @ s)) = tok" "rest_token (redir_op m @ f @ s) = f @ s"
    "\<And>t c. add_redir tok t c = REDIR c t m fd"
proof -
  have f: "word f" and m: "(m, fd) \<in> {(O_RDONLY, 0), (O_WRONLY OR O_CREATE OR O_TRUNC, 1), (O_WRONLY OR O_CREATE, 1)}"
    using assms by auto
  obtain c t where ft: "f = c # t" "c \<noteq> CHR ''>''" "c \<notin> set whitespace"
    using f by (cases f) (auto simp: word_def is_word_def symbols_def)
  have ne: "O_RDONLY \<noteq> O_WRONLY OR O_CREATE OR O_TRUNC" "O_RDONLY \<noteq> O_WRONLY OR O_CREATE"
    "O_WRONLY OR O_CREATE \<noteq> O_WRONLY OR O_CREATE OR O_TRUNC"
    by (simp_all add: O_RDONLY_def O_WRONLY_def O_CREATE_def O_TRUNC_def)
  have ws: "CHR ''<'' \<notin> set whitespace" "CHR ''>'' \<notin> set whitespace" by (simp_all add: whitespace_def)
  show ?thesis
    using m ne ws ft skip_ws_word [OF f, of s]
    by (intro that [OF _ refl])
      (auto simp: redir_op_def peek_char gettoken_def skip_ws_nows add_redir_def)
qed

lemma parseredirs_show:
  assumes "\<forall>r\<in>set rs. redir_wf r" and "peek rest ''<>'' = (False, skip_ws rest)"
  shows "\<exists>c'. parseredirs c (show_redirs rs @ rest) = Inr (c', skip_ws rest) \<and>
    strip c' = wrap_redirs rs (strip c) \<and>
    (\<forall>argv. strip (fill_exec argv c') = wrap_redirs rs (strip (fill_exec argv c)))"
  using assms(1)
proof (induction rs arbitrary: c)
  case Nil
  then show ?case using assms(2) by (simp add: parseredirs.simps [of c rest])
next
  case (Cons r rs)
  obtain f m fd where r: "r = (f, m, fd)" by (cases r)
  have wf: "redir_wf (f, m, fd)" "word f" using Cons.prems r by auto
  let ?s = "CHR '' '' # show_redirs rs @ rest"
  obtain tok where tok: "peek (redir_op m @ f @ ?s) ''<>'' = (True, redir_op m @ f @ ?s)"
    "fst (gettoken (redir_op m @ f @ ?s)) = tok" "rest_token (redir_op m @ f @ ?s) = f @ ?s"
    "\<And>t c. add_redir tok t c = REDIR c t m fd"
    using redir_op_token [OF wf(1)] by blast
  have "parseredirs c (redir_op m @ f @ ?s) = parseredirs (REDIR c (f @ ?s, ?s) m fd) (show_redirs rs @ rest)"
    by (subst parseredirs.simps) (simp add: tok gettoken_word [OF wf(2)])
  moreover have "\<forall>r\<in>set rs. redir_wf r" using Cons.prems by simp
  ultimately show ?case using Cons.IH [of "REDIR c (f @ ?s, ?s) m fd"] r by simp
qed

lemma parseargs_stop:
  assumes "follows ''|)&;'' rest"
  shows "parseargs argv c rest = Inr (fill_exec argv c, skip_ws rest)"
proof (cases "skip_ws rest")
  case Nil
  then have "peek rest ''|)&;'' = (False, [])" "gettoken [] = (CHR 0x00, [], [], [])"
    by (simp_all add: peek_def gettoken_def skip_ws_def)
  with Nil show ?thesis by (subst parseargs.simps) simp
next
  case (Cons x xs)
  with assms show ?thesis by (subst parseargs.simps) (auto simp: peek_def follows_def)
qed

lemma parseargs_show:
  assumes "\<forall>a\<in>set args. word a" and "length argv + length args < MAXARGS" and "args \<noteq> []"
    and "\<forall>r\<in>set rs. redir_wf r" and "follows ''|)&;'' rest"
  shows "\<exists>toks c'. map token_text toks = args \<and>
    parseargs argv ret (show_args args @ show_redirs rs @ rest) = Inr (c', skip_ws rest) \<and>
    strip c' = wrap_redirs rs (strip (fill_exec (argv @ toks) ret))"
  using assms(1-3)
proof (induction args arbitrary: argv ret)
  case (Cons a as)
  let ?s = "show_args as @ show_redirs rs @ rest"
  have a: "word a" and len: "length (argv @ [(a @ CHR '' '' # ?s, CHR '' '' # ?s)]) < MAXARGS" using Cons.prems by auto
  let ?t = "(a @ CHR '' '' # ?s, CHR '' '' # ?s)"
  have run: "parseargs argv ret (show_args (a # as) @ show_redirs rs @ rest) =
      bindR (parseredirs ret ?s) (\<lambda>(ret, s). parseargs (argv @ [?t]) ret s)"
    using len peek_word [OF a, of "''|)&;''" "CHR '' '' # ?s"]
    by (subst parseargs.simps) (simp add: show_args_def gettoken_word [OF a] symbols_def)
  show ?case
  proof (cases as)
    case Nil
    have "peek rest ''<>'' = (False, skip_ws rest)" using assms(5) by (rule peek_follows) auto
    from parseredirs_show [OF assms(4) this, of ret] obtain c' where
      c': "parseredirs ret ?s = Inr (c', skip_ws rest)"
      "strip (fill_exec (argv @ [?t]) c') = wrap_redirs rs (strip (fill_exec (argv @ [?t]) ret))"
      using Nil by (auto simp: show_args_def)
    have "parseargs (argv @ [?t]) c' rest = Inr (fill_exec (argv @ [?t]) c', skip_ws rest)"
      by (rule parseargs_stop [OF assms(5)])
    with c' run Nil show ?thesis by (intro exI [of _ "[?t]"]) simp
  next
    case (Cons b bs)
    then have "word b" "?s = b @ CHR '' '' # show_args bs @ show_redirs rs @ rest"
      using Cons.prems by (auto simp: show_args_def)
    then have "parseredirs ret ?s = Inr (ret, ?s)"
      using peek_word [of b "''<>''"] by (subst parseredirs.simps) (auto simp: symbols_def)
    moreover have "\<exists>toks c'. map token_text toks = as \<and>
        parseargs (argv @ [?t]) ret ?s = Inr (c', skip_ws rest) \<and>
        strip c' = wrap_redirs rs (strip (fill_exec ((argv @ [?t]) @ toks) ret))"
      by (rule Cons.IH) (use Cons.prems \<open>as = b # bs\<close> in simp_all)
    then obtain toks c' where "map token_text toks = as"
      "parseargs (argv @ [?t]) ret ?s = Inr (c', skip_ws rest)"
      "strip c' = wrap_redirs rs (strip (fill_exec ((argv @ [?t]) @ toks) ret))"
      by blast
    ultimately show ?thesis
      using run by (intro exI [of _ "?t # toks"] exI [of _ c']) simp
  qed
qed simp

definition exec_ok :: "string \<Rightarrow> scmd \<Rightarrow> bool" where
  "exec_ok s c \<longleftrightarrow> (\<forall>rs rest. (\<forall>r\<in>set rs. redir_wf r) \<longrightarrow> follows ''|)&;'' rest \<longrightarrow>
     (\<exists>n c'. parseexec n (s @ show_redirs rs @ rest) = Inr (c', skip_ws rest) \<and> strip c' = wrap_redirs rs c))"

definition pipe_ok :: "string \<Rightarrow> scmd \<Rightarrow> bool" where
  "pipe_ok s c \<longleftrightarrow> (\<forall>rest. follows '')&;'' rest \<longrightarrow>
     (\<exists>n c'. parsepipe n (s @ rest) = Inr (c', skip_ws rest) \<and> strip c' = c))"

definition amps_ok :: "string \<Rightarrow> scmd \<Rightarrow> bool" where
  "amps_ok s c \<longleftrightarrow> (\<forall>rest. follows '')&;'' rest \<longrightarrow>
     (\<exists>n c1 s1 c'. parsepipe n (s @ rest) = Inr (c1, s1) \<and> parseamps c1 s1 = parseamps c' rest \<and> strip c' = c))"

definition line_ok :: "string \<Rightarrow> scmd \<Rightarrow> bool" where
  "line_ok s c \<longleftrightarrow> (\<forall>rest. follows '')'' rest \<longrightarrow>
     (\<exists>n c'. parseline n (s @ rest) = Inr (c', skip_ws rest) \<and> strip c' = c))"

lemma follows_mono: "follows F s \<Longrightarrow> set F \<subseteq> set G \<Longrightarrow> follows G s"
  by (auto simp: follows_def)

lemma follows_char: "c \<notin> set whitespace \<Longrightarrow> c \<in> set F \<Longrightarrow> follows F (c # s)"
  by (simp add: follows_def skip_ws_nows)

lemma parse_skip [simp]:
  "parseexec n (skip_ws s) = parseexec n s"
  "parsepipe n (skip_ws s) = parsepipe n s"
  "parseline n (skip_ws s) = parseline n s"
proof -
  show e: "parseexec n (skip_ws s) = parseexec n s" for n by (cases n) simp_all
  show p: "parsepipe n (skip_ws s) = parsepipe n s" for n by (cases n) (simp_all add: e)
  show "parseline n (skip_ws s) = parseline n s" by (cases n) (simp_all add: p)
qed

lemma parseamps_skip [simp]: "parseamps c (skip_ws s) = parseamps c s"
  by (simp add: parseamps.simps [of c s] parseamps.simps [of c "skip_ws s"])

lemma sym_ws [simp]: "CHR ''|'' \<notin> set whitespace" "CHR ''&'' \<notin> set whitespace" "CHR '';'' \<notin> set whitespace"
  "CHR ''('' \<notin> set whitespace" "CHR '')'' \<notin> set whitespace"
  by (simp_all add: whitespace_def)

lemma exec_okD:
  "exec_ok s c \<Longrightarrow> \<forall>r\<in>set rs. redir_wf r \<Longrightarrow> follows ''|)&;'' rest \<Longrightarrow>
     \<exists>n c'. parseexec n (s @ show_redirs rs @ rest) = Inr (c', skip_ws rest) \<and> strip c' = wrap_redirs rs c"
  by (simp add: exec_ok_def)

lemma exec_okD0:
  "exec_ok s c \<Longrightarrow> follows ''|)&;'' rest \<Longrightarrow>
     \<exists>n c'. parseexec n (s @ rest) = Inr (c', skip_ws rest) \<and> strip c' = c"
  using exec_okD [of s c "[]"] by simp

lemma exec_ok_args:
  assumes "length args < MAXARGS" and "\<forall>a\<in>set args. word a"
  shows "exec_ok (show_args args) (SExec args)"
  unfolding exec_ok_def
proof (intro allI impI)
  fix rs rest
  assume rs: "\<forall>r\<in>set rs. redir_wf r" and rest: "follows ''|)&;'' rest"
  let ?s = "show_args args @ show_redirs rs @ rest"
  have stop: "peek rest ''<>'' = (False, skip_ws rest)" using rest by (rule peek_follows) auto
  have paren: "peek ?s ''('' = (False, skip_ws ?s)"
  proof (cases "args = [] \<and> rs = []")
    case True
    with rest show ?thesis by (auto intro: peek_follows simp: show_args_def)
  next
    case False
    then show ?thesis
    proof (cases args)
      case Nil
      then obtain r rs' where "rs = r # rs'" using False by (cases rs) auto
      then show ?thesis by (auto simp: Nil show_args_def redir_op_def peek_char peek_def skip_ws_def whitespace_def)
    next
      case (Cons a as)
      then show ?thesis
        using assms(2) peek_word [of a "''(''"] skip_ws_word [of a] by (auto simp: show_args_def symbols_def)
    qed
  qed
  have "\<exists>c'. bindR (parseredirs (EXEC []) ?s) (\<lambda>(ret, s). parseargs [] ret s) = Inr (c', skip_ws rest) \<and>
      strip c' = wrap_redirs rs (SExec args)"
  proof (cases args)
    case Nil
    with parseredirs_show [OF rs stop, of "EXEC []"] parseargs_stop [OF rest] show ?thesis
      by (fastforce simp: show_args_def)
  next
    case (Cons a as)
    then have "parseredirs (EXEC []) ?s = Inr (EXEC [], ?s)"
      using assms(2) peek_word [of a "''<>''"] by (subst parseredirs.simps) (auto simp: symbols_def show_args_def)
    with Cons parseargs_show [OF assms(2) _ _ rs rest, of "[]" "EXEC []"] assms(1) show ?thesis by fastforce
  qed
  then show "\<exists>n c'. parseexec n ?s = Inr (c', skip_ws rest) \<and> strip c' = wrap_redirs rs (SExec args)"
    using paren by (elim exE, intro exI [of _ "Suc 0"]) auto
qed

lemma exec_ok_redir:
  assumes "exec_ok s c" and "redir_wf (f, m, fd)"
  shows "exec_ok (s @ show_redirs [(f, m, fd)]) (SRedir c f m fd)"
  unfolding exec_ok_def
proof (intro allI impI)
  fix rs rest
  assume "\<forall>r\<in>set rs. redir_wf r" "follows ''|)&;'' rest"
  with exec_okD [OF assms(1), of "(f, m, fd) # rs" rest] assms(2)
  show "\<exists>n c'. parseexec n ((s @ show_redirs [(f, m, fd)]) @ show_redirs rs @ rest) = Inr (c', skip_ws rest) \<and>
      strip c' = wrap_redirs rs (SRedir c f m fd)"
    by simp
qed

lemma pipe_ok_exec:
  assumes "exec_ok s c"
  shows "pipe_ok s c"
  unfolding pipe_ok_def
proof (intro allI impI)
  fix rest assume r: "follows '')&;'' rest"
  then have "follows ''|)&;'' rest" by (rule follows_mono) auto
  then obtain n c' where "parseexec n (s @ rest) = Inr (c', skip_ws rest)" "strip c' = c"
    using exec_okD0 [OF assms] by blast
  then show "\<exists>n c'. parsepipe n (s @ rest) = Inr (c', skip_ws rest) \<and> strip c' = c"
    using peek_follows [OF r, of "''|''"] by (intro exI [of _ "Suc n"] exI [of _ c']) simp
qed

lemma pipe_ok_pipe:
  assumes "exec_ok s c" and "pipe_ok t d"
  shows "pipe_ok (s @ ''|'' @ t) (SPipe c d)"
  unfolding pipe_ok_def
proof (intro allI impI)
  fix rest assume r: "follows '')&;'' rest"
  obtain n c' where c: "parseexec n (s @ CHR ''|'' # t @ rest) = Inr (c', CHR ''|'' # t @ rest)" "strip c' = c"
    using exec_okD0 [OF assms(1) follows_char [of "CHR ''|''" "''|)&;''" "t @ rest"]]
    by (auto simp: skip_ws_nows)
  obtain m d' where d: "parsepipe m (t @ rest) = Inr (d', skip_ws rest)" "strip d' = d"
    using assms(2) r unfolding pipe_ok_def by blast
  have "parseexec (max n m) (s @ CHR ''|'' # t @ rest) = Inr (c', CHR ''|'' # t @ rest)"
    "parsepipe (max n m) (t @ rest) = Inr (d', skip_ws rest)"
    using parse_fuel(3) [OF _ c(1), of "max n m"] parse_fuel(2) [OF _ d(1), of "max n m"] by simp_all
  then show "\<exists>n c'. parsepipe n ((s @ ''|'' @ t) @ rest) = Inr (c', skip_ws rest) \<and> strip c' = SPipe c d"
    using c(2) d(2) by (intro exI [of _ "Suc (max n m)"] exI [of _ "PIPE c' d'"]) (simp add: peek_char gettoken_sym)
qed

lemma amps_ok_pipe: "pipe_ok s c \<Longrightarrow> amps_ok s c"
  unfolding pipe_ok_def amps_ok_def by (metis parseamps_skip)

lemma amps_ok_back:
  assumes "amps_ok s c"
  shows "amps_ok (s @ ''&'') (SBack c)"
  unfolding amps_ok_def
proof (intro allI impI)
  fix rest
  obtain n c1 s1 c' where "parsepipe n (s @ CHR ''&'' # rest) = Inr (c1, s1)"
    "parseamps c1 s1 = parseamps c' (CHR ''&'' # rest)" "strip c' = c"
    using assms follows_char [of "CHR ''&''" "'')&;''" rest] unfolding amps_ok_def by auto
  moreover have "parseamps c' (CHR ''&'' # rest) = parseamps (BACK c') rest"
    by (subst parseamps.simps) (simp add: peek_char gettoken_sym)
  ultimately show "\<exists>n c1 s1 c'. parsepipe n ((s @ ''&'') @ rest) = Inr (c1, s1) \<and>
      parseamps c1 s1 = parseamps c' rest \<and> strip c' = SBack c"
    by (intro exI [of _ n] exI [of _ c1] exI [of _ s1] exI [of _ "BACK c'"]) simp
qed

lemma parseamps_stop: "follows '');'' s \<Longrightarrow> parseamps c s = (c, skip_ws s)"
  using peek_follows [of "'');''" s "''&''"] by (subst parseamps.simps) simp

lemma line_ok_amps:
  assumes "amps_ok s c"
  shows "line_ok s c"
  unfolding line_ok_def
proof (intro allI impI)
  fix rest assume r: "follows '')'' rest"
  then have "follows '')&;'' rest" "follows '');'' rest" by (auto elim: follows_mono)
  with assms obtain n c1 s1 c' where "parsepipe n (s @ rest) = Inr (c1, s1)"
    "parseamps c1 s1 = (c', skip_ws rest)" "strip c' = c"
    unfolding amps_ok_def using parseamps_stop by metis
  then show "\<exists>n c'. parseline n (s @ rest) = Inr (c', skip_ws rest) \<and> strip c' = c"
    using peek_follows [OF r, of "'';''"] by (intro exI [of _ "Suc n"] exI [of _ c']) simp
qed

lemma line_ok_list:
  assumes "amps_ok s c" and "line_ok t d"
  shows "line_ok (s @ '';'' @ t) (SList c d)"
  unfolding line_ok_def
proof (intro allI impI)
  fix rest assume r: "follows '')'' rest"
  have "follows '')&;'' (CHR '';'' # t @ rest)" "follows '');'' (CHR '';'' # t @ rest)"
    by (auto intro: follows_char)
  with assms(1) obtain n c1 s1 c' where c: "parsepipe n (s @ CHR '';'' # t @ rest) = Inr (c1, s1)"
    "parseamps c1 s1 = (c', CHR '';'' # t @ rest)" "strip c' = c"
    unfolding amps_ok_def using parseamps_stop by (metis skip_ws_nows sym_ws(3))
  obtain m d' where d: "parseline m (t @ rest) = Inr (d', skip_ws rest)" "strip d' = d"
    using assms(2) r unfolding line_ok_def by blast
  have "parsepipe (max n m) (s @ CHR '';'' # t @ rest) = Inr (c1, s1)"
    "parseline (max n m) (t @ rest) = Inr (d', skip_ws rest)"
    using parse_fuel(2) [OF _ c(1), of "max n m"] parse_fuel(1) [OF _ d(1), of "max n m"] by simp_all
  then show "\<exists>n c'. parseline n ((s @ '';'' @ t) @ rest) = Inr (c', skip_ws rest) \<and> strip c' = SList c d"
    using c(2,3) d(2) by (intro exI [of _ "Suc (max n m)"] exI [of _ "LIST c' d'"]) (simp add: peek_char gettoken_sym)
qed

lemma exec_ok_block:
  assumes "line_ok s c"
  shows "exec_ok (''('' @ s @ '')'') c"
  unfolding exec_ok_def
proof (intro allI impI)
  fix rs rest
  assume rs: "\<forall>r\<in>set rs. redir_wf r" and rest: "follows ''|)&;'' rest"
  obtain n c' where c: "parseline n (s @ CHR '')'' # show_redirs rs @ rest) = Inr (c', CHR '')'' # show_redirs rs @ rest)" "strip c' = c"
    using assms follows_char [of "CHR '')''" "'')''" "show_redirs rs @ rest"]
    unfolding line_ok_def by (auto simp: skip_ws_nows)
  have "peek rest ''<>'' = (False, skip_ws rest)" using rest by (rule peek_follows) auto
  from parseredirs_show [OF rs this, of c'] c show "\<exists>n c'. parseexec n ((''('' @ s @ '')'') @ show_redirs rs @ rest) =
      Inr (c', skip_ws rest) \<and> strip c' = wrap_redirs rs c"
    by (elim exE conjE, intro exI [of _ "Suc (Suc n)"]) (auto simp: peek_char gettoken_sym)
qed

lemmas show_cmd_steps = pipe_ok_exec pipe_ok_pipe amps_ok_pipe amps_ok_back line_ok_amps line_ok_list exec_ok_block

lemma show_cmd_parses:
  "scmd_wf c \<Longrightarrow> exec_ok (show_cmd 3 c) c \<and> pipe_ok (show_cmd 2 c) c \<and>
     amps_ok (show_cmd 1 c) c \<and> line_ok (show_cmd 0 c) c"
proof (induction c)
  case (SExec args)
  then have "exec_ok (show_args args) (SExec args)" by (auto intro: exec_ok_args)
  then show ?case by (simp add: show_cmd_steps)
next
  case (SRedir c f m fd)
  then have "exec_ok (show_cmd 3 c @ show_redirs [(f, m, fd)]) (SRedir c f m fd)"
    by (intro exec_ok_redir) auto
  then show ?case by (simp add: show_cmd_steps)
next
  case (SPipe a b)
  then have "pipe_ok (show_cmd 3 a @ ''|'' @ show_cmd 2 b) (SPipe a b)" by (intro pipe_ok_pipe) auto
  then have "pipe_ok (show_cmd 2 (SPipe a b)) (SPipe a b)" "exec_ok (show_cmd 3 (SPipe a b)) (SPipe a b)"
    using exec_ok_block [OF line_ok_amps [OF amps_ok_pipe], of "show_cmd 3 a @ ''|'' @ show_cmd 2 b"]
    by (simp_all add: paren_def)
  then show ?case by (simp add: paren_def show_cmd_steps)
next
  case (SList a b)
  then have l: "line_ok (show_cmd 1 a @ '';'' @ show_cmd 0 b) (SList a b)" by (intro line_ok_list) auto
  then have "exec_ok (''('' @ (show_cmd 1 a @ '';'' @ show_cmd 0 b) @ '')'') (SList a b)" by (rule exec_ok_block)
  with l show ?case by (simp add: paren_def show_cmd_steps)
next
  case (SBack a)
  then have l: "amps_ok (show_cmd 1 a @ ''&'') (SBack a)" by (intro amps_ok_back) auto
  then have "exec_ok (''('' @ (show_cmd 1 a @ ''&'') @ '')'') (SBack a)" by (intro exec_ok_block line_ok_amps)
  with l show ?case by (simp add: paren_def show_cmd_steps)
qed

section \<open>The words of a parsed command\<close>

primrec tokens :: "cmd \<Rightarrow> token list" where
  "tokens (EXEC argv) = argv"
| "tokens (REDIR c f m fd) = tokens c @ [f]"
| "tokens (PIPE l r) = tokens l @ tokens r"
| "tokens (LIST l r) = tokens l @ tokens r"
| "tokens (BACK c) = tokens c"

definition tok_ok :: "string \<Rightarrow> token \<Rightarrow> bool" where
  "tok_ok buf t \<longleftrightarrow> suffix (fst t) buf \<and> fst t = token_text t @ snd t \<and> word (token_text t) \<and>
     (snd t = [] \<or> \<not> is_word (hd (snd t)))"

definition good :: "string \<Rightarrow> (cmd \<times> string) res \<Rightarrow> bool" where
  "good buf r \<longleftrightarrow> (\<forall>c s. r = Inr (c, s) \<longrightarrow> suffix s buf \<and> (\<forall>t\<in>set (tokens c). tok_ok buf t))"

lemma good_simps [simp]:
  "good buf (Inr (c, s)) \<longleftrightarrow> suffix s buf \<and> (\<forall>t\<in>set (tokens c). tok_ok buf t)" "good buf (Inl e)"
  "good buf (panic m)"
  by (auto simp: good_def)

lemma good_bind:
  assumes "good buf r"
    and "\<And>c s. r = Inr (c, s) \<Longrightarrow> suffix s buf \<Longrightarrow> \<forall>t\<in>set (tokens c). tok_ok buf t \<Longrightarrow> good buf (f c s)"
  shows "good buf (bindR r (\<lambda>(c, s). f c s))"
  using assms by (cases r) (auto simp: good_def)

lemma suffix_skip_ws: "suffix s buf \<Longrightarrow> suffix (skip_ws s) buf"
  unfolding skip_ws_def by (rule suffix_order.trans [OF suffix_dropWhile])

lemma suffix_peek: "peek s F = (b, s') \<Longrightarrow> suffix s buf \<Longrightarrow> suffix s' buf"
  by (auto simp: peek_def Let_def suffix_skip_ws)

lemma gettoken_a:
  assumes "gettoken ps = (CHR ''a'', q, eq, s)"
  shows "q = skip_ws ps" and "eq = dropWhile is_word (skip_ws ps)" and "s = skip_ws eq"
    and "skip_ws ps \<noteq> []" and "is_word (hd (skip_ws ps))"
proof -
  obtain c t where ct: "skip_ws ps = c # t" using assms by (cases "skip_ws ps") (auto simp: gettoken_def)
  have "c \<notin> set ''|();&<''" using assms ct by (cases "c = CHR ''a''") (auto simp: gettoken_def)
  moreover have "c \<noteq> CHR ''>''" using assms ct by (auto simp: gettoken_def Let_def split: if_splits)
  moreover have "c \<notin> set whitespace" using ct by (auto simp: skip_ws_def dropWhile_eq_Cons_conv)
  ultimately have "gettoken ps = (CHR ''a'', c # t, dropWhile is_word (c # t), skip_ws (dropWhile is_word (c # t)))"
    and "is_word c"
    by (simp_all add: gettoken_def ct Let_def is_word_def symbols_def del: dropWhile.simps)
  then have "c # t = q \<and> dropWhile is_word (c # t) = eq \<and> skip_ws (dropWhile is_word (c # t)) = s"
    and "is_word c"
    using assms by (simp_all del: dropWhile.simps)
  with ct show "q = skip_ws ps" "eq = dropWhile is_word (skip_ws ps)" "s = skip_ws eq"
    "skip_ws ps \<noteq> []" "is_word (hd (skip_ws ps))"
    by (metis list.sel(1) list.distinct(1))+
qed

lemma gettoken_good:
  assumes "gettoken ps = (tok, q, eq, s)" and "suffix ps buf"
  shows "suffix s buf" and "tok = CHR ''a'' \<Longrightarrow> tok_ok buf (q, eq)"
proof -
  have tl: "suffix x buf" if "suffix (c # x) buf" for c x using that by (rule suffix_ConsD)
  have ws: "suffix (skip_ws ps) buf" using assms(2) by (rule suffix_skip_ws)
  have w: "suffix (dropWhile is_word x) buf" if "suffix x buf" for x
    using that by (rule suffix_order.trans [OF suffix_dropWhile])
  show "suffix s buf"
  proof (cases "skip_ws ps")
    case (Cons c t)
    then have "suffix t buf" "suffix (tl t) buf" using ws tl [of c t] tl [of "hd t" "tl t"] by (cases t; simp)+
    with Cons assms(1) w [OF ws] show ?thesis
      by (auto simp: gettoken_def Let_def simp del: dropWhile.simps split: if_splits intro!: suffix_skip_ws)
  qed (use assms(1) in \<open>simp add: gettoken_def\<close>)
  assume "tok = CHR ''a''"
  note a = gettoken_a [OF assms(1) [unfolded this]]
  let ?w = "takeWhile is_word (skip_ws ps)"
  have split: "q = ?w @ eq" using a(1,2) by simp
  then have w: "token_text (q, eq) = ?w" by simp
  have "word ?w"
    using a(4,5) by (cases "skip_ws ps") (auto simp: word_def dest: set_takeWhileD)
  moreover have "eq = [] \<or> \<not> is_word (hd eq)" using a(2) hd_dropWhile by metis
  ultimately show "tok_ok buf (q, eq)"
    unfolding tok_ok_def fst_conv snd_conv w using ws a(1) split by simp
qed

lemma suffix_rest_token: "suffix s buf \<Longrightarrow> suffix (rest_token s) buf"
  by (metis gettoken_good(1) prod.collapse)

lemma parseredirs_good: "suffix ps buf \<Longrightarrow> \<forall>t\<in>set (tokens c). tok_ok buf t \<Longrightarrow> good buf (parseredirs c ps)"
proof (induction "length ps" arbitrary: c ps rule: less_induct)
  case less
  show ?case
  proof (cases rule: parseredirs_cases [of ps c])
    case (stop s)
    with less.prems suffix_peek show ?thesis by fastforce
  next
    case (more s q eq s')
    have s: "suffix (rest_token s) buf" using suffix_peek [OF more(1) less.prems(1)] by (rule suffix_rest_token)
    have "tokens (add_redir tok (q, eq) c) = tokens c @ [(q, eq)] \<or> tokens (add_redir tok (q, eq) c) = tokens c" for tok
      by (simp add: add_redir_def)
    then have "\<forall>t\<in>set (tokens (add_redir (fst (gettoken s)) (q, eq) c)). tok_ok buf t"
      using gettoken_good(2) [OF more(2) s] less.prems(2) by (metis (no_types, lifting) Un_iff empty_iff empty_set list.set_cases set_ConsD set_append)
    then show ?thesis using less.hyps [OF more(4) gettoken_good(1) [OF more(2) s]] more(3) by simp
  qed (use less.prems in simp)
qed

lemma tokens_fill_exec: "set (tokens (fill_exec argv c)) \<subseteq> set argv \<union> set (tokens c)"
  by (induction c) auto

lemma parseargs_good:
  "suffix ps buf \<Longrightarrow> \<forall>t\<in>set argv \<union> set (tokens ret). tok_ok buf t \<Longrightarrow> good buf (parseargs argv ret ps)"
proof (induction "length ps" arbitrary: argv ret ps rule: less_induct)
  case less
  have fe: "\<forall>t\<in>set (tokens (fill_exec argv ret)). tok_ok buf t"
    using tokens_fill_exec [of argv ret] less.prems(2) by blast
  show ?case
  proof (cases rule: parseargs_cases [of argv ret ps])
    case stop
    with fe less.prems(1) show ?thesis by (simp add: suffix_skip_ws)
  next
    case (more s q eq s')
    have s: "suffix s buf" using suffix_peek [OF more(1) less.prems(1)] .
    show ?thesis
      unfolding more(3)
    proof (rule good_bind)
      show "good buf (parseredirs ret s')"
        using gettoken_good(1) [OF more(2) s] less.prems(2) by (intro parseredirs_good) auto
      fix c s2
      assume "parseredirs ret s' = Inr (c, s2)" "suffix s2 buf" "\<forall>t\<in>set (tokens c). tok_ok buf t"
      then show "good buf (parseargs (argv @ [(q, eq)]) c s2)"
        using parseredirs_length [of ret s'] more(4) gettoken_good(2) [OF more(2) s] less.prems(2)
        by (intro less.hyps) auto
    qed
  qed simp
qed

lemma parseamps_good: "suffix ps buf \<Longrightarrow> parseamps c ps = (c', s) \<Longrightarrow> suffix s buf \<and> tokens c' = tokens c"
proof (induction "length ps" arbitrary: c ps rule: less_induct)
  case less
  obtain b s1 where p: "peek ps ''&'' = (b, s1)" by (cases "peek ps ''&''")
  have s1: "suffix s1 buf" using suffix_peek [OF p less.prems(1)] .
  show ?case
  proof (cases b)
    case True
    have "length (rest_token s1) < length ps" using peek_length [OF p] True by simp
    moreover have "parseamps (BACK c) (rest_token s1) = (c', s)"
      using less.prems p True by (subst (asm) parseamps.simps) simp
    ultimately show ?thesis using less.hyps suffix_rest_token [OF s1] by fastforce
  next
    case False
    with less.prems p s1 show ?thesis by (subst (asm) parseamps.simps) simp
  qed
qed

lemma parse_good:
  "suffix ps buf \<Longrightarrow> good buf (parseline n ps)"
  "suffix ps buf \<Longrightarrow> good buf (parsepipe n ps)"
  "suffix ps buf \<Longrightarrow> good buf (parseexec n ps)"
  "suffix ps buf \<Longrightarrow> good buf (parseblock n ps)"
proof (induction n arbitrary: ps)
  case (Suc n)
  {
    case 1
    show ?case
      unfolding parseline.simps(2) [of n ps] using Suc.IH(2) [OF 1]
    proof (rule good_bind)
      fix c s assume s: "suffix s buf" "\<forall>t\<in>set (tokens c). tok_ok buf t"
      obtain c1 s1 where a: "parseamps c s = (c1, s1)" by (cases "parseamps c s")
      obtain b s2 where p: "peek s1 '';'' = (b, s2)" by (cases "peek s1 '';''")
      have s2: "suffix s2 buf" "tokens c1 = tokens c"
        using parseamps_good [OF s(1) a] suffix_peek [OF p] by auto
      have "good buf (bindR (parseline n (rest_token s2)) (\<lambda>(d, ps). Inr (LIST c1 d, ps)))"
        by (rule good_bind [OF Suc.IH(1) [OF suffix_rest_token [OF s2(1)]]]) (use s(2) s2 in auto)
      with s2 s(2) show "good buf (case parseamps c s of (c, ps) \<Rightarrow> case peek ps '';'' of (b, s) \<Rightarrow>
         if b then bindR (parseline n (rest_token s)) (\<lambda>(d, ps). Inr (LIST c d, ps)) else Inr (c, s))"
        by (simp add: a p)
    qed
  next
    case 2
    show ?case
      unfolding parsepipe.simps(2) [of n ps] using Suc.IH(3) [OF 2]
      by (rule good_bind) (auto split: prod.split intro!: good_bind [OF Suc.IH(2)] dest!: suffix_peek
        intro: suffix_rest_token)
  next
    case 3
    then show ?case
      by (auto split: prod.split intro!: Suc.IH good_bind [OF parseredirs_good] parseargs_good dest: suffix_peek)
  next
    case 4
    then show ?case
      by (auto split: prod.split intro!: good_bind [OF Suc.IH(1)] parseredirs_good suffix_rest_token dest!: suffix_peek)
  }
qed simp_all

lemma nulterminate_nth:
  "length (nulterminate c b) = length b \<and> (\<forall>i < length b. nulterminate c b ! i =
     (if \<exists>t\<in>set (tokens c). i = length b - 1 - length (snd t) then CHR 0x00 else b ! i))"
proof (induction c arbitrary: b)
  case (EXEC argv)
  show ?case
  proof (induction argv arbitrary: b)
    case (Cons t argv)
    show ?case using Cons [of "put_nul (snd t) b"] by (cases t) (auto simp: put_nul_def nth_list_update)
  qed simp
qed (auto simp: put_nul_def nth_list_update)

definition cstr_at :: "string \<Rightarrow> string \<Rightarrow> string" where
  "cstr_at p buf = takeWhile (\<lambda>c. c \<noteq> CHR 0x00) (drop (length buf - 1 - length p) buf)"

lemma nulterminate_cstr:
  assumes "\<forall>t\<in>set (tokens c). tok_ok buf t" and "CHR 0x00 \<notin> set buf" and "t \<in> set (tokens c)"
  shows "cstr_at (fst t) (nulterminate c (buf @ [CHR 0x00])) = token_text t"
proof -
  let ?b = "nulterminate c (buf @ [CHR 0x00])" and ?w = "token_text t"
  obtain pre where buf: "buf = pre @ ?w @ snd t" "fst t = ?w @ snd t" "\<forall>c\<in>set ?w. is_word c"
    using assms(1,3) by (fastforce simp: tok_ok_def suffix_def word_def)
  have len: "length ?b = Suc (length buf)" using nulterminate_nth by simp
  have keep: "?b ! (length pre + j) = ?w ! j" if j: "j < length ?w" for j
  proof -
    have "length pre + j \<noteq> length buf - length (snd t')" if t': "t' \<in> set (tokens c)" for t'
    proof
      assume eq: "length pre + j = length buf - length (snd t')"
      obtain pre' where b': "buf = pre' @ snd t'" and h: "snd t' = [] \<or> \<not> is_word (hd (snd t'))"
        using assms(1) t' by (fastforce simp: tok_ok_def suffix_def)
      have "snd t' \<noteq> []" using eq j buf(1) by auto
      moreover have "buf ! (length pre + j) = ?w ! j"
        using j by (subst buf(1)) (simp add: nth_append)
      moreover have "buf ! (length pre + j) = hd (snd t')"
        using b' eq \<open>snd t' \<noteq> []\<close> by (simp add: hd_conv_nth nth_append)
      ultimately show False using h buf(3) j by (metis nth_mem)
    qed
    moreover have "length pre + j < length buf" using buf(1) j by (metis add_less_cancel_left length_append trans_less_add1)
    moreover have "buf ! (length pre + j) = ?w ! j" using j by (subst buf(1)) (simp add: nth_append)
    ultimately show ?thesis
      using nulterminate_nth [of c "buf @ [CHR 0x00]"] by (auto simp: nth_append)
  qed
  have nul: "?b ! (length pre + length ?w) = CHR 0x00"
  proof -
    have "length pre + length ?w = length buf - length (snd t)" using arg_cong [OF buf(1), of length] by simp
    then show ?thesis using nulterminate_nth [of c "buf @ [CHR 0x00]"] assms(3) by auto
  qed
  have "length buf - length (fst t) = length pre"
    using arg_cong [OF buf(1), of length] arg_cong [OF buf(2), of length] by simp
  moreover have "length pre + length ?w \<le> length buf" using arg_cong [OF buf(1), of length] by simp
  moreover have "?w ! j \<noteq> CHR 0x00" if "j < length ?w" for j
    using assms(2) buf(1) nth_mem [OF that] by (metis Un_iff set_append)
  ultimately have "takeWhile (\<lambda>c. c \<noteq> CHR 0x00) (drop (length ?b - 1 - length (fst t)) ?b) =
      take (length ?w) (drop (length pre) ?b)"
    using keep nul by (subst takeWhile_eq_take_P_nth [where n = "length ?w"]) (auto simp: len)
  also have "\<dots> = ?w"
    using keep len \<open>length pre + length ?w \<le> length buf\<close> by (intro nth_equalityI) auto
  finally show ?thesis by (simp add: cstr_at_def)
qed

section \<open>Properties\<close>

lemma parsecmd_of_line:
  assumes "parseline n buf = Inr (c, s)" and "skip_ws s = []"
  shows "parsecmd buf = Inr (c, nulterminate c (buf @ [CHR 0x00]))"
proof -
  let ?k = "4 * length buf + 4"
  have "ret_ok (length buf) (parseline ?k buf)" by (rule parse_returns(1)) simp
  then have "parseline (max n ?k) buf = parseline ?k buf"
    by (intro fuel_le_mono [of "\<lambda>n. parseline n buf"] parse_fuel_le) (auto simp: ret_ok_def)
  then have "parseline ?k buf = Inr (c, s)" using parse_fuel(1) [OF _ assms(1), of "max n ?k"] by simp
  with assms(2) show ?thesis by (simp add: parsecmd_def peek_def)
qed

text \<open>
  (C10) Parsing a line always ends: whatever the user types, \<open>parsecmd\<close> either returns a command
  or stops the shell with one of its own error messages. The recursion through
  parseline, parsepipe, parseexec and parseblock never runs on without consuming input.
\<close>

theorem parsecmd_terminates:
  "(\<exists>c b. parsecmd buf = Inr (c, b)) \<or> (\<exists>msg. parsecmd buf = panic msg)"
proof -
  have "ret_ok (length buf) (parseline (4 * length buf + 4) buf)" by (rule parse_returns(1)) simp
  then have "parsecmd buf \<noteq> Inl Stuck"
    by (cases "parseline (4 * length buf + 4) buf") (auto simp: parsecmd_def ret_ok_def peek_def Let_def split: if_splits)
  then show ?thesis
    by (cases "parsecmd buf"; cases "projl (parsecmd buf)") (auto simp: panic_def)
qed

text \<open>
  (C9) Round trip: print any well-formed command tree (words, redirections, pipes, lists,
  background jobs, nested in any way) with the parentheses the grammar asks for, and \<open>parsecmd\<close>
  gives that tree back; precedence and right associativity of \<open>|\<close> and \<open>;\<close> come out right.
\<close>

theorem parsecmd_show_roundtrip:
  assumes "scmd_wf c"
  shows "\<exists>c' b. parsecmd (show_cmd 0 c) = Inr (c', b) \<and> strip c' = c"
proof -
  have "line_ok (show_cmd 0 c) c" using show_cmd_parses [OF assms] by simp
  moreover have "follows '')'' []" by (simp add: follows_def skip_ws_def)
  ultimately obtain n c' where "parseline n (show_cmd 0 c) = Inr (c', skip_ws [])" "strip c' = c"
    unfolding line_ok_def by (metis append_Nil2)
  then show ?thesis using parsecmd_of_line [of n "show_cmd 0 c"] by (simp add: skip_ws_def)
qed

definition demo_scmd :: scmd where
  "demo_scmd = SList (SBack (SPipe (SExec [''cat'', ''a'']) (SExec [''wc''])))
     (SRedir (SList (SExec [''ls'']) (SExec [''echo'', ''x''])) ''out'' (O_WRONLY OR O_CREATE) 1)"

theorem parsecmd_show_roundtrip_witness:
  "scmd_wf demo_scmd \<and> show_cmd 0 demo_scmd = ''cat a |wc &;(ls ;echo x )>>out '' \<and>
   (\<exists>c' b. parsecmd ''cat a |wc &;(ls ;echo x )>>out '' = Inr (c', b) \<and> strip c' = demo_scmd)"
proof -
  have "scmd_wf demo_scmd" "show_cmd 0 demo_scmd = ''cat a |wc &;(ls ;echo x )>>out ''"
    by code_simp+
  with parsecmd_show_roundtrip [of demo_scmd] show ?thesis by simp
qed

text \<open>
  (C11) After \<open>nulterminate\<close> every argument and every file name of the parsed command is a C string
  in the line buffer that reads exactly as the word did: the NULs stored behind the words never cut
  another word short, although all words share the one buffer.
\<close>

theorem nulterminate_words:
  assumes "parsecmd buf = Inr (c, b)" and "CHR 0x00 \<notin> set buf" and "t \<in> set (tokens c)"
  shows "cstr_at (fst t) b = token_text t \<and> word (token_text t)"
proof -
  obtain s where "parseline (4 * length buf + 4) buf = Inr (c, s)" "b = nulterminate c (buf @ [CHR 0x00])"
    using assms(1) by (cases "parseline (4 * length buf + 4) buf") (auto simp: parsecmd_def peek_def Let_def split: if_splits)
  moreover have "good buf (parseline (4 * length buf + 4) buf)" by (rule parse_good(1)) simp
  ultimately have "\<forall>t\<in>set (tokens c). tok_ok buf t" "b = nulterminate c (buf @ [CHR 0x00])" by simp_all
  then show ?thesis using nulterminate_cstr [OF _ assms(2,3)] assms(3) unfolding tok_ok_def by blast
qed

definition demo_word :: token where
  "demo_word = (''wc>f;ls'', ''>f;ls'')"

theorem nulterminate_words_witness:
  "parsecmd ''wc>f;ls'' =
     Inr (LIST (REDIR (EXEC [demo_word]) (''f;ls'', '';ls'') (O_WRONLY OR O_CREATE OR O_TRUNC) 1) (EXEC [(''ls'', [])]),
       ''wc'' @ [CHR 0x00] @ ''f'' @ [CHR 0x00] @ ''ls'' @ [CHR 0x00]) \<and>
   cstr_at (fst demo_word) (''wc'' @ [CHR 0x00] @ ''f'' @ [CHR 0x00] @ ''ls'' @ [CHR 0x00]) = ''wc''"
proof -
  have p: "parsecmd ''wc>f;ls'' =
     Inr (LIST (REDIR (EXEC [demo_word]) (''f;ls'', '';ls'') (O_WRONLY OR O_CREATE OR O_TRUNC) 1) (EXEC [(''ls'', [])]),
       ''wc'' @ [CHR 0x00] @ ''f'' @ [CHR 0x00] @ ''ls'' @ [CHR 0x00])"
    by code_simp
  have "token_text demo_word = ''wc''" by code_simp
  with nulterminate_words [OF p, of demo_word] p show ?thesis by simp
qed

end
