(* ===== verification/Proc.thy ===== *)
theory Proc
  imports Ucopy
begin

text \<open>
  Processes: \<open>kernel/proc.c\<close> without the four functions that need the file system
  (\<open>fork\<close>, \<open>exit\<close>, \<open>userinit\<close>, \<open>forkret\<close>), \<open>kernel/swtch.S\<close> and the process part of
  \<open>kernel/proc.h\<close>.  A process is an index into \<open>procs\<close>; pointers to open files and inodes
  are indices into the tables of those components.  What the rest of the system does between a
  switch away from a kernel thread and the switch back to it is a parameter of \<open>sched\<close>,
  \<open>yield\<close>, \<open>sleep\<close> and \<open>scheduler\<close>; a loop around \<open>sleep\<close> takes a list of them, one
  for each time it sleeps, and does not return once the list is used up.
\<close>

section \<open>Data\<close>

datatype procstate = UNUSED | USED | SLEEPING | RUNNABLE | RUNNING | ZOMBIE

text \<open>The addresses that kernel threads sleep on.\<close>

datatype chan =
    ChanProc nat | ChanTicks | ChanSleepLock slockid | ChanLog | ChanBuf nat | ChanVdiskFree
  | ChanPipeRead u64 | ChanPipeWrite u64 | ChanCons | ChanUart

record proc =
  p_state :: procstate
  p_chan :: "chan option"
  p_killed :: u32
  p_xstate :: u32
  p_pid :: u32
  p_parent :: "nat option"
  p_kstack :: u64
  p_sz :: u64
  p_pagetable :: u64
  p_trapframe :: u64
  p_context :: swtch_context
  p_ofile :: "nat option list"
  p_cwd :: "nat option"
  p_name :: string

text \<open>
  \<open>kregs\<close> are the registers \<open>swtch\<close> saves, per hart; \<open>sym_forkret\<close> and
  \<open>sym_usertrap\<close> are addresses of kernel functions.
\<close>

record pst = vmst +
  procs :: "nat \<Rightarrow> proc"
  nextpid :: u32
  initproc :: "nat option"
  kregs :: "nat \<Rightarrow> swtch_context"
  sym_forkret :: u64
  sym_usertrap :: u64
  ticks :: u32

type_synonym 's others = "'s \<Rightarrow> (unit \<times> 's) res"

definition alone :: "'s others" where
  "alone s = Inl Stuck"

definition upd_proc :: "nat \<Rightarrow> (proc \<Rightarrow> proc) \<Rightarrow> 'a pst_scheme \<Rightarrow> 'a pst_scheme" where
  "upd_proc p f s = s\<lparr>procs := (procs s)(p := f (procs s p))\<rparr>"

text \<open>Offsets of \<open>struct trapframe\<close>, which lives in a page of physical memory.\<close>

definition tf_kernel_satp :: u64 where "tf_kernel_satp = 0"
definition tf_kernel_sp :: u64 where "tf_kernel_sp = 8"
definition tf_kernel_trap :: u64 where "tf_kernel_trap = 16"
definition tf_epc :: u64 where "tf_epc = 24"
definition tf_kernel_hartid :: u64 where "tf_kernel_hartid = 32"
definition tf_sp :: u64 where "tf_sp = 48"
definition tf_a0 :: u64 where "tf_a0 = 112"
definition tf_a1 :: u64 where "tf_a1 = 120"
definition tf_a7 :: u64 where "tf_a7 = 168"
definition TRAPFRAME_SIZE :: nat where "TRAPFRAME_SIZE = 288"

section \<open>The process table\<close>

definition procinit :: "'a pst_scheme \<Rightarrow> 'a pst_scheme" where
  "procinit s =
     (let s = initlock PidLock ''nextpid'' s;
          s = initlock WaitLock ''wait_lock'' s
      in fold (\<lambda>p s.
           let s = initlock (ProcLock p) ''proc'' s in
           let s = upd_proc p (\<lambda>q. q\<lparr>p_state := UNUSED\<rparr>) s in
           upd_proc p (\<lambda>q. q\<lparr>p_kstack := KSTACK (of_nat p)\<rparr>) s) [0..<NPROC] s)"

definition myproc :: "'a kmach_scheme \<Rightarrow> (nat option \<times> 'a kmach_scheme) res" where
  "myproc s = (
     let s = push_off s in
     let p = cpu_proc (cpus s (mycpu s)) in
     bindR (pop_off s) (\<lambda>(_, s).
     Inr (p, s)))"

text \<open>\<open>myproc()\<close> where its result is used as a pointer: address 0 is not mapped in the kernel.\<close>

definition myproc_deref :: "'a kmach_scheme \<Rightarrow> (nat \<times> 'a kmach_scheme) res" where
  "myproc_deref s = (
     bindR (myproc s) (\<lambda>(p, s).
     case p of None \<Rightarrow> panic ''kerneltrap'' | Some p \<Rightarrow> Inr (p, s)))"

definition allocpid :: "'a pst_scheme \<Rightarrow> (u32 \<times> 'a pst_scheme) res" where
  "allocpid s = (
     bindR (acquire PidLock s) (\<lambda>(_, s).
     let pid = nextpid s in
     let s = s\<lparr>nextpid := nextpid s + 1\<rparr> in
     bindR (release PidLock s) (\<lambda>(_, s).
     Inr (pid, s))))"

definition proc_pagetable :: "nat \<Rightarrow> 'a pst_scheme \<Rightarrow> (u64 \<times> 'a pst_scheme) res" where
  "proc_pagetable p s = (
     bindR (uvmcreate s) (\<lambda>(pagetable, s).
     if pagetable = 0 then Inr (0, s) else
     bindR (mappages pagetable TRAMPOLINE PGSZ (sym_trampoline s) (PTE_R OR PTE_X) s) (\<lambda>(r, s).
     if r < 0 then (
       bindR (uvmfree pagetable 0 s) (\<lambda>(_, s).
       Inr (0, s)))
     else
     bindR (mappages pagetable TRAPFRAME PGSZ (p_trapframe (procs s p)) (PTE_R OR PTE_W) s) (\<lambda>(r, s).
     if r < 0 then (
       bindR (uvmunmap pagetable TRAMPOLINE 1 False s) (\<lambda>(_, s).
       bindR (uvmfree pagetable 0 s) (\<lambda>(_, s).
       Inr (0, s))))
     else Inr (pagetable, s)))))"

definition proc_freepagetable :: "u64 \<Rightarrow> u64 \<Rightarrow> 'a kst_scheme \<Rightarrow> (unit \<times> 'a kst_scheme) res" where
  "proc_freepagetable pagetable sz s = (
     bindR (uvmunmap pagetable TRAMPOLINE 1 False s) (\<lambda>(_, s).
     bindR (uvmunmap pagetable TRAPFRAME 1 False s) (\<lambda>(_, s).
     uvmfree pagetable sz s)))"

definition freeproc :: "nat \<Rightarrow> 'a pst_scheme \<Rightarrow> (unit \<times> 'a pst_scheme) res" where
  "freeproc p s = (
     bindR ((if p_trapframe (procs s p) \<noteq> 0 then kfree (p_trapframe (procs s p)) else (\<lambda>s. Inr ((), s))) s) (\<lambda>(_, s).
     let s = upd_proc p (\<lambda>q. q\<lparr>p_trapframe := 0\<rparr>) s in
     bindR ((if p_pagetable (procs s p) \<noteq> 0
       then proc_freepagetable (p_pagetable (procs s p)) (p_sz (procs s p)) else (\<lambda>s. Inr ((), s))) s) (\<lambda>(_, s).
     Inr ((), upd_proc p (\<lambda>q. q\<lparr>p_pagetable := 0, p_sz := 0, p_pid := 0, p_parent := None, p_name := [],
       p_chan := None, p_killed := 0, p_xstate := 0, p_state := UNUSED\<rparr>) s))))"

text \<open>The scan returns with the lock of the process it found held.\<close>

primrec allocproc_scan :: "nat list \<Rightarrow> 'a pst_scheme \<Rightarrow> (nat option \<times> 'a pst_scheme) res" where
  "allocproc_scan [] s = Inr (None, s)"
| "allocproc_scan (p # ps) s = (
     bindR (acquire (ProcLock p) s) (\<lambda>(_, s).
     if p_state (procs s p) = UNUSED then Inr (Some p, s)
     else
     bindR (release (ProcLock p) s) (\<lambda>(_, s).
     allocproc_scan ps s)))"

definition zero_context :: swtch_context where
  "zero_context = \<lparr>ctx_ra = 0, ctx_sp = 0, ctx_s0 = 0, ctx_s1 = 0, ctx_s2 = 0, ctx_s3 = 0, ctx_s4 = 0,
     ctx_s5 = 0, ctx_s6 = 0, ctx_s7 = 0, ctx_s8 = 0, ctx_s9 = 0, ctx_s10 = 0, ctx_s11 = 0\<rparr>"

definition allocproc :: "'a pst_scheme \<Rightarrow> (nat option \<times> 'a pst_scheme) res" where
  "allocproc s = (
     bindR (allocproc_scan [0..<NPROC] s) (\<lambda>(found, s).
     case found of None \<Rightarrow> Inr (None, s) | Some p \<Rightarrow>
     bindR (allocpid s) (\<lambda>(pid, s).
     let s = upd_proc p (\<lambda>q. q\<lparr>p_pid := pid\<rparr>) s in
     let s = upd_proc p (\<lambda>q. q\<lparr>p_state := USED\<rparr>) s in
     bindR (kalloc s) (\<lambda>(pa, s).
     let s = upd_proc p (\<lambda>q. q\<lparr>p_trapframe := pa\<rparr>) s in
     if pa = 0 then (
       bindR (freeproc p s) (\<lambda>(_, s).
       bindR (release (ProcLock p) s) (\<lambda>(_, s).
       Inr (None, s))))
     else
     bindR (proc_pagetable p s) (\<lambda>(pagetable, s).
     let s = upd_proc p (\<lambda>q. q\<lparr>p_pagetable := pagetable\<rparr>) s in
     if pagetable = 0 then (
       bindR (freeproc p s) (\<lambda>(_, s).
       bindR (release (ProcLock p) s) (\<lambda>(_, s).
       Inr (None, s))))
     else
     let s = upd_proc p (\<lambda>q. q\<lparr>p_context := zero_context\<rparr>) s in
     let s = upd_proc p (\<lambda>q. q\<lparr>p_context := (p_context q)\<lparr>ctx_ra := sym_forkret s\<rparr>\<rparr>) s in
     let s = upd_proc p (\<lambda>q. q\<lparr>p_context := (p_context q)\<lparr>ctx_sp := p_kstack q + PGSZ\<rparr>\<rparr>) s in
     Inr (Some p, s))))))"

definition growproc :: "u32 \<Rightarrow> 'a pst_scheme \<Rightarrow> (int \<times> 'a pst_scheme) res" where
  "growproc n s = (
     bindR (myproc_deref s) (\<lambda>(p, s).
     let sz = p_sz (procs s p) in
     let pagetable = p_pagetable (procs s p) in
     if 0 <s n then (
       bindR (uvmalloc pagetable sz (sz + scast n) PTE_W s) (\<lambda>(sz, s).
       if sz = 0 then Inr (- 1, s)
       else Inr (0, upd_proc p (\<lambda>q. q\<lparr>p_sz := sz\<rparr>) s)))
     else if n <s 0 then (
       bindR (uvmdealloc pagetable sz (sz + scast n) s) (\<lambda>(sz, s).
       Inr (0, upd_proc p (\<lambda>q. q\<lparr>p_sz := sz\<rparr>) s)))
     else Inr (0, upd_proc p (\<lambda>q. q\<lparr>p_sz := sz\<rparr>) s)))"

section \<open>Switching\<close>

text \<open>\<open>swtch(old, new)\<close>: store the registers through \<open>old\<close>, load them from \<open>new\<close>.\<close>

definition swtch :: "(swtch_context \<Rightarrow> 'a pst_scheme \<Rightarrow> 'a pst_scheme) \<Rightarrow> swtch_context \<Rightarrow> 'a pst_scheme \<Rightarrow> 'a pst_scheme" where
  "swtch old new s =
     (let s = old (kregs s (cur_hart s)) s
      in s\<lparr>kregs := (kregs s)(cur_hart s := new)\<rparr>)"

definition sched :: "'a pst_scheme others \<Rightarrow> 'a pst_scheme \<Rightarrow> (unit \<times> 'a pst_scheme) res" where
  "sched others s = (
     bindR (myproc_deref s) (\<lambda>(p, s).
     if \<not> holding (ProcLock p) s then panic ''sched p->lock''
     else if cpu_noff (cpus s (mycpu s)) \<noteq> 1 then panic ''sched locks''
     else if p_state (procs s p) = RUNNING then panic ''sched running''
     else if intr_get (thishart s) then panic ''sched interruptible''
     else
     let intena = cpu_intena (cpus s (mycpu s)) in
     let s = swtch (\<lambda>c. upd_proc p (\<lambda>q. q\<lparr>p_context := c\<rparr>)) (cpu_context (cpus s (mycpu s))) s in
     bindR (others s) (\<lambda>(_, s).
     Inr ((), upd_cpu (\<lambda>c. c\<lparr>cpu_intena := intena\<rparr>) s))))"

text \<open>One pass of the scheduler's endless loop; \<open>run p\<close> is what happens until \<open>p\<close> switches back.\<close>

definition scheduler_pass :: "(nat \<Rightarrow> 'a pst_scheme others) \<Rightarrow> nat \<Rightarrow> 'a pst_scheme \<Rightarrow> (unit \<times> 'a pst_scheme) res" where
  "scheduler_pass run c s = (
     let s = upd_hart intr_on s in
     forR (\<lambda>p s. (
       bindR (acquire (ProcLock p) s) (\<lambda>(_, s).
       if p_state (procs s p) = RUNNABLE then (
         let s = upd_proc p (\<lambda>q. q\<lparr>p_state := RUNNING\<rparr>) s in
         let s = s\<lparr>cpus := (cpus s)(c := (cpus s c)\<lparr>cpu_proc := Some p\<rparr>)\<rparr> in
         let s = swtch (\<lambda>x s. s\<lparr>cpus := (cpus s)(c := (cpus s c)\<lparr>cpu_context := x\<rparr>)\<rparr>) (p_context (procs s p)) s in
         bindR (run p s) (\<lambda>(_, s).
         let s = s\<lparr>cpus := (cpus s)(c := (cpus s c)\<lparr>cpu_proc := None\<rparr>)\<rparr> in
         release (ProcLock p) s))
       else release (ProcLock p) s))) [0..<NPROC] s)"

definition yield :: "'a pst_scheme others \<Rightarrow> 'a pst_scheme \<Rightarrow> (unit \<times> 'a pst_scheme) res" where
  "yield others s = (
     bindR (myproc_deref s) (\<lambda>(p, s).
     bindR (acquire (ProcLock p) s) (\<lambda>(_, s).
     let s = upd_proc p (\<lambda>q. q\<lparr>p_state := RUNNABLE\<rparr>) s in
     bindR (sched others s) (\<lambda>(_, s).
     release (ProcLock p) s))))"

definition sleep :: "'a pst_scheme others \<Rightarrow> chan \<Rightarrow> lockid \<Rightarrow> 'a pst_scheme \<Rightarrow> (unit \<times> 'a pst_scheme) res" where
  "sleep others ch lk s = (
     bindR (myproc_deref s) (\<lambda>(p, s).
     bindR (acquire (ProcLock p) s) (\<lambda>(_, s).
     bindR (release lk s) (\<lambda>(_, s).
     let s = upd_proc p (\<lambda>q. q\<lparr>p_chan := Some ch\<rparr>) s in
     let s = upd_proc p (\<lambda>q. q\<lparr>p_state := SLEEPING\<rparr>) s in
     bindR (sched others s) (\<lambda>(_, s).
     let s = upd_proc p (\<lambda>q. q\<lparr>p_chan := None\<rparr>) s in
     bindR (release (ProcLock p) s) (\<lambda>(_, s).
     acquire lk s))))))"

definition wakeup_one :: "chan option \<Rightarrow> nat \<Rightarrow> 'a pst_scheme \<Rightarrow> (unit \<times> 'a pst_scheme) res" where
  "wakeup_one ch p s = (
     bindR (myproc s) (\<lambda>(me, s).
     if Some p \<noteq> me then (
       bindR (acquire (ProcLock p) s) (\<lambda>(_, s).
       let s = (if p_state (procs s p) = SLEEPING \<and> p_chan (procs s p) = ch
         then upd_proc p (\<lambda>q. q\<lparr>p_state := RUNNABLE\<rparr>) s else s) in
       release (ProcLock p) s))
     else Inr ((), s)))"

definition wakeup :: "chan option \<Rightarrow> 'a pst_scheme \<Rightarrow> (unit \<times> 'a pst_scheme) res" where
  "wakeup ch s = forR (wakeup_one ch) [0..<NPROC] s"

section \<open>Killing, orphans, waiting\<close>

primrec kill_scan :: "u32 \<Rightarrow> nat list \<Rightarrow> 'a pst_scheme \<Rightarrow> (int \<times> 'a pst_scheme) res" where
  "kill_scan pid [] s = Inr (- 1, s)"
| "kill_scan pid (p # ps) s = (
     bindR (acquire (ProcLock p) s) (\<lambda>(_, s).
     if p_pid (procs s p) = pid then (
       let s = upd_proc p (\<lambda>q. q\<lparr>p_killed := 1\<rparr>) s in
       let s = (if p_state (procs s p) = SLEEPING then upd_proc p (\<lambda>q. q\<lparr>p_state := RUNNABLE\<rparr>) s else s) in
       bindR (release (ProcLock p) s) (\<lambda>(_, s).
       Inr (0, s)))
     else
     bindR (release (ProcLock p) s) (\<lambda>(_, s).
     kill_scan pid ps s)))"

definition kill :: "u32 \<Rightarrow> 'a pst_scheme \<Rightarrow> (int \<times> 'a pst_scheme) res" where
  "kill pid s = kill_scan pid [0..<NPROC] s"

definition setkilled :: "nat \<Rightarrow> 'a pst_scheme \<Rightarrow> (unit \<times> 'a pst_scheme) res" where
  "setkilled p s = (
     bindR (acquire (ProcLock p) s) (\<lambda>(_, s).
     let s = upd_proc p (\<lambda>q. q\<lparr>p_killed := 1\<rparr>) s in
     release (ProcLock p) s))"

definition killed :: "nat \<Rightarrow> 'a pst_scheme \<Rightarrow> (u32 \<times> 'a pst_scheme) res" where
  "killed p s = (
     bindR (acquire (ProcLock p) s) (\<lambda>(_, s).
     let k = p_killed (procs s p) in
     bindR (release (ProcLock p) s) (\<lambda>(_, s).
     Inr (k, s))))"

definition reparent :: "nat \<Rightarrow> 'a pst_scheme \<Rightarrow> (unit \<times> 'a pst_scheme) res" where
  "reparent p s =
     forR (\<lambda>pp s.
       if p_parent (procs s pp) = Some p
       then let s = upd_proc pp (\<lambda>q. q\<lparr>p_parent := initproc s\<rparr>) s in wakeup (map_option ChanProc (initproc s)) s
       else Inr ((), s)) [0..<NPROC] s"

text \<open>The scan of \<open>wait\<close>: the pid or error it returns, if any, and whether there are children.\<close>

fun wait_scan :: "nat \<Rightarrow> u64 \<Rightarrow> nat list \<Rightarrow> bool \<Rightarrow> 'a pst_scheme \<Rightarrow> ((u32 option \<times> bool) \<times> 'a pst_scheme) res" where
  "wait_scan p addr [] havekids s = Inr ((None, havekids), s)"
| "wait_scan p addr (pp # pps) havekids s =
     (if p_parent (procs s pp) = Some p then (
        bindR (acquire (ProcLock pp) s) (\<lambda>(_, s).
        if p_state (procs s pp) = ZOMBIE then (
          let pid = p_pid (procs s pp) in
          bindR ((if addr \<noteq> 0 then copyoutb (p_pagetable (procs s p)) addr (to_bytes 4 (p_xstate (procs s pp)))
                else (\<lambda>s. Inr (0, s))) s) (\<lambda>(r, s).
          if r < 0 then (
            bindR (release (ProcLock pp) s) (\<lambda>(_, s).
            bindR (release WaitLock s) (\<lambda>(_, s).
            Inr ((Some (- 1), True), s))))
          else
          bindR (freeproc pp s) (\<lambda>(_, s).
          bindR (release (ProcLock pp) s) (\<lambda>(_, s).
          bindR (release WaitLock s) (\<lambda>(_, s).
          Inr ((Some pid, True), s))))))
        else
        bindR (release (ProcLock pp) s) (\<lambda>(_, s).
        wait_scan p addr pps True s)))
      else wait_scan p addr pps havekids s)"

fun wait_loop :: "'a pst_scheme others list \<Rightarrow> nat \<Rightarrow> u64 \<Rightarrow> 'a pst_scheme \<Rightarrow> (u32 \<times> 'a pst_scheme) res" where
  "wait_loop ws p addr s = (
     bindR (wait_scan p addr [0..<NPROC] False s) (\<lambda>((r, havekids), s).
     case r of Some v \<Rightarrow> Inr (v, s) | None \<Rightarrow>
     bindR ((if havekids then killed p else (\<lambda>s. Inr (1, s))) s) (\<lambda>(k, s).
     if k \<noteq> 0 then (
       bindR (release WaitLock s) (\<lambda>(_, s).
       Inr (- 1, s)))
     else case ws of
       [] \<Rightarrow> (
         bindR (sleep alone (ChanProc p) WaitLock s) (\<lambda>(_, s).
         Inl Stuck))
     | w # ws \<Rightarrow>
         bindR (sleep w (ChanProc p) WaitLock s) (\<lambda>(_, s).
         wait_loop ws p addr s))))"

definition wait :: "'a pst_scheme others list \<Rightarrow> u64 \<Rightarrow> 'a pst_scheme \<Rightarrow> (u32 \<times> 'a pst_scheme) res" where
  "wait ws addr s = (
     bindR (myproc_deref s) (\<lambda>(p, s).
     bindR (acquire WaitLock s) (\<lambda>(_, s).
     wait_loop ws p addr s)))"

section \<open>Copying to and from the caller of a system call\<close>

text \<open>
  The user address, or nothing for a kernel object: its new contents are then the bytes given.
\<close>

definition either_copyout :: "u64 option \<Rightarrow> u8 list \<Rightarrow> 'a pst_scheme \<Rightarrow> (int \<times> 'a pst_scheme) res" where
  "either_copyout user_dst src s = (
     bindR (myproc_deref s) (\<lambda>(p, s).
     case user_dst of Some dst \<Rightarrow> copyoutb (p_pagetable (procs s p)) dst src s | None \<Rightarrow> Inr (0, s)))"

definition either_copyin :: "u64 + u8 list \<Rightarrow> nat \<Rightarrow> 'a pst_scheme \<Rightarrow> ((int \<times> u8 list) \<times> 'a pst_scheme) res" where
  "either_copyin src len s = (
     bindR (myproc_deref s) (\<lambda>(p, s).
     case src of Inl a \<Rightarrow> copyinb (p_pagetable (procs s p)) a len s | Inr bs \<Rightarrow> Inr ((0, take len bs), s)))"

text \<open>The source of a copy, some bytes further on.\<close>

definition src_plus :: "u64 + u8 list \<Rightarrow> nat \<Rightarrow> u64 + u8 list" where
  "src_plus src i = map_sum (\<lambda>a. a + of_nat i) (drop i) src"

end
