(* ===== verification/Console.thy ===== *)
theory Console
  imports Proc Printing
begin

text \<open>
  The serial line and the console: \<open>kernel/uart.c\<close>, \<open>kernel/console.c\<close>, \<open>printf\<close>,
  \<open>panic\<close> and \<open>printfinit\<close> of \<open>kernel/printf.c\<close>, \<open>procdump\<close> of \<open>kernel/proc.c\<close>
  and \<open>kernel/plic.c\<close>.  The 16550 is a record: the bytes waiting in its receiver, for every
  future read of the line status register whether the transmitter is then idle, the bytes it was
  given to send, and its other registers.  A char is a byte.
\<close>

section \<open>State\<close>

record uart_dev =
  u_rx :: "u8 list"
  u_idle :: "bool list"
  u_sent :: "u8 list"
  u_regs :: "nat \<Rightarrow> u8"

record console =
  cons_buf :: "u8 list"
  cons_r :: u32
  cons_w :: u32
  cons_e :: u32

datatype devfn = CONSOLEREAD | CONSOLEWRITE

record cnst = pst +
  uart :: uart_dev
  uart_tx_buf :: "u8 list"
  uart_tx_w :: u64
  uart_tx_r :: u64
  cons :: console
  pr_locking :: bool
  panicked_flag :: bool
  devsw_read :: "nat \<Rightarrow> devfn option"
  devsw_write :: "nat \<Rightarrow> devfn option"
  plic_regs :: "u64 \<Rightarrow> u32"

section \<open>The UART\<close>

definition RHR :: nat where "RHR = 0"
definition THR :: nat where "THR = 0"
definition IER :: nat where "IER = 1"
definition IER_RX_ENABLE :: u8 where "IER_RX_ENABLE = 1"
definition IER_TX_ENABLE :: u8 where "IER_TX_ENABLE = 2"
definition FCR :: nat where "FCR = 2"
definition FCR_FIFO_ENABLE :: u8 where "FCR_FIFO_ENABLE = 1"
definition FCR_FIFO_CLEAR :: u8 where "FCR_FIFO_CLEAR = 6"
definition LCR :: nat where "LCR = 3"
definition LCR_EIGHT_BITS :: u8 where "LCR_EIGHT_BITS = 3"
definition LCR_BAUD_LATCH :: u8 where "LCR_BAUD_LATCH = 128"
definition LSR_RX_READY :: u8 where "LSR_RX_READY = 1"
definition LSR_TX_IDLE :: u8 where "LSR_TX_IDLE = 32"
definition UART_TX_BUF_SIZE :: nat where "UART_TX_BUF_SIZE = 32"

text \<open>Reading the line status register: one element of \<open>u_idle\<close> per read.\<close>

definition ReadLSR :: "'a cnst_scheme \<Rightarrow> u8 \<times> 'a cnst_scheme" where
  "ReadLSR s =
     (let d = uart s; idle = (u_idle d \<noteq> [] \<and> hd (u_idle d))
      in ((if u_rx d \<noteq> [] then LSR_RX_READY else 0) OR (if idle then LSR_TX_IDLE else 0),
          s\<lparr>uart := d\<lparr>u_idle := tl (u_idle d)\<rparr>\<rparr>))"

definition ReadRHR :: "'a cnst_scheme \<Rightarrow> u8 \<times> 'a cnst_scheme" where
  "ReadRHR s = (let d = uart s in (hd (u_rx d @ [0]), s\<lparr>uart := d\<lparr>u_rx := tl (u_rx d)\<rparr>\<rparr>))"

definition WriteTHR :: "u8 \<Rightarrow> 'a cnst_scheme \<Rightarrow> 'a cnst_scheme" where
  "WriteTHR c s = s\<lparr>uart := (uart s)\<lparr>u_sent := u_sent (uart s) @ [c]\<rparr>\<rparr>"

definition WriteReg :: "nat \<Rightarrow> u8 \<Rightarrow> 'a cnst_scheme \<Rightarrow> 'a cnst_scheme" where
  "WriteReg r v s = s\<lparr>uart := (uart s)\<lparr>u_regs := (u_regs (uart s))(r := v)\<rparr>\<rparr>"

definition uartinit :: "'a cnst_scheme \<Rightarrow> 'a cnst_scheme" where
  "uartinit s =
     (let s = WriteReg IER 0x00 s;
          s = WriteReg LCR LCR_BAUD_LATCH s;
          s = WriteReg 0 0x03 s;
          s = WriteReg 1 0x00 s;
          s = WriteReg LCR LCR_EIGHT_BITS s;
          s = WriteReg FCR (FCR_FIFO_ENABLE OR FCR_FIFO_CLEAR) s;
          s = WriteReg IER (IER_TX_ENABLE OR IER_RX_ENABLE) s
      in initlock UartTxLock ''uart'' s)"

text \<open>The wait for an idle transmitter: the reads that see it busy, and the one that does not.\<close>

primrec uart_spin :: "bool list \<Rightarrow> bool list option" where
  "uart_spin [] = None"
| "uart_spin (b # bs) = (if b then Some bs else uart_spin bs)"

definition uartputc_sync :: "u32 \<Rightarrow> 'a cnst_scheme \<Rightarrow> (unit \<times> 'a cnst_scheme) res" where
  "uartputc_sync c s =
     (let s = push_off s in
      if panicked_flag s then Inl Stuck
      else case uart_spin (u_idle (uart s)) of
        None \<Rightarrow> Inl Stuck
      | Some bs \<Rightarrow>
          let s = s\<lparr>uart := (uart s)\<lparr>u_idle := bs\<rparr>\<rparr> in
          let s = WriteTHR (ucast c) s in
          pop_off s)"

lemma kmach_more_pst: "kmach.more a = kmach.more b \<Longrightarrow> pst.more a = pst.more b"
  by (cases a; cases b) simp

lemma myproc_more: "myproc s = Inr (p, s') \<Longrightarrow> kmach.more s' = kmach.more s"
  by (auto simp: myproc_def Let_def dest!: pop_off_more)

lemma upd_proc_more [simp]: "pst.more (upd_proc p f s) = pst.more s"
  by (simp add: upd_proc_def)

lemma wakeup_one_more: "wakeup_one ch p s = Inr (u, s') \<Longrightarrow> pst.more s' = pst.more s"
  by (auto simp: wakeup_one_def Let_def split: if_splits
    dest!: myproc_more [THEN kmach_more_pst] acquire_more [THEN kmach_more_pst] release_more [THEN kmach_more_pst])

lemma forR_more:
  assumes "\<And>i s u s'. f i s = Inr (u, s') \<Longrightarrow> g s' = g s"
  shows "forR f is s = Inr (u, s') \<Longrightarrow> g s' = g s"
  by (induction "is" arbitrary: s) (auto dest!: assms)

lemma wakeup_more: "wakeup ch s = Inr (u, s') \<Longrightarrow> pst.more s' = pst.more s"
  unfolding wakeup_def by (rule forR_more [where g = pst.more]) (auto dest: wakeup_one_more)

lemma pst_more_cnst:
  assumes "pst.more a = pst.more b"
  shows "uart a = uart b" "uart_tx_w a = uart_tx_w b" "uart_tx_r a = uart_tx_r b" "cons a = cons b"
    "uart_tx_buf a = uart_tx_buf b" "panicked_flag a = panicked_flag b" "pr_locking a = pr_locking b"
  using assms by (cases a; cases b; simp)+

function uartstart :: "'a cnst_scheme \<Rightarrow> (unit \<times> 'a cnst_scheme) res" where
  "uartstart s =
     (if uart_tx_w s = uart_tx_r s then Inr ((), s)
      else case ReadLSR s of (lsr, s) \<Rightarrow>
        if lsr AND LSR_TX_IDLE = 0 then Inr ((), s)
        else (
          let c = uart_tx_buf s ! (unat (uart_tx_r s) mod UART_TX_BUF_SIZE) in
          let s = s\<lparr>uart_tx_r := uart_tx_r s + 1\<rparr> in
          bindR (wakeup (Some ChanUart) s) (\<lambda>(_, s).
          uartstart (WriteTHR c s))))"
  by pat_completeness auto

termination
proof (relation "measure (\<lambda>s. unat (uart_tx_w s - uart_tx_r s))")
  fix s s1 s2 s3 :: "'a cnst_scheme" and lsr c y u
  assume "uart_tx_w s \<noteq> uart_tx_r s" "(lsr, s1) = ReadLSR s" "s2 = s1\<lparr>uart_tx_r := uart_tx_r s1 + 1\<rparr>"
    "wakeup (Some ChanUart) s2 = Inr y" "(u, s3) = y"
  then have "uart_tx_w s3 = uart_tx_w s" "uart_tx_r s3 = uart_tx_r s + 1"
    using pst_more_cnst [OF wakeup_more, of "Some ChanUart" s2 u s3] by (auto simp: ReadLSR_def Let_def)
  moreover have "unat (uart_tx_w s - uart_tx_r s - 1) < unat (uart_tx_w s - uart_tx_r s)"
    using \<open>uart_tx_w s \<noteq> uart_tx_r s\<close> u64_pred_unat [of "uart_tx_w s - uart_tx_r s"] unat_gt_0 [of "uart_tx_w s - uart_tx_r s"]
    by simp
  ultimately show "(WriteTHR c s3, s) \<in> measure (\<lambda>s. unat (uart_tx_w s - uart_tx_r s))"
    by (simp add: WriteTHR_def diff_diff_eq)
qed auto

declare uartstart.simps [simp del]

fun uartputc_wait :: "'a cnst_scheme others list \<Rightarrow> 'a cnst_scheme \<Rightarrow> ('a cnst_scheme others list \<times> 'a cnst_scheme) res" where
  "uartputc_wait ws s =
     (if uart_tx_w s = uart_tx_r s + of_nat UART_TX_BUF_SIZE then
        (case ws of
           [] \<Rightarrow> (
             bindR (sleep alone ChanUart UartTxLock s) (\<lambda>(_, s).
             Inl Stuck))
         | w # ws \<Rightarrow> (
             bindR (sleep w ChanUart UartTxLock s) (\<lambda>(_, s).
             uartputc_wait ws s)))
      else Inr (ws, s))"

definition uartputc :: "'a cnst_scheme others list \<Rightarrow> u8 \<Rightarrow> 'a cnst_scheme \<Rightarrow> ('a cnst_scheme others list \<times> 'a cnst_scheme) res" where
  "uartputc ws c s = (
     bindR (acquire UartTxLock s) (\<lambda>(_, s).
     if panicked_flag s then Inl Stuck
     else
     bindR (uartputc_wait ws s) (\<lambda>(ws, s).
     let s = s\<lparr>uart_tx_buf := (uart_tx_buf s)[unat (uart_tx_w s) mod UART_TX_BUF_SIZE := c]\<rparr> in
     let s = s\<lparr>uart_tx_w := uart_tx_w s + 1\<rparr> in
     bindR (uartstart s) (\<lambda>(_, s).
     bindR (release UartTxLock s) (\<lambda>(_, s).
     Inr (ws, s))))))"

definition uartgetc :: "'a cnst_scheme \<Rightarrow> u32 \<times> 'a cnst_scheme" where
  "uartgetc s =
     (case ReadLSR s of (lsr, s) \<Rightarrow>
        if lsr AND 0x01 \<noteq> 0 then case ReadRHR s of (c, s) \<Rightarrow> (ucast c, s) else (- 1, s))"

section \<open>Console output\<close>

definition BACKSPACE :: u32 where "BACKSPACE = 0x100"
definition INPUT_BUF_SIZE :: nat where "INPUT_BUF_SIZE = 128"

definition consputc :: "u32 \<Rightarrow> 'a cnst_scheme \<Rightarrow> (unit \<times> 'a cnst_scheme) res" where
  "consputc c s =
     (if c = BACKSPACE then (
        bindR (uartputc_sync 0x08 s) (\<lambda>(_, s).
        bindR (uartputc_sync 0x20 s) (\<lambda>(_, s).
        uartputc_sync 0x08 s)))
      else uartputc_sync c s)"

text \<open>A format with too few arguments is undefined behaviour in C.\<close>

definition printf :: "string \<Rightarrow> varg list \<Rightarrow> 'a cnst_scheme \<Rightarrow> (unit \<times> 'a cnst_scheme) res" where
  "printf fmt ap s = (
     let locking = pr_locking s in
     bindR ((if locking then acquire PrLock else (\<lambda>s. Inr ((), s))) s) (\<lambda>(_, s).
     bindR ((case kformat fmt ap of None \<Rightarrow> (\<lambda>s. Inl Stuck)
       | Some out \<Rightarrow> forR (\<lambda>c. consputc (of_nat (of_char c))) out) s) (\<lambda>(_, s).
     if locking then release PrLock s else Inr ((), s))))"

text \<open>What \<open>panic\<close> does before it loops for ever.\<close>

definition panic_print :: "string \<Rightarrow> varg list \<Rightarrow> 'a cnst_scheme \<Rightarrow> (unit \<times> 'a cnst_scheme) res" where
  "panic_print msg ap s = (
     let s = s\<lparr>pr_locking := False\<rparr> in
     bindR (printf ''panic: '' [] s) (\<lambda>(_, s).
     bindR (printf msg ap s) (\<lambda>(_, s).
     bindR (printf [CHR 0x0A] [] s) (\<lambda>(_, s).
     Inr ((), s\<lparr>panicked_flag := True\<rparr>)))))"

definition printfinit :: "'a cnst_scheme \<Rightarrow> 'a cnst_scheme" where
  "printfinit s = (let s = initlock PrLock ''pr'' s in s\<lparr>pr_locking := True\<rparr>)"

fun procstate_name :: "procstate \<Rightarrow> string" where
  "procstate_name UNUSED = ''unused''"
| "procstate_name USED = ''used''"
| "procstate_name SLEEPING = ''sleep ''"
| "procstate_name RUNNABLE = ''runble''"
| "procstate_name RUNNING = ''run   ''"
| "procstate_name ZOMBIE = ''zombie''"

definition procdump :: "'a cnst_scheme \<Rightarrow> (unit \<times> 'a cnst_scheme) res" where
  "procdump s = (
     bindR (printf [CHR 0x0A] [] s) (\<lambda>(_, s).
     forR (\<lambda>p s.
       if p_state (procs s p) = UNUSED then Inr ((), s) else (
       bindR (printf ''%d %s %s'' [VNum (ucast (p_pid (procs s p))), VStr (Some (procstate_name (p_state (procs s p)))),
         VStr (Some (p_name (procs s p)))] s) (\<lambda>(_, s).
       printf [CHR 0x0A] [] s))) [0..<NPROC] s))"

primrec consolewrite_loop :: "nat \<Rightarrow> nat \<Rightarrow> u64 + u8 list \<Rightarrow> 'a cnst_scheme others list \<Rightarrow> 'a cnst_scheme \<Rightarrow> (nat \<times> 'a cnst_scheme) res" where
  "consolewrite_loop 0 i src ws s = Inr (i, s)"
| "consolewrite_loop (Suc k) i src ws s = (
     bindR (either_copyin (src_plus src i) 1 s) (\<lambda>((r, c), s).
     if r = - 1 then Inr (i, s) else
     bindR (uartputc ws (hd c) s) (\<lambda>(ws, s).
     consolewrite_loop k (Suc i) src ws s)))"

definition consolewrite :: "'a cnst_scheme others list \<Rightarrow> u64 + u8 list \<Rightarrow> u32 \<Rightarrow> 'a cnst_scheme \<Rightarrow> (u32 \<times> 'a cnst_scheme) res" where
  "consolewrite ws src n s = (
     bindR (consolewrite_loop (nat (sint n)) 0 src ws s) (\<lambda>(i, s).
     Inr (of_nat i, s)))"

section \<open>Console input\<close>

definition upd_cons :: "(console \<Rightarrow> console) \<Rightarrow> 'a cnst_scheme \<Rightarrow> 'a cnst_scheme" where
  "upd_cons f s = s\<lparr>cons := f (cons s)\<rparr>"

lemma u32_pred_unat: "(n :: u32) \<noteq> 0 \<Longrightarrow> unat (n - 1) < unat n"
  using unat_gt_0 [of n] by (simp add: unat_sub_if' word_le_nat_alt Suc_leI)

function consoleread_loop :: "'a cnst_scheme others list \<Rightarrow> u64 option \<Rightarrow> u32 \<Rightarrow> u32 \<Rightarrow> 'a cnst_scheme \<Rightarrow> (u32 \<times> 'a cnst_scheme) res" where
  "consoleread_loop ws dst n target s =
     (if \<not> 0 <s n then (
        bindR (release ConsLock s) (\<lambda>(_, s).
        Inr (target - n, s)))
      else if cons_r (cons s) = cons_w (cons s) then (
        bindR (myproc_deref s) (\<lambda>(p, s).
        bindR (killed p s) (\<lambda>(k, s).
        if k \<noteq> 0 then (
          bindR (release ConsLock s) (\<lambda>(_, s).
          Inr (- 1, s)))
        else case ws of
          [] \<Rightarrow> (
            bindR (sleep alone ChanCons ConsLock s) (\<lambda>(_, s).
            Inl Stuck))
        | w # ws \<Rightarrow>
            bindR (sleep w ChanCons ConsLock s) (\<lambda>(_, s).
            consoleread_loop ws dst n target s))))
      else (
        let c = cons_buf (cons s) ! (unat (cons_r (cons s)) mod INPUT_BUF_SIZE) in
        let s = upd_cons (\<lambda>q. q\<lparr>cons_r := cons_r q + 1\<rparr>) s in
        if c = 0x04 then (
          let s = (if n < target then upd_cons (\<lambda>q. q\<lparr>cons_r := cons_r q - 1\<rparr>) s else s) in
          bindR (release ConsLock s) (\<lambda>(_, s).
          Inr (target - n, s)))
        else
        bindR (either_copyout dst [c] s) (\<lambda>(r, s).
        if r = - 1 then (
          bindR (release ConsLock s) (\<lambda>(_, s).
          Inr (target - n, s)))
        else
        let n = n - 1 in
        if c = 0x0A then (
          bindR (release ConsLock s) (\<lambda>(_, s).
          Inr (target - n, s)))
        else consoleread_loop ws (map_option (\<lambda>a. a + 1) dst) n target s)))"
  by pat_completeness auto

termination
  by (relation "measure (\<lambda>(ws, _, n, _, _). length ws + unat n)") (auto intro: u32_pred_unat)

declare consoleread_loop.simps [simp del]

definition consoleread :: "'a cnst_scheme others list \<Rightarrow> u64 option \<Rightarrow> u32 \<Rightarrow> 'a cnst_scheme \<Rightarrow> (u32 \<times> 'a cnst_scheme) res" where
  "consoleread ws dst n s = (
     bindR (acquire ConsLock s) (\<lambda>(_, s).
     consoleread_loop ws dst n n s))"

text \<open>Control-U: erase back to the start of the line.\<close>

lemma uartputc_sync_cons: "uartputc_sync c s = Inr (u, s') \<Longrightarrow> cons s' = cons s"
proof -
  assume "uartputc_sync c s = Inr (u, s')"
  then obtain bs where "pop_off (WriteTHR (ucast c) ((push_off s)\<lparr>uart := (uart (push_off s))\<lparr>u_idle := bs\<rparr>\<rparr>)) = Inr (u, s')"
    by (auto simp: uartputc_sync_def Let_def split: if_splits option.splits)
  from pst_more_cnst(4) [OF kmach_more_pst [OF pop_off_more [OF this]]]
  show ?thesis
    using pst_more_cnst(4) [OF kmach_more_pst [OF push_off_more], of s] by (simp add: WriteTHR_def)
qed

lemma consputc_cons: "consputc c s = Inr (u, s') \<Longrightarrow> cons s' = cons s"
  by (auto simp: consputc_def split: if_splits dest!: uartputc_sync_cons)

function kill_line :: "'a cnst_scheme \<Rightarrow> (unit \<times> 'a cnst_scheme) res" where
  "kill_line s =
     (if cons_e (cons s) \<noteq> cons_w (cons s) \<and>
         cons_buf (cons s) ! (unat (cons_e (cons s) - 1) mod INPUT_BUF_SIZE) \<noteq> 0x0A then (
        let s = upd_cons (\<lambda>q. q\<lparr>cons_e := cons_e q - 1\<rparr>) s in
        bindR (consputc BACKSPACE s) (\<lambda>(_, s).
        kill_line s))
      else Inr ((), s))"
  by pat_completeness auto

termination
proof (relation "measure (\<lambda>s. unat (cons_e (cons s) - cons_w (cons s)))")
  fix s s1 s2 :: "'a cnst_scheme" and y u
  assume a: "cons_e (cons s) \<noteq> cons_w (cons s) \<and>
      cons_buf (cons s) ! (unat (cons_e (cons s) - 1) mod INPUT_BUF_SIZE) \<noteq> 0x0A"
    "s1 = upd_cons (\<lambda>q. q\<lparr>cons_e := cons_e q - 1\<rparr>) s" "consputc BACKSPACE s1 = Inr y" "(u, s2) = y"
  then have "cons s2 = (cons s)\<lparr>cons_e := cons_e (cons s) - 1\<rparr>"
    using consputc_cons [of BACKSPACE s1 u s2] by (simp add: upd_cons_def)
  moreover have "unat (cons_e (cons s) - 1 - cons_w (cons s)) < unat (cons_e (cons s) - cons_w (cons s))"
    using u32_pred_unat [of "cons_e (cons s) - cons_w (cons s)"] a(1) by (simp add: diff_right_commute)
  ultimately show "(s2, s) \<in> measure (\<lambda>s. unat (cons_e (cons s) - cons_w (cons s)))" by simp
qed auto

declare kill_line.simps [simp del]

definition consoleintr_erase :: "'a cnst_scheme \<Rightarrow> (unit \<times> 'a cnst_scheme) res" where
  "consoleintr_erase s =
     (if cons_e (cons s) \<noteq> cons_w (cons s)
      then consputc BACKSPACE (upd_cons (\<lambda>q. q\<lparr>cons_e := cons_e q - 1\<rparr>) s)
      else Inr ((), s))"

definition consoleintr_store :: "u32 \<Rightarrow> 'a cnst_scheme \<Rightarrow> (unit \<times> 'a cnst_scheme) res" where
  "consoleintr_store c s =
     (if c \<noteq> 0 \<and> cons_e (cons s) - cons_r (cons s) < of_nat INPUT_BUF_SIZE then (
        let c = (if c = 0x0D then 0x0A else c) in
        bindR (consputc c s) (\<lambda>(_, s).
        let s = upd_cons (\<lambda>q. q\<lparr>cons_buf := (cons_buf q)[unat (cons_e q) mod INPUT_BUF_SIZE := ucast c],
          cons_e := cons_e q + 1\<rparr>) s in
        if c = 0x0A \<or> c = 0x04 \<or> cons_e (cons s) - cons_r (cons s) = of_nat INPUT_BUF_SIZE
        then wakeup (Some ChanCons) (upd_cons (\<lambda>q. q\<lparr>cons_w := cons_e q\<rparr>) s)
        else Inr ((), s)))
      else Inr ((), s))"

definition consoleintr :: "u32 \<Rightarrow> 'a cnst_scheme \<Rightarrow> (unit \<times> 'a cnst_scheme) res" where
  "consoleintr c s = (
     bindR (acquire ConsLock s) (\<lambda>(_, s).
     bindR ((if c = 0x10 then procdump
       else if c = 0x15 then kill_line
       else if c = 0x08 \<or> c = 0x7f then consoleintr_erase
       else consoleintr_store c) s) (\<lambda>(_, s).
     release ConsLock s)))"

text \<open>One round per waiting character, so their number bounds the loop.\<close>

primrec uartintr_loop :: "nat \<Rightarrow> 'a cnst_scheme \<Rightarrow> (unit \<times> 'a cnst_scheme) res" where
  "uartintr_loop 0 s = Inl Stuck"
| "uartintr_loop (Suc k) s =
     (case uartgetc s of (c, s) \<Rightarrow>
        if c = - 1 then Inr ((), s) else (
        bindR (consoleintr c s) (\<lambda>(_, s).
        uartintr_loop k s)))"

definition uartintr :: "'a cnst_scheme \<Rightarrow> (unit \<times> 'a cnst_scheme) res" where
  "uartintr s = (
     bindR (uartintr_loop (Suc (length (u_rx (uart s)))) s) (\<lambda>(_, s).
     bindR (acquire UartTxLock s) (\<lambda>(_, s).
     bindR (uartstart s) (\<lambda>(_, s).
     release UartTxLock s))))"

definition CONSOLE :: nat where "CONSOLE = 1"

definition consoleinit :: "'a cnst_scheme \<Rightarrow> 'a cnst_scheme" where
  "consoleinit s =
     (let s = initlock ConsLock ''cons'' s;
          s = uartinit s;
          s = s\<lparr>devsw_read := (devsw_read s)(CONSOLE := Some CONSOLEREAD)\<rparr>
      in s\<lparr>devsw_write := (devsw_write s)(CONSOLE := Some CONSOLEWRITE)\<rparr>)"

section \<open>The interrupt controller\<close>

definition plic_store :: "u64 \<Rightarrow> u32 \<Rightarrow> 'a cnst_scheme \<Rightarrow> 'a cnst_scheme" where
  "plic_store a v s = s\<lparr>plic_regs := (plic_regs s)(a := v)\<rparr>"

definition plicinit :: "'a cnst_scheme \<Rightarrow> 'a cnst_scheme" where
  "plicinit s =
     (let s = plic_store (PLIC + of_nat UART0_IRQ * 4) 1 s
      in plic_store (PLIC + of_nat VIRTIO0_IRQ * 4) 1 s)"

definition plicinithart :: "'a cnst_scheme \<Rightarrow> 'a cnst_scheme" where
  "plicinithart s =
     (let hart = scast (cpuid s);
          s = plic_store (PLIC_SENABLE hart) (push_bit UART0_IRQ 1 OR push_bit VIRTIO0_IRQ 1) s
      in plic_store (PLIC_SPRIORITY hart) 0 s)"

definition plic_claim :: "'a cnst_scheme \<Rightarrow> u32" where
  "plic_claim s = (let hart = scast (cpuid s) in plic_regs s (PLIC_SCLAIM hart))"

definition plic_complete :: "u32 \<Rightarrow> 'a cnst_scheme \<Rightarrow> 'a cnst_scheme" where
  "plic_complete irq s = (let hart = scast (cpuid s) in plic_store (PLIC_SCLAIM hart) irq s)"

end
