(* ===== verification/Sleeplock.thy ===== *)
theory Sleeplock
  imports Console
begin

text \<open>
  Sleep locks: \<open>kernel/sleeplock.c\<close>.  The buffers and inodes that contain them are named by
  \<open>slockid\<close>.  \<open>acquiresleep_among\<close> takes what other processes do each time the caller sleeps;
  \<open>acquiresleep\<close> is the case of a caller with nobody to wait for, which does not return when the
  lock is taken.
\<close>

record sleeplock =
  sl_locked :: u32
  sl_name :: string
  sl_pid :: u32

record slst = cnst +
  slocks :: "slockid \<Rightarrow> sleeplock"

definition upd_slock :: "slockid \<Rightarrow> (sleeplock \<Rightarrow> sleeplock) \<Rightarrow> 'a slst_scheme \<Rightarrow> 'a slst_scheme" where
  "upd_slock lk f s = s\<lparr>slocks := (slocks s)(lk := f (slocks s lk))\<rparr>"

definition initsleeplock :: "slockid \<Rightarrow> string \<Rightarrow> 'a slst_scheme \<Rightarrow> 'a slst_scheme" where
  "initsleeplock lk name s =
     (let s = initlock (SleepLk lk) ''sleep lock'' s;
          s = upd_slock lk (\<lambda>l. l\<lparr>sl_name := name\<rparr>) s;
          s = upd_slock lk (\<lambda>l. l\<lparr>sl_locked := 0\<rparr>) s
      in upd_slock lk (\<lambda>l. l\<lparr>sl_pid := 0\<rparr>) s)"

fun acquiresleep_wait :: "'a slst_scheme others list \<Rightarrow> slockid \<Rightarrow> 'a slst_scheme \<Rightarrow> (unit \<times> 'a slst_scheme) res" where
  "acquiresleep_wait ws lk s =
     (if sl_locked (slocks s lk) \<noteq> 0 then
        (case ws of
           [] \<Rightarrow> (
             bindR (sleep alone (ChanSleepLock lk) (SleepLk lk) s) (\<lambda>(_, s).
             Inl Stuck))
         | w # ws \<Rightarrow> (
             bindR (sleep w (ChanSleepLock lk) (SleepLk lk) s) (\<lambda>(_, s).
             acquiresleep_wait ws lk s)))
      else Inr ((), s))"

definition acquiresleep_among :: "'a slst_scheme others list \<Rightarrow> slockid \<Rightarrow> 'a slst_scheme \<Rightarrow> (unit \<times> 'a slst_scheme) res" where
  "acquiresleep_among ws lk s = (
     bindR (acquire (SleepLk lk) s) (\<lambda>(_, s).
     bindR (acquiresleep_wait ws lk s) (\<lambda>(_, s).
     let s = upd_slock lk (\<lambda>l. l\<lparr>sl_locked := 1\<rparr>) s in
     bindR (myproc_deref s) (\<lambda>(p, s).
     let s = upd_slock lk (\<lambda>l. l\<lparr>sl_pid := p_pid (procs s p)\<rparr>) s in
     release (SleepLk lk) s))))"

definition acquiresleep :: "slockid \<Rightarrow> 'a slst_scheme \<Rightarrow> (unit \<times> 'a slst_scheme) res" where
  "acquiresleep lk s = acquiresleep_among [] lk s"

definition releasesleep :: "slockid \<Rightarrow> 'a slst_scheme \<Rightarrow> (unit \<times> 'a slst_scheme) res" where
  "releasesleep lk s = (
     bindR (acquire (SleepLk lk) s) (\<lambda>(_, s).
     let s = upd_slock lk (\<lambda>l. l\<lparr>sl_locked := 0\<rparr>) s in
     let s = upd_slock lk (\<lambda>l. l\<lparr>sl_pid := 0\<rparr>) s in
     bindR (wakeup (Some (ChanSleepLock lk)) s) (\<lambda>(_, s).
     release (SleepLk lk) s)))"

definition holdingsleep :: "slockid \<Rightarrow> 'a slst_scheme \<Rightarrow> (bool \<times> 'a slst_scheme) res" where
  "holdingsleep lk s = (
     bindR (acquire (SleepLk lk) s) (\<lambda>(_, s).
     bindR ((\<lambda>s. if sl_locked (slocks s lk) \<noteq> 0
       then bindR (myproc_deref s) (\<lambda>(p, s). Inr (sl_pid (slocks s lk) = p_pid (procs s p), s))
       else Inr (False, s)) s) (\<lambda>(r, s).
     bindR (release (SleepLk lk) s) (\<lambda>(_, s).
     Inr (r, s)))))"

end
