(* ===== verification/Virtio.thy ===== *)
theory Virtio
  imports Sleeplock
begin

text \<open>
  The disk driver: \<open>kernel/virtio_disk.c\<close> with the structures of \<open>kernel/virtio.h\<close> and
  \<open>kernel/buf.h\<close>.  What driver and device share (descriptors, rings, request headers, status
  bytes, buffer data) is one record; the device is a function on it and a field of the state, as
  is its reaction to stores into its control registers.  The disk itself is an image and the list
  of the block writes it has performed since.  Addresses given to the device are constructors
  naming the object.

  While the caller of \<open>virtio_disk_rw\<close> sleeps, the hart runs the scheduler with interrupts on:
  it releases the lock of the process, the device finishes, its interrupt is handled, and the
  scheduler picks the process up again (\<open>disk_turn\<close>).
\<close>

section \<open>Data\<close>

definition BSIZE :: nat where "BSIZE = 1024"
definition NUM :: nat where "NUM = 8"

datatype dma = DmaNone | DmaOps nat | DmaData nat | DmaStatus nat

record virtq_desc =
  vd_addr :: dma
  vd_len :: u32
  vd_flags :: u16
  vd_next :: u16

record virtio_blk_req =
  br_type :: u32
  br_reserved :: u32
  br_sector :: u64

record blkdisk =
  d_image :: "nat \<Rightarrow> u8 list"
  d_writes :: "(nat \<times> u8 list) list"

record vqueue =
  vq_desc :: "nat \<Rightarrow> virtq_desc"
  vq_avail_idx :: u16
  vq_avail_ring :: "nat \<Rightarrow> u16"
  vq_used_idx :: u16
  vq_used_ring :: "nat \<Rightarrow> u32"
  vq_ops :: "nat \<Rightarrow> virtio_blk_req"
  vq_status :: "nat \<Rightarrow> u8"
  vq_data :: "nat \<Rightarrow> u8 list"
  vq_disk :: blkdisk
  vq_seen :: u16

record buf =
  b_valid :: u32
  b_disk :: u32
  b_dev :: u32
  b_blockno :: u32
  b_refcnt :: u32

record vdst = slst +
  bufs :: "nat \<Rightarrow> buf"
  vq :: vqueue
  vd_free :: "nat \<Rightarrow> bool"
  vd_used_idx :: u16
  vd_info_b :: "nat \<Rightarrow> nat option"
  vd_pages :: "u64 \<times> u64 \<times> u64"
  vregs :: "u64 \<Rightarrow> u32"
  device :: "vqueue \<Rightarrow> vqueue"
  device_mmio :: "u64 \<Rightarrow> u32 \<Rightarrow> (u64 \<Rightarrow> u32) \<Rightarrow> (u64 \<Rightarrow> u32)"

definition VRING_DESC_F_NEXT :: u16 where "VRING_DESC_F_NEXT = 1"
definition VRING_DESC_F_WRITE :: u16 where "VRING_DESC_F_WRITE = 2"
definition VIRTIO_BLK_T_IN :: u32 where "VIRTIO_BLK_T_IN = 0"
definition VIRTIO_BLK_T_OUT :: u32 where "VIRTIO_BLK_T_OUT = 1"

definition VIRTIO_MMIO_MAGIC_VALUE :: u64 where "VIRTIO_MMIO_MAGIC_VALUE = 0x000"
definition VIRTIO_MMIO_VERSION :: u64 where "VIRTIO_MMIO_VERSION = 0x004"
definition VIRTIO_MMIO_DEVICE_ID :: u64 where "VIRTIO_MMIO_DEVICE_ID = 0x008"
definition VIRTIO_MMIO_VENDOR_ID :: u64 where "VIRTIO_MMIO_VENDOR_ID = 0x00c"
definition VIRTIO_MMIO_DEVICE_FEATURES :: u64 where "VIRTIO_MMIO_DEVICE_FEATURES = 0x010"
definition VIRTIO_MMIO_DRIVER_FEATURES :: u64 where "VIRTIO_MMIO_DRIVER_FEATURES = 0x020"
definition VIRTIO_MMIO_QUEUE_SEL :: u64 where "VIRTIO_MMIO_QUEUE_SEL = 0x030"
definition VIRTIO_MMIO_QUEUE_NUM_MAX :: u64 where "VIRTIO_MMIO_QUEUE_NUM_MAX = 0x034"
definition VIRTIO_MMIO_QUEUE_NUM :: u64 where "VIRTIO_MMIO_QUEUE_NUM = 0x038"
definition VIRTIO_MMIO_QUEUE_READY :: u64 where "VIRTIO_MMIO_QUEUE_READY = 0x044"
definition VIRTIO_MMIO_QUEUE_NOTIFY :: u64 where "VIRTIO_MMIO_QUEUE_NOTIFY = 0x050"
definition VIRTIO_MMIO_INTERRUPT_STATUS :: u64 where "VIRTIO_MMIO_INTERRUPT_STATUS = 0x060"
definition VIRTIO_MMIO_INTERRUPT_ACK :: u64 where "VIRTIO_MMIO_INTERRUPT_ACK = 0x064"
definition VIRTIO_MMIO_STATUS :: u64 where "VIRTIO_MMIO_STATUS = 0x070"
definition VIRTIO_MMIO_QUEUE_DESC_LOW :: u64 where "VIRTIO_MMIO_QUEUE_DESC_LOW = 0x080"
definition VIRTIO_MMIO_QUEUE_DESC_HIGH :: u64 where "VIRTIO_MMIO_QUEUE_DESC_HIGH = 0x084"
definition VIRTIO_MMIO_DRIVER_DESC_LOW :: u64 where "VIRTIO_MMIO_DRIVER_DESC_LOW = 0x090"
definition VIRTIO_MMIO_DRIVER_DESC_HIGH :: u64 where "VIRTIO_MMIO_DRIVER_DESC_HIGH = 0x094"
definition VIRTIO_MMIO_DEVICE_DESC_LOW :: u64 where "VIRTIO_MMIO_DEVICE_DESC_LOW = 0x0a0"
definition VIRTIO_MMIO_DEVICE_DESC_HIGH :: u64 where "VIRTIO_MMIO_DEVICE_DESC_HIGH = 0x0a4"
definition VIRTIO_CONFIG_S_ACKNOWLEDGE :: u32 where "VIRTIO_CONFIG_S_ACKNOWLEDGE = 1"
definition VIRTIO_CONFIG_S_DRIVER :: u32 where "VIRTIO_CONFIG_S_DRIVER = 2"
definition VIRTIO_CONFIG_S_DRIVER_OK :: u32 where "VIRTIO_CONFIG_S_DRIVER_OK = 4"
definition VIRTIO_CONFIG_S_FEATURES_OK :: u32 where "VIRTIO_CONFIG_S_FEATURES_OK = 8"
definition VIRTIO_BLK_F_RO :: nat where "VIRTIO_BLK_F_RO = 5"
definition VIRTIO_BLK_F_SCSI :: nat where "VIRTIO_BLK_F_SCSI = 7"
definition VIRTIO_BLK_F_CONFIG_WCE :: nat where "VIRTIO_BLK_F_CONFIG_WCE = 11"
definition VIRTIO_BLK_F_MQ :: nat where "VIRTIO_BLK_F_MQ = 12"
definition VIRTIO_F_ANY_LAYOUT :: nat where "VIRTIO_F_ANY_LAYOUT = 27"
definition VIRTIO_RING_F_INDIRECT_DESC :: nat where "VIRTIO_RING_F_INDIRECT_DESC = 28"
definition VIRTIO_RING_F_EVENT_IDX :: nat where "VIRTIO_RING_F_EVENT_IDX = 29"

section \<open>Helpers\<close>

definition upd_buf :: "nat \<Rightarrow> (buf \<Rightarrow> buf) \<Rightarrow> 'a vdst_scheme \<Rightarrow> 'a vdst_scheme" where
  "upd_buf b f s = s\<lparr>bufs := (bufs s)(b := f (bufs s b))\<rparr>"

definition upd_vq :: "(vqueue \<Rightarrow> vqueue) \<Rightarrow> 'a vdst_scheme \<Rightarrow> 'a vdst_scheme" where
  "upd_vq f s = s\<lparr>vq := f (vq s)\<rparr>"

definition upd_desc :: "nat \<Rightarrow> (virtq_desc \<Rightarrow> virtq_desc) \<Rightarrow> 'a vdst_scheme \<Rightarrow> 'a vdst_scheme" where
  "upd_desc i f s = upd_vq (\<lambda>q. q\<lparr>vq_desc := (vq_desc q)(i := f (vq_desc q i))\<rparr>) s"

definition bdata :: "'a vdst_scheme \<Rightarrow> nat \<Rightarrow> u8 list" where
  "bdata s b = vq_data (vq s) b"

definition set_bdata :: "nat \<Rightarrow> u8 list \<Rightarrow> 'a vdst_scheme \<Rightarrow> 'a vdst_scheme" where
  "set_bdata b d s = upd_vq (\<lambda>q. q\<lparr>vq_data := (vq_data q)(b := d)\<rparr>) s"

text \<open>Block contents of a disk: the image with the writes on top.\<close>

definition dblock :: "blkdisk \<Rightarrow> nat \<Rightarrow> u8 list" where
  "dblock d = fold (\<lambda>(n, bs) f. f(n := bs)) (d_writes d) (d_image d)"

definition mmio_store :: "u64 \<Rightarrow> u32 \<Rightarrow> 'a vdst_scheme \<Rightarrow> 'a vdst_scheme" where
  "mmio_store r v s = s\<lparr>vregs := device_mmio s r v (vregs s)\<rparr>"

section \<open>Initialisation\<close>

definition virtio_features :: "u32 \<Rightarrow> u32" where
  "virtio_features features =
     fold (\<lambda>b f. f AND NOT (push_bit b 1))
       [VIRTIO_BLK_F_RO, VIRTIO_BLK_F_SCSI, VIRTIO_BLK_F_CONFIG_WCE, VIRTIO_BLK_F_MQ, VIRTIO_F_ANY_LAYOUT,
        VIRTIO_RING_F_EVENT_IDX, VIRTIO_RING_F_INDIRECT_DESC] features"

definition zero_desc :: virtq_desc where
  "zero_desc = \<lparr>vd_addr = DmaNone, vd_len = 0, vd_flags = 0, vd_next = 0\<rparr>"

definition virtio_disk_init :: "'a vdst_scheme \<Rightarrow> (unit \<times> 'a vdst_scheme) res" where
  "virtio_disk_init s = (
     let status = 0 :: u32 in
     let s = initlock VdiskLock ''virtio_disk'' s in
     if vregs s VIRTIO_MMIO_MAGIC_VALUE \<noteq> 0x74726976 \<or> vregs s VIRTIO_MMIO_VERSION \<noteq> 2 \<or>
        vregs s VIRTIO_MMIO_DEVICE_ID \<noteq> 2 \<or> vregs s VIRTIO_MMIO_VENDOR_ID \<noteq> 0x554d4551
     then panic ''could not find virtio disk'' else
     let s = mmio_store VIRTIO_MMIO_STATUS status s in
     let status = status OR VIRTIO_CONFIG_S_ACKNOWLEDGE in
     let s = mmio_store VIRTIO_MMIO_STATUS status s in
     let status = status OR VIRTIO_CONFIG_S_DRIVER in
     let s = mmio_store VIRTIO_MMIO_STATUS status s in
     let features = virtio_features (vregs s VIRTIO_MMIO_DEVICE_FEATURES) in
     let s = mmio_store VIRTIO_MMIO_DRIVER_FEATURES features s in
     let status = status OR VIRTIO_CONFIG_S_FEATURES_OK in
     let s = mmio_store VIRTIO_MMIO_STATUS status s in
     let status = vregs s VIRTIO_MMIO_STATUS in
     if status AND VIRTIO_CONFIG_S_FEATURES_OK = 0 then panic ''virtio disk FEATURES_OK unset'' else
     let s = mmio_store VIRTIO_MMIO_QUEUE_SEL 0 s in
     if vregs s VIRTIO_MMIO_QUEUE_READY \<noteq> 0 then panic ''virtio disk should not be ready'' else
     let mx = vregs s VIRTIO_MMIO_QUEUE_NUM_MAX in
     if mx = 0 then panic ''virtio disk has no queue 0'' else
     if mx < of_nat NUM then panic ''virtio disk max queue too short'' else
     bindR (kalloc s) (\<lambda>(desc, s).
     bindR (kalloc s) (\<lambda>(avail, s).
     bindR (kalloc s) (\<lambda>(used, s).
     let s = s\<lparr>vd_pages := (desc, avail, used)\<rparr> in
     if desc = 0 \<or> avail = 0 \<or> used = 0 then panic ''virtio disk kalloc'' else
     let s = s\<lparr>mem := memset used 0 (of_nat PGSIZE) (memset avail 0 (of_nat PGSIZE) (memset desc 0 (of_nat PGSIZE) (mem s)))\<rparr> in
     let s = upd_vq (\<lambda>q. q\<lparr>vq_desc := (\<lambda>_. zero_desc), vq_avail_idx := 0, vq_avail_ring := (\<lambda>_. 0),
       vq_used_idx := 0, vq_used_ring := (\<lambda>_. 0)\<rparr>) s in
     let s = mmio_store VIRTIO_MMIO_QUEUE_NUM (of_nat NUM) s in
     let s = mmio_store VIRTIO_MMIO_QUEUE_DESC_LOW (ucast desc) s in
     let s = mmio_store VIRTIO_MMIO_QUEUE_DESC_HIGH (ucast (drop_bit 32 desc)) s in
     let s = mmio_store VIRTIO_MMIO_DRIVER_DESC_LOW (ucast avail) s in
     let s = mmio_store VIRTIO_MMIO_DRIVER_DESC_HIGH (ucast (drop_bit 32 avail)) s in
     let s = mmio_store VIRTIO_MMIO_DEVICE_DESC_LOW (ucast used) s in
     let s = mmio_store VIRTIO_MMIO_DEVICE_DESC_HIGH (ucast (drop_bit 32 used)) s in
     let s = mmio_store VIRTIO_MMIO_QUEUE_READY 0x1 s in
     let s = s\<lparr>vd_free := (\<lambda>i. i < NUM \<or> vd_free s i)\<rparr> in
     let status = status OR VIRTIO_CONFIG_S_DRIVER_OK in
     Inr ((), mmio_store VIRTIO_MMIO_STATUS status s)))))"

section \<open>Descriptors\<close>

definition alloc_desc :: "'a vdst_scheme \<Rightarrow> nat option \<times> 'a vdst_scheme" where
  "alloc_desc s =
     (case find (vd_free s) [0..<NUM] of
        None \<Rightarrow> (None, s)
      | Some i \<Rightarrow> (Some i, s\<lparr>vd_free := (vd_free s)(i := False)\<rparr>))"

definition free_desc :: "nat \<Rightarrow> 'a vdst_scheme \<Rightarrow> (unit \<times> 'a vdst_scheme) res" where
  "free_desc i s = (
     if i \<ge> NUM then panic ''free_desc 1''
     else if vd_free s i then panic ''free_desc 2''
     else
     let s = upd_desc i (\<lambda>d. d\<lparr>vd_addr := DmaNone, vd_len := 0, vd_flags := 0, vd_next := 0\<rparr>) s in
     let s = s\<lparr>vd_free := (vd_free s)(i := True)\<rparr> in
     wakeup (Some ChanVdiskFree) s)"

text \<open>A chain cannot be longer than the table: \<open>free_desc\<close> refuses a descriptor twice.\<close>

primrec free_chain_from :: "nat \<Rightarrow> nat \<Rightarrow> 'a vdst_scheme \<Rightarrow> (unit \<times> 'a vdst_scheme) res" where
  "free_chain_from 0 i s = Inl Stuck"
| "free_chain_from (Suc k) i s = (
     let flag = vd_flags (vq_desc (vq s) i) in
     let nxt = vd_next (vq_desc (vq s) i) in
     bindR (free_desc i s) (\<lambda>(_, s).
     if flag AND VRING_DESC_F_NEXT \<noteq> 0 then free_chain_from k (unat nxt) s else Inr ((), s)))"

definition free_chain :: "nat \<Rightarrow> 'a vdst_scheme \<Rightarrow> (unit \<times> 'a vdst_scheme) res" where
  "free_chain i s = free_chain_from (Suc NUM) i s"

definition alloc3_desc :: "'a vdst_scheme \<Rightarrow> ((nat \<times> nat \<times> nat) option \<times> 'a vdst_scheme) res" where
  "alloc3_desc s =
     (case alloc_desc s of (None, s) \<Rightarrow> Inr (None, s) | (Some i, s) \<Rightarrow>
      case alloc_desc s of (None, s) \<Rightarrow> (
          bindR (free_desc i s) (\<lambda>(_, s).
          Inr (None, s)))
      | (Some j, s) \<Rightarrow>
      case alloc_desc s of (None, s) \<Rightarrow> (
          bindR (free_desc i s) (\<lambda>(_, s).
          bindR (free_desc j s) (\<lambda>(_, s).
          Inr (None, s))))
      | (Some k, s) \<Rightarrow> Inr (Some (i, j, k), s))"

section \<open>Interrupts\<close>

lemma pst_more_vdst:
  assumes "pst.more a = pst.more b"
  shows "vq a = vq b" "vd_used_idx a = vd_used_idx b" "bufs a = bufs b" "vd_free a = vd_free b"
    "vd_info_b a = vd_info_b b" "vregs a = vregs b" "device a = device b" "slocks a = slocks b"
    "vdst.more a = vdst.more b"
  using assms by (cases a; cases b; simp)+

function virtio_disk_intr_loop :: "'a vdst_scheme \<Rightarrow> (unit \<times> 'a vdst_scheme) res" where
  "virtio_disk_intr_loop s =
     (if vd_used_idx s \<noteq> vq_used_idx (vq s) then (
        let i = vq_used_ring (vq s) (unat (vd_used_idx s) mod NUM) in
        if vq_status (vq s) (unat i) \<noteq> 0 then panic ''virtio_disk_intr status''
        else case vd_info_b s (unat i) of None \<Rightarrow> panic ''kerneltrap'' | Some b \<Rightarrow>
        let s = upd_buf b (\<lambda>b. b\<lparr>b_disk := 0\<rparr>) s in
        bindR (wakeup (Some (ChanBuf b)) s) (\<lambda>(_, s).
        let s = s\<lparr>vd_used_idx := vd_used_idx s + 1\<rparr> in
        virtio_disk_intr_loop s))
      else Inr ((), s))"
  by pat_completeness auto

termination
proof (relation "measure (\<lambda>s. unat (vq_used_idx (vq s) - vd_used_idx s))")
  fix s s1 s2 s3 :: "'a vdst_scheme" and i b y u
  assume a: "vd_used_idx s \<noteq> vq_used_idx (vq s)" "s1 = upd_buf b (\<lambda>b. b\<lparr>b_disk := 0\<rparr>) s"
    "wakeup (Some (ChanBuf b)) s1 = Inr y" "(u, s2) = y" "s3 = s2\<lparr>vd_used_idx := vd_used_idx s2 + 1\<rparr>"
  then have "vq s3 = vq s" "vd_used_idx s3 = vd_used_idx s + 1"
    using pst_more_vdst [OF wakeup_more, of "Some (ChanBuf b)" s1 u s2] by (auto simp: upd_buf_def)
  moreover have "unat (vq_used_idx (vq s) - vd_used_idx s - 1) < unat (vq_used_idx (vq s) - vd_used_idx s)"
    using a(1) unat_gt_0 [of "vq_used_idx (vq s) - vd_used_idx s"]
    by (simp add: unat_sub_if' word_le_nat_alt Suc_leI)
  ultimately show "(s3, s) \<in> measure (\<lambda>s. unat (vq_used_idx (vq s) - vd_used_idx s))"
    by (simp add: diff_diff_eq)
qed auto

declare virtio_disk_intr_loop.simps [simp del]

definition virtio_disk_intr :: "'a vdst_scheme \<Rightarrow> (unit \<times> 'a vdst_scheme) res" where
  "virtio_disk_intr s = (
     bindR (acquire VdiskLock s) (\<lambda>(_, s).
     let s = mmio_store VIRTIO_MMIO_INTERRUPT_ACK (vregs s VIRTIO_MMIO_INTERRUPT_STATUS AND 0x3) s in
     bindR (virtio_disk_intr_loop s) (\<lambda>(_, s).
     release VdiskLock s)))"

section \<open>Requests\<close>

definition set_cpu_proc :: "nat option \<Rightarrow> 'a kmach_scheme \<Rightarrow> 'a kmach_scheme" where
  "set_cpu_proc p s = upd_cpu (\<lambda>c. c\<lparr>cpu_proc := p\<rparr>) s"

definition disk_turn :: "nat \<Rightarrow> 'a vdst_scheme others" where
  "disk_turn p s = (
     let s = set_cpu_proc None s in
     bindR (release (ProcLock p) s) (\<lambda>(_, s).
     let s = upd_vq (device s) s in
     bindR (virtio_disk_intr s) (\<lambda>(_, s).
     bindR (acquire (ProcLock p) s) (\<lambda>(_, s).
     if p_state (procs s p) = RUNNABLE then (
       let s = upd_proc p (\<lambda>q. q\<lparr>p_state := RUNNING\<rparr>) s in
       let s = set_cpu_proc (Some p) s in
       let s = swtch (\<lambda>x. upd_cpu (\<lambda>c. c\<lparr>cpu_context := x\<rparr>)) (p_context (procs s p)) s in
       Inr ((), s))
     else Inl Stuck))))"

definition fill_descs :: "nat \<Rightarrow> bool \<Rightarrow> nat \<times> nat \<times> nat \<Rightarrow> 'a vdst_scheme \<Rightarrow> 'a vdst_scheme" where
  "fill_descs b write idx s =
     (case idx of (i0, i1, i2) \<Rightarrow> (
      let sector = ucast (b_blockno (bufs s b) * of_nat (BSIZE div 512)) in
      let s = upd_vq (\<lambda>q. q\<lparr>vq_ops := (vq_ops q)(i0 := \<lparr>br_type = (if write then VIRTIO_BLK_T_OUT else VIRTIO_BLK_T_IN),
        br_reserved = 0, br_sector = sector\<rparr>)\<rparr>) s in
      let s = upd_desc i0 (\<lambda>_. \<lparr>vd_addr = DmaOps i0, vd_len = 16, vd_flags = VRING_DESC_F_NEXT, vd_next = of_nat i1\<rparr>) s in
      let s = upd_desc i1 (\<lambda>_. \<lparr>vd_addr = DmaData b, vd_len = of_nat BSIZE,
        vd_flags = (if write then 0 else VRING_DESC_F_WRITE) OR VRING_DESC_F_NEXT, vd_next = of_nat i2\<rparr>) s in
      let s = upd_vq (\<lambda>q. q\<lparr>vq_status := (vq_status q)(i0 := 0xff)\<rparr>) s in
      let s = upd_desc i2 (\<lambda>_. \<lparr>vd_addr = DmaStatus i0, vd_len = 1, vd_flags = VRING_DESC_F_WRITE, vd_next = 0\<rparr>) s in
      let s = upd_buf b (\<lambda>b. b\<lparr>b_disk := 1\<rparr>) s in
      let s = s\<lparr>vd_info_b := (vd_info_b s)(i0 := Some b)\<rparr> in
      let s = upd_vq (\<lambda>q. q\<lparr>vq_avail_ring := (vq_avail_ring q)(unat (vq_avail_idx q) mod NUM := of_nat i0)\<rparr>) s in
      let s = upd_vq (\<lambda>q. q\<lparr>vq_avail_idx := vq_avail_idx q + 1\<rparr>) s in
      mmio_store VIRTIO_MMIO_QUEUE_NOTIFY 0 s))"

definition virtio_disk_rw :: "nat \<Rightarrow> bool \<Rightarrow> 'a vdst_scheme \<Rightarrow> (unit \<times> 'a vdst_scheme) res" where
  "virtio_disk_rw b write s = (
     bindR (acquire VdiskLock s) (\<lambda>(_, s).
     bindR (alloc3_desc s) (\<lambda>(r, s).
     case r of
       None \<Rightarrow> (
         bindR (sleep alone ChanVdiskFree VdiskLock s) (\<lambda>(_, s).
         Inl Stuck))
     | Some idx \<Rightarrow>
       let s = fill_descs b write idx s in
       bindR (myproc_deref s) (\<lambda>(p, s).
       bindR ((if b_disk (bufs s b) = 1 then sleep (disk_turn p) (ChanBuf b) VdiskLock else (\<lambda>s. Inr ((), s))) s) (\<lambda>(_, s).
       if b_disk (bufs s b) = 1 then Inl Stuck else
       let s = s\<lparr>vd_info_b := (vd_info_b s)(fst idx := None)\<rparr> in
       bindR (free_chain (fst idx) s) (\<lambda>(_, s).
       release VdiskLock s))))))"

end
