(* ===== verification/Bio.thy ===== *)
theory Bio
  imports Virtio
begin

text \<open>
  The buffer cache: \<open>kernel/bio.c\<close>.  The list of buffers is kept as the source keeps it, by
  \<open>prev\<close> and \<open>next\<close> pointers around the node \<open>bcache.head\<close>; a walk along it takes the
  number of nodes as its bound.
\<close>

section \<open>Definitions\<close>

datatype bnode = BHead | BBuf nat

record biost = vdst +
  b_prev :: "bnode \<Rightarrow> bnode"
  b_next :: "bnode \<Rightarrow> bnode"

definition set_next :: "bnode \<Rightarrow> bnode \<Rightarrow> 'a biost_scheme \<Rightarrow> 'a biost_scheme" where
  "set_next b n s = s\<lparr>b_next := (b_next s)(b := n)\<rparr>"

definition set_prev :: "bnode \<Rightarrow> bnode \<Rightarrow> 'a biost_scheme \<Rightarrow> 'a biost_scheme" where
  "set_prev b n s = s\<lparr>b_prev := (b_prev s)(b := n)\<rparr>"

definition binit :: "'a biost_scheme \<Rightarrow> 'a biost_scheme" where
  "binit s = (
     let s = initlock BcacheLock ''bcache'' s in
     let s = set_prev BHead BHead s in
     let s = set_next BHead BHead s in
     fold (\<lambda>b s. (
       let s = set_next (BBuf b) (b_next s BHead) s in
       let s = set_prev (BBuf b) BHead s in
       let s = initsleeplock (BufLock b) ''buffer'' s in
       let s = set_prev (b_next s BHead) (BBuf b) s in
       set_next BHead (BBuf b) s)) [0..<NBUF] s)"

primrec bfind :: "nat \<Rightarrow> (bnode \<Rightarrow> bnode) \<Rightarrow> (nat \<Rightarrow> bool) \<Rightarrow> bnode \<Rightarrow> nat option res" where
  "bfind 0 nx P b = Inl Stuck"
| "bfind (Suc k) nx P b =
     (case b of BHead \<Rightarrow> Inr None
      | BBuf i \<Rightarrow> if P i then Inr (Some i) else bfind k nx P (nx (BBuf i)))"

definition bget :: "u32 \<Rightarrow> u32 \<Rightarrow> 'a biost_scheme \<Rightarrow> (nat \<times> 'a biost_scheme) res" where
  "bget dev blockno s = (
     bindR (acquire BcacheLock s) (\<lambda>(_, s).
     bindR (bfind (Suc NBUF) (b_next s) (\<lambda>i. b_dev (bufs s i) = dev \<and> b_blockno (bufs s i) = blockno) (b_next s BHead)) (\<lambda>r.
     case r of
       Some b \<Rightarrow> (
         let s = upd_buf b (\<lambda>b. b\<lparr>b_refcnt := b_refcnt b + 1\<rparr>) s in
         bindR (release BcacheLock s) (\<lambda>(_, s).
         bindR (acquiresleep (BufLock b) s) (\<lambda>(_, s).
         Inr (b, s))))
     | None \<Rightarrow>
     bindR (bfind (Suc NBUF) (b_prev s) (\<lambda>i. b_refcnt (bufs s i) = 0) (b_prev s BHead)) (\<lambda>r.
     case r of
       Some b \<Rightarrow> (
         let s = upd_buf b (\<lambda>b. b\<lparr>b_dev := dev, b_blockno := blockno, b_valid := 0, b_refcnt := 1\<rparr>) s in
         bindR (release BcacheLock s) (\<lambda>(_, s).
         bindR (acquiresleep (BufLock b) s) (\<lambda>(_, s).
         Inr (b, s))))
     | None \<Rightarrow> panic ''bget: no buffers''))))"

definition bread :: "u32 \<Rightarrow> u32 \<Rightarrow> 'a biost_scheme \<Rightarrow> (nat \<times> 'a biost_scheme) res" where
  "bread dev blockno s = (
     bindR (bget dev blockno s) (\<lambda>(b, s).
     if b_valid (bufs s b) = 0 then (
       bindR (virtio_disk_rw b False s) (\<lambda>(_, s).
       let s = upd_buf b (\<lambda>b. b\<lparr>b_valid := 1\<rparr>) s in
       Inr (b, s)))
     else Inr (b, s)))"

definition bwrite :: "nat \<Rightarrow> 'a biost_scheme \<Rightarrow> (unit \<times> 'a biost_scheme) res" where
  "bwrite b s = (
     bindR (holdingsleep (BufLock b) s) (\<lambda>(h, s).
     if \<not> h then panic ''bwrite''
     else virtio_disk_rw b True s))"

definition brelse :: "nat \<Rightarrow> 'a biost_scheme \<Rightarrow> (unit \<times> 'a biost_scheme) res" where
  "brelse b s = (
     bindR (holdingsleep (BufLock b) s) (\<lambda>(h, s).
     if \<not> h then panic ''brelse'' else
     bindR (releasesleep (BufLock b) s) (\<lambda>(_, s).
     bindR (acquire BcacheLock s) (\<lambda>(_, s).
     let s = upd_buf b (\<lambda>b. b\<lparr>b_refcnt := b_refcnt b - 1\<rparr>) s in
     let s = (if b_refcnt (bufs s b) = 0 then (
       let s = set_prev (b_next s (BBuf b)) (b_prev s (BBuf b)) s in
       let s = set_next (b_prev s (BBuf b)) (b_next s (BBuf b)) s in
       let s = set_next (BBuf b) (b_next s BHead) s in
       let s = set_prev (BBuf b) BHead s in
       let s = set_prev (b_next s BHead) (BBuf b) s in
       set_next BHead (BBuf b) s)
       else s) in
     release BcacheLock s))))"

definition bpin :: "nat \<Rightarrow> 'a biost_scheme \<Rightarrow> (unit \<times> 'a biost_scheme) res" where
  "bpin b s = (
     bindR (acquire BcacheLock s) (\<lambda>(_, s).
     let s = upd_buf b (\<lambda>b. b\<lparr>b_refcnt := b_refcnt b + 1\<rparr>) s in
     release BcacheLock s))"

definition bunpin :: "nat \<Rightarrow> 'a biost_scheme \<Rightarrow> (unit \<times> 'a biost_scheme) res" where
  "bunpin b s = (
     bindR (acquire BcacheLock s) (\<lambda>(_, s).
     let s = upd_buf b (\<lambda>b. b\<lparr>b_refcnt := b_refcnt b - 1\<rparr>) s in
     release BcacheLock s))"

end
