(* ===== verification/Logfs.thy ===== *)
theory Logfs
  imports Bio
begin

text \<open>
  The redo log: \<open>kernel/log.c\<close>.  The header block is read and written as bytes of its buffer.
\<close>

section \<open>Definitions\<close>

record logst = biost +
  lg_start :: u32
  lg_size :: u32
  lg_outstanding :: u32
  lg_committing :: u32
  lg_dev :: u32
  lh_n :: u32
  lh_block :: "nat \<Rightarrow> u32"

text \<open>Overwriting part of a byte array, and reading a little-endian word from it.\<close>

definition patch :: "nat \<Rightarrow> u8 list \<Rightarrow> u8 list \<Rightarrow> u8 list" where
  "patch off bs d = take off d @ bs @ drop (off + length bs) d"

definition get32 :: "u8 list \<Rightarrow> nat \<Rightarrow> u32" where
  "get32 d off = of_bytes (take 4 (drop off d))"

definition lh_count :: "'a logst_scheme \<Rightarrow> nat" where
  "lh_count s = nat (sint (lh_n s))"

definition install_one :: "bool \<Rightarrow> nat \<Rightarrow> 'a logst_scheme \<Rightarrow> (unit \<times> 'a logst_scheme) res" where
  "install_one recovering tail s = (
     bindR (bread (lg_dev s) (lg_start s + of_nat tail + 1) s) (\<lambda>(lbuf, s).
     bindR (bread (lg_dev s) (lh_block s tail) s) (\<lambda>(dbuf, s).
     let s = set_bdata dbuf (bdata s lbuf) s in
     bindR (bwrite dbuf s) (\<lambda>(_, s).
     bindR ((if \<not> recovering then bunpin dbuf else (\<lambda>s. Inr ((), s))) s) (\<lambda>(_, s).
     bindR (brelse lbuf s) (\<lambda>(_, s).
     brelse dbuf s))))))"

definition install_trans :: "bool \<Rightarrow> 'a logst_scheme \<Rightarrow> (unit \<times> 'a logst_scheme) res" where
  "install_trans recovering s = forR (install_one recovering) [0..<lh_count s] s"

text \<open>A count beyond \<open>LOGSIZE\<close> overruns \<open>log.lh.block\<close>, which is undefined behaviour.\<close>

definition read_head :: "'a logst_scheme \<Rightarrow> (unit \<times> 'a logst_scheme) res" where
  "read_head s = (
     bindR (bread (lg_dev s) (lg_start s) s) (\<lambda>(buf, s).
     let lh = bdata s buf in
     let s = s\<lparr>lh_n := get32 lh 0\<rparr> in
     if LOGSIZE < lh_count s then Inl Stuck else
     let s = s\<lparr>lh_block := (\<lambda>i. if i < lh_count s then get32 lh (4 + 4 * i) else lh_block s i)\<rparr> in
     brelse buf s))"

definition write_head :: "'a logst_scheme \<Rightarrow> (unit \<times> 'a logst_scheme) res" where
  "write_head s = (
     bindR (bread (lg_dev s) (lg_start s) s) (\<lambda>(buf, s).
     let s = set_bdata buf (patch 0 (to_bytes 4 (lh_n s)) (bdata s buf)) s in
     let s = set_bdata buf (fold (\<lambda>i. patch (4 + 4 * i) (to_bytes 4 (lh_block s i))) [0..<lh_count s] (bdata s buf)) s in
     bindR (bwrite buf s) (\<lambda>(_, s).
     brelse buf s)))"

definition recover_from_log :: "'a logst_scheme \<Rightarrow> (unit \<times> 'a logst_scheme) res" where
  "recover_from_log s = (
     bindR (read_head s) (\<lambda>(_, s).
     bindR (install_trans True s) (\<lambda>(_, s).
     let s = s\<lparr>lh_n := 0\<rparr> in
     write_head s)))"

definition initlog :: "u32 \<Rightarrow> u32 \<Rightarrow> u32 \<Rightarrow> 'a logst_scheme \<Rightarrow> (unit \<times> 'a logst_scheme) res" where
  "initlog dev logstart nlog s = (
     if 4 + 4 * LOGSIZE \<ge> BSIZE then panic ''initlog: too big logheader'' else
     let s = initlock LogLock ''log'' s in
     let s = s\<lparr>lg_start := logstart\<rparr> in
     let s = s\<lparr>lg_size := nlog\<rparr> in
     let s = s\<lparr>lg_dev := dev\<rparr> in
     recover_from_log s)"

fun begin_op_loop :: "'a logst_scheme others list \<Rightarrow> 'a logst_scheme \<Rightarrow> (unit \<times> 'a logst_scheme) res" where
  "begin_op_loop ws s =
     (if lg_committing s \<noteq> 0 \<or> of_nat LOGSIZE <s lh_n s + (lg_outstanding s + 1) * of_nat MAXOPBLOCKS then
        (case ws of
           [] \<Rightarrow> (
             bindR (sleep alone ChanLog LogLock s) (\<lambda>(_, s).
             Inl Stuck))
         | w # ws \<Rightarrow> (
             bindR (sleep w ChanLog LogLock s) (\<lambda>(_, s).
             begin_op_loop ws s)))
      else (
        let s = s\<lparr>lg_outstanding := lg_outstanding s + 1\<rparr> in
        release LogLock s))"

definition begin_op_among :: "'a logst_scheme others list \<Rightarrow> 'a logst_scheme \<Rightarrow> (unit \<times> 'a logst_scheme) res" where
  "begin_op_among ws s = (
     bindR (acquire LogLock s) (\<lambda>(_, s).
     begin_op_loop ws s))"

definition begin_op :: "'a logst_scheme \<Rightarrow> (unit \<times> 'a logst_scheme) res" where
  "begin_op s = begin_op_among [] s"

definition write_log_one :: "nat \<Rightarrow> 'a logst_scheme \<Rightarrow> (unit \<times> 'a logst_scheme) res" where
  "write_log_one tail s = (
     bindR (bread (lg_dev s) (lg_start s + of_nat tail + 1) s) (\<lambda>(to, s).
     bindR (bread (lg_dev s) (lh_block s tail) s) (\<lambda>(from, s).
     let s = set_bdata to (bdata s from) s in
     bindR (bwrite to s) (\<lambda>(_, s).
     bindR (brelse from s) (\<lambda>(_, s).
     brelse to s)))))"

definition write_log :: "'a logst_scheme \<Rightarrow> (unit \<times> 'a logst_scheme) res" where
  "write_log s = forR write_log_one [0..<lh_count s] s"

definition commit :: "'a logst_scheme \<Rightarrow> (unit \<times> 'a logst_scheme) res" where
  "commit s = (
     if 0 <s lh_n s then (
       bindR (write_log s) (\<lambda>(_, s).
       bindR (write_head s) (\<lambda>(_, s).
       bindR (install_trans False s) (\<lambda>(_, s).
       let s = s\<lparr>lh_n := 0\<rparr> in
       write_head s))))
     else Inr ((), s))"

definition end_op :: "'a logst_scheme \<Rightarrow> (unit \<times> 'a logst_scheme) res" where
  "end_op s = (
     bindR (acquire LogLock s) (\<lambda>(_, s).
     let s = s\<lparr>lg_outstanding := lg_outstanding s - 1\<rparr> in
     if lg_committing s \<noteq> 0 then panic ''log.committing'' else
     if lg_outstanding s = 0 then (
       let s = s\<lparr>lg_committing := 1\<rparr> in
       bindR (release LogLock s) (\<lambda>(_, s).
       bindR (commit s) (\<lambda>(_, s).
       bindR (acquire LogLock s) (\<lambda>(_, s).
       let s = s\<lparr>lg_committing := 0\<rparr> in
       bindR (wakeup (Some ChanLog) s) (\<lambda>(_, s).
       release LogLock s)))))
     else
     bindR (wakeup (Some ChanLog) s) (\<lambda>(_, s).
     release LogLock s)))"

definition log_write :: "nat \<Rightarrow> 'a logst_scheme \<Rightarrow> (unit \<times> 'a logst_scheme) res" where
  "log_write b s = (
     bindR (acquire LogLock s) (\<lambda>(_, s).
     if of_nat LOGSIZE \<le>s lh_n s \<or> lg_size s - 1 \<le>s lh_n s then panic ''too big a transaction'' else
     if lg_outstanding s <s 1 then panic ''log_write outside of trans'' else
     let i = (case find (\<lambda>i. lh_block s i = b_blockno (bufs s b)) [0..<lh_count s] of Some i \<Rightarrow> i | None \<Rightarrow> lh_count s) in
     let s = s\<lparr>lh_block := (lh_block s)(i := b_blockno (bufs s b))\<rparr> in
     if i = lh_count s then (
       bindR (bpin b s) (\<lambda>(_, s).
       let s = s\<lparr>lh_n := lh_n s + 1\<rparr> in
       release LogLock s))
     else release LogLock s))"

end
