(* ===== verification/Fs.thy ===== *)
theory Fs
  imports Logfs
begin

text \<open>
  The file system: \<open>kernel/fs.c\<close> with the on-disk format of \<open>kernel/fs.h\<close> and the inode
  table of \<open>kernel/file.h\<close>.  Inodes are named by their index in the table.  Disk structures
  are read from and written into the bytes of a buffer at the offsets of the C structures.  Path
  names and directory entry names are lists of bytes without the terminating NUL.
\<close>

section \<open>Layout\<close>

definition ROOTINO :: u32 where "ROOTINO = 1"
definition FSMAGIC :: u32 where "FSMAGIC = 0x10203040"
definition NDIRECT :: nat where "NDIRECT = 12"
definition NINDIRECT :: nat where "NINDIRECT = BSIZE div 4"
definition MAXFILE :: nat where "MAXFILE = NDIRECT + NINDIRECT"
definition DINODE_SIZE :: nat where "DINODE_SIZE = 64"
definition IPB :: nat where "IPB = BSIZE div DINODE_SIZE"
definition BPB :: nat where "BPB = BSIZE * 8"
definition DIRSIZ :: nat where "DIRSIZ = 14"
definition DIRENT_SIZE :: nat where "DIRENT_SIZE = 16"
definition T_DIR :: u16 where "T_DIR = 1"
definition T_FILE :: u16 where "T_FILE = 2"
definition T_DEVICE :: u16 where "T_DEVICE = 3"

record superblock =
  sb_magic :: u32
  sb_size :: u32
  sb_nblocks :: u32
  sb_ninodes :: u32
  sb_nlog :: u32
  sb_logstart :: u32
  sb_inodestart :: u32
  sb_bmapstart :: u32

record inode =
  i_dev :: u32
  i_inum :: u32
  i_ref :: u32
  i_valid :: u32
  i_type :: u16
  i_major :: u16
  i_minor :: u16
  i_nlink :: u16
  i_size :: u32
  i_addrs :: "u32 list"

record fsst = logst +
  sb :: superblock
  itable :: "nat \<Rightarrow> inode"

definition upd_inode :: "nat \<Rightarrow> (inode \<Rightarrow> inode) \<Rightarrow> 'a fsst_scheme \<Rightarrow> 'a fsst_scheme" where
  "upd_inode ip f s = s\<lparr>itable := (itable s)(ip := f (itable s ip))\<rparr>"

definition IBLOCK :: "u32 \<Rightarrow> superblock \<Rightarrow> u32" where
  "IBLOCK i b = i div of_nat IPB + sb_inodestart b"

definition BBLOCK :: "u32 \<Rightarrow> superblock \<Rightarrow> u32" where
  "BBLOCK i b = i div of_nat BPB + sb_bmapstart b"

definition get16 :: "u8 list \<Rightarrow> nat \<Rightarrow> u16" where
  "get16 d off = of_bytes (take 2 (drop off d))"

section \<open>Super block and blocks\<close>

definition sb_of_bytes :: "u8 list \<Rightarrow> superblock" where
  "sb_of_bytes d = \<lparr>sb_magic = get32 d 0, sb_size = get32 d 4, sb_nblocks = get32 d 8, sb_ninodes = get32 d 12,
     sb_nlog = get32 d 16, sb_logstart = get32 d 20, sb_inodestart = get32 d 24, sb_bmapstart = get32 d 28\<rparr>"

definition readsb :: "u32 \<Rightarrow> 'a fsst_scheme \<Rightarrow> (unit \<times> 'a fsst_scheme) res" where
  "readsb dev s = (
     bindR (bread dev 1 s) (\<lambda>(bp, s).
     let s = s\<lparr>sb := sb_of_bytes (bdata s bp)\<rparr> in
     brelse bp s))"

definition fsinit :: "u32 \<Rightarrow> 'a fsst_scheme \<Rightarrow> (unit \<times> 'a fsst_scheme) res" where
  "fsinit dev s = (
     bindR (readsb dev s) (\<lambda>(_, s).
     if sb_magic (sb s) \<noteq> FSMAGIC then panic ''invalid file system''
     else initlog dev (sb_logstart (sb s)) (sb_nlog (sb s)) s))"

definition bzero :: "u32 \<Rightarrow> u32 \<Rightarrow> 'a logst_scheme \<Rightarrow> (unit \<times> 'a logst_scheme) res" where
  "bzero dev bno s = (
     bindR (bread dev bno s) (\<lambda>(bp, s).
     let s = set_bdata bp (replicate BSIZE 0) s in
     bindR (log_write bp s) (\<lambda>(_, s).
     brelse bp s)))"

text \<open>The bitmap: bit \<open>bi mod 8\<close> of byte \<open>bi div 8\<close>.\<close>

definition bit_used :: "u8 list \<Rightarrow> nat \<Rightarrow> bool" where
  "bit_used d bi = ((d ! (bi div 8)) AND push_bit (bi mod 8) 1 \<noteq> 0)"

definition set_used :: "nat \<Rightarrow> u8 list \<Rightarrow> u8 list" where
  "set_used bi d = d[bi div 8 := (d ! (bi div 8)) OR push_bit (bi mod 8) 1]"

definition clear_used :: "nat \<Rightarrow> u8 list \<Rightarrow> u8 list" where
  "clear_used bi d = d[bi div 8 := (d ! (bi div 8)) AND NOT (push_bit (bi mod 8) 1)]"

text \<open>\<open>b\<close> runs over the multiples of \<open>BPB\<close> below the size of the file system.\<close>

primrec balloc_scan :: "u32 \<Rightarrow> nat list \<Rightarrow> 'a fsst_scheme \<Rightarrow> (u32 \<times> 'a fsst_scheme) res" where
  "balloc_scan dev [] s = (
     bindR (printf (''balloc: out of blocks'' @ [CHR 0x0A]) [] s) (\<lambda>(_, s).
     Inr (0, s)))"
| "balloc_scan dev (b # bs) s = (
     bindR (bread dev (BBLOCK (of_nat b) (sb s)) s) (\<lambda>(bp, s).
     case find (\<lambda>bi. \<not> bit_used (bdata s bp) bi) [0..<min BPB (unat (sb_size (sb s)) - b)] of
       Some bi \<Rightarrow> (
         let s = set_bdata bp (set_used bi (bdata s bp)) s in
         bindR (log_write bp s) (\<lambda>(_, s).
         bindR (brelse bp s) (\<lambda>(_, s).
         bindR (bzero dev (of_nat (b + bi)) s) (\<lambda>(_, s).
         Inr (of_nat (b + bi), s)))))
     | None \<Rightarrow>
         bindR (brelse bp s) (\<lambda>(_, s).
         balloc_scan dev bs s)))"

definition balloc :: "u32 \<Rightarrow> 'a fsst_scheme \<Rightarrow> (u32 \<times> 'a fsst_scheme) res" where
  "balloc dev s = balloc_scan dev (map (\<lambda>k. k * BPB) [0..<(unat (sb_size (sb s)) + BPB - 1) div BPB]) s"

definition bfree :: "u32 \<Rightarrow> u32 \<Rightarrow> 'a fsst_scheme \<Rightarrow> (unit \<times> 'a fsst_scheme) res" where
  "bfree dev b s = (
     bindR (bread dev (BBLOCK b (sb s)) s) (\<lambda>(bp, s).
     let bi = unat b mod BPB in
     if \<not> bit_used (bdata s bp) bi then panic ''freeing free block'' else
     let s = set_bdata bp (clear_used bi (bdata s bp)) s in
     bindR (log_write bp s) (\<lambda>(_, s).
     brelse bp s)))"

section \<open>Inodes\<close>

definition iinit :: "'a fsst_scheme \<Rightarrow> 'a fsst_scheme" where
  "iinit s =
     (let s = initlock ItableLock ''itable'' s
      in fold (\<lambda>i. initsleeplock (InodeLock i) ''inode'') [0..<NINODE] s)"

text \<open>Byte offset of an inode in its block, and the fields of \<open>struct dinode\<close> there.\<close>

definition dinode_off :: "u32 \<Rightarrow> nat" where
  "dinode_off inum = unat inum mod IPB * DINODE_SIZE"

definition dinode_bytes :: "inode \<Rightarrow> u8 list" where
  "dinode_bytes i = to_bytes 2 (i_type i) @ to_bytes 2 (i_major i) @ to_bytes 2 (i_minor i) @ to_bytes 2 (i_nlink i) @
     to_bytes 4 (i_size i) @ concat (map (to_bytes 4) (i_addrs i))"

definition iget :: "u32 \<Rightarrow> u32 \<Rightarrow> 'a fsst_scheme \<Rightarrow> (nat \<times> 'a fsst_scheme) res" where
  "iget dev inum s = (
     bindR (acquire ItableLock s) (\<lambda>(_, s).
     case find (\<lambda>i. 0 <s i_ref (itable s i) \<and> i_dev (itable s i) = dev \<and> i_inum (itable s i) = inum) [0..<NINODE] of
       Some ip \<Rightarrow> (
         let s = upd_inode ip (\<lambda>i. i\<lparr>i_ref := i_ref i + 1\<rparr>) s in
         bindR (release ItableLock s) (\<lambda>(_, s).
         Inr (ip, s)))
     | None \<Rightarrow>
     case find (\<lambda>i. i_ref (itable s i) = 0) [0..<NINODE] of
       None \<Rightarrow> panic ''iget: no inodes''
     | Some ip \<Rightarrow>
         let s = upd_inode ip (\<lambda>i. i\<lparr>i_dev := dev, i_inum := inum, i_ref := 1, i_valid := 0\<rparr>) s in
         bindR (release ItableLock s) (\<lambda>(_, s).
         Inr (ip, s))))"

primrec ialloc_scan :: "u32 \<Rightarrow> u16 \<Rightarrow> nat list \<Rightarrow> 'a fsst_scheme \<Rightarrow> (nat option \<times> 'a fsst_scheme) res" where
  "ialloc_scan dev type [] s = (
     bindR (printf (''ialloc: no inodes'' @ [CHR 0x0A]) [] s) (\<lambda>(_, s).
     Inr (None, s)))"
| "ialloc_scan dev type (inum # inums) s = (
     bindR (bread dev (IBLOCK (of_nat inum) (sb s)) s) (\<lambda>(bp, s).
     let off = dinode_off (of_nat inum) in
     if get16 (bdata s bp) off = 0 then (
       let s = set_bdata bp (patch off (replicate DINODE_SIZE 0) (bdata s bp)) s in
       let s = set_bdata bp (patch off (to_bytes 2 type) (bdata s bp)) s in
       bindR (log_write bp s) (\<lambda>(_, s).
       bindR (brelse bp s) (\<lambda>(_, s).
       bindR (iget dev (of_nat inum) s) (\<lambda>(ip, s).
       Inr (Some ip, s)))))
     else
     bindR (brelse bp s) (\<lambda>(_, s).
     ialloc_scan dev type inums s)))"

definition ialloc :: "u32 \<Rightarrow> u16 \<Rightarrow> 'a fsst_scheme \<Rightarrow> (nat option \<times> 'a fsst_scheme) res" where
  "ialloc dev type s = ialloc_scan dev type [1..<unat (sb_ninodes (sb s))] s"

definition iupdate :: "nat \<Rightarrow> 'a fsst_scheme \<Rightarrow> (unit \<times> 'a fsst_scheme) res" where
  "iupdate ip s = (
     bindR (bread (i_dev (itable s ip)) (IBLOCK (i_inum (itable s ip)) (sb s)) s) (\<lambda>(bp, s).
     let off = dinode_off (i_inum (itable s ip)) in
     let s = set_bdata bp (patch off (dinode_bytes (itable s ip)) (bdata s bp)) s in
     bindR (log_write bp s) (\<lambda>(_, s).
     brelse bp s)))"

definition idup :: "nat \<Rightarrow> 'a fsst_scheme \<Rightarrow> (nat \<times> 'a fsst_scheme) res" where
  "idup ip s = (
     bindR (acquire ItableLock s) (\<lambda>(_, s).
     let s = upd_inode ip (\<lambda>i. i\<lparr>i_ref := i_ref i + 1\<rparr>) s in
     bindR (release ItableLock s) (\<lambda>(_, s).
     Inr (ip, s))))"

definition load_dinode :: "u8 list \<Rightarrow> nat \<Rightarrow> inode \<Rightarrow> inode" where
  "load_dinode d off i = i\<lparr>i_type := get16 d off, i_major := get16 d (off + 2), i_minor := get16 d (off + 4),
     i_nlink := get16 d (off + 6), i_size := get32 d (off + 8),
     i_addrs := map (\<lambda>j. get32 d (off + 12 + 4 * j)) [0..<NDIRECT + 1]\<rparr>"

definition ilock :: "nat \<Rightarrow> 'a fsst_scheme \<Rightarrow> (unit \<times> 'a fsst_scheme) res" where
  "ilock ip s = (
     if i_ref (itable s ip) <s 1 then panic ''ilock'' else
     bindR (acquiresleep (InodeLock ip) s) (\<lambda>(_, s).
     if i_valid (itable s ip) = 0 then (
       bindR (bread (i_dev (itable s ip)) (IBLOCK (i_inum (itable s ip)) (sb s)) s) (\<lambda>(bp, s).
       let s = upd_inode ip (load_dinode (bdata s bp) (dinode_off (i_inum (itable s ip)))) s in
       bindR (brelse bp s) (\<lambda>(_, s).
       let s = upd_inode ip (\<lambda>i. i\<lparr>i_valid := 1\<rparr>) s in
       if i_type (itable s ip) = 0 then panic ''ilock: no type'' else Inr ((), s))))
     else Inr ((), s)))"

definition iunlock :: "nat \<Rightarrow> 'a fsst_scheme \<Rightarrow> (unit \<times> 'a fsst_scheme) res" where
  "iunlock ip s = (
     bindR (holdingsleep (InodeLock ip) s) (\<lambda>(h, s).
     if \<not> h \<or> i_ref (itable s ip) <s 1 then panic ''iunlock''
     else releasesleep (InodeLock ip) s))"

section \<open>Inode contents\<close>

definition bmap :: "nat \<Rightarrow> u32 \<Rightarrow> 'a fsst_scheme \<Rightarrow> (u32 \<times> 'a fsst_scheme) res" where
  "bmap ip bn s = (
     if bn < of_nat NDIRECT then (
       let addr = i_addrs (itable s ip) ! unat bn in
       if addr = 0 then (
         bindR (balloc (i_dev (itable s ip)) s) (\<lambda>(addr, s).
         if addr = 0 then Inr (0, s)
         else Inr (addr, upd_inode ip (\<lambda>i. i\<lparr>i_addrs := (i_addrs i)[unat bn := addr]\<rparr>) s)))
       else Inr (addr, s))
     else
     let bn = bn - of_nat NDIRECT in
     if bn < of_nat NINDIRECT then (
       bindR ((\<lambda>s.
         if i_addrs (itable s ip) ! NDIRECT = 0
         then bindR (balloc (i_dev (itable s ip)) s) (\<lambda>(addr, s).
           if addr = 0 then Inr (0, s)
           else Inr (addr, upd_inode ip (\<lambda>i. i\<lparr>i_addrs := (i_addrs i)[NDIRECT := addr]\<rparr>) s))
         else Inr (i_addrs (itable s ip) ! NDIRECT, s)) s) (\<lambda>(addr, s).
       if addr = 0 then Inr (0, s) else
       bindR (bread (i_dev (itable s ip)) addr s) (\<lambda>(bp, s).
       let addr = get32 (bdata s bp) (4 * unat bn) in
       bindR ((\<lambda>s.
         if addr = 0
         then bindR (balloc (i_dev (itable s ip)) s) (\<lambda>(addr, s).
           if addr \<noteq> 0 then
             bindR (log_write bp (set_bdata bp (patch (4 * unat bn) (to_bytes 4 addr) (bdata s bp)) s)) (\<lambda>(_, s). Inr (addr, s))
           else Inr (addr, s))
         else Inr (addr, s)) s) (\<lambda>(addr, s).
       bindR (brelse bp s) (\<lambda>(_, s).
       Inr (addr, s))))))
     else panic ''bmap: out of range'')"

definition itrunc :: "nat \<Rightarrow> 'a fsst_scheme \<Rightarrow> (unit \<times> 'a fsst_scheme) res" where
  "itrunc ip s = (
     bindR (forR (\<lambda>i s.
       if i_addrs (itable s ip) ! i \<noteq> 0
       then bindR (bfree (i_dev (itable s ip)) (i_addrs (itable s ip) ! i) s) (\<lambda>(_, s).
         Inr ((), upd_inode ip (\<lambda>q. q\<lparr>i_addrs := (i_addrs q)[i := 0]\<rparr>) s))
       else Inr ((), s)) [0..<NDIRECT] s) (\<lambda>(_, s).
     if i_addrs (itable s ip) ! NDIRECT \<noteq> 0 then (
       bindR (bread (i_dev (itable s ip)) (i_addrs (itable s ip) ! NDIRECT) s) (\<lambda>(bp, s).
       bindR (forR (\<lambda>j s.
         if get32 (bdata s bp) (4 * j) \<noteq> 0 then bfree (i_dev (itable s ip)) (get32 (bdata s bp) (4 * j)) s
         else Inr ((), s)) [0..<NINDIRECT] s) (\<lambda>(_, s).
       bindR (brelse bp s) (\<lambda>(_, s).
       bindR (bfree (i_dev (itable s ip)) (i_addrs (itable s ip) ! NDIRECT) s) (\<lambda>(_, s).
       let s = upd_inode ip (\<lambda>q. q\<lparr>i_addrs := (i_addrs q)[NDIRECT := 0]\<rparr>) s in
       let s = upd_inode ip (\<lambda>q. q\<lparr>i_size := 0\<rparr>) s in
       iupdate ip s)))))
     else
     let s = upd_inode ip (\<lambda>q. q\<lparr>i_size := 0\<rparr>) s in
     iupdate ip s))"

definition iput :: "nat \<Rightarrow> 'a fsst_scheme \<Rightarrow> (unit \<times> 'a fsst_scheme) res" where
  "iput ip s = (
     bindR (acquire ItableLock s) (\<lambda>(_, s).
     bindR ((if i_ref (itable s ip) = 1 \<and> i_valid (itable s ip) \<noteq> 0 \<and> i_nlink (itable s ip) = 0 then
       (\<lambda>s. bindR (acquiresleep (InodeLock ip) s) (\<lambda>(_, s).
         bindR (release ItableLock s) (\<lambda>(_, s).
         bindR (itrunc ip s) (\<lambda>(_, s).
         bindR (iupdate ip (upd_inode ip (\<lambda>i. i\<lparr>i_type := 0\<rparr>) s)) (\<lambda>(_, s).
         bindR (releasesleep (InodeLock ip) (upd_inode ip (\<lambda>i. i\<lparr>i_valid := 0\<rparr>) s)) (\<lambda>(_, s).
         acquire ItableLock s))))))
       else (\<lambda>s. Inr ((), s))) s) (\<lambda>(_, s).
     let s = upd_inode ip (\<lambda>i. i\<lparr>i_ref := i_ref i - 1\<rparr>) s in
     release ItableLock s)))"

definition iunlockput :: "nat \<Rightarrow> 'a fsst_scheme \<Rightarrow> (unit \<times> 'a fsst_scheme) res" where
  "iunlockput ip s = (
     bindR (iunlock ip s) (\<lambda>(_, s).
     iput ip s))"

text \<open>The bytes of \<open>struct stat\<close>: \<open>size\<close> is aligned to 8.\<close>

definition stati :: "inode \<Rightarrow> u8 list" where
  "stati i = to_bytes 4 (i_dev i) @ to_bytes 4 (i_inum i) @ to_bytes 2 (i_type i) @ to_bytes 2 (i_nlink i) @
     replicate 4 0 @ to_bytes 8 (ucast (i_size i) :: u64)"

text \<open>
  \<open>dst\<close> is the user address to copy to, or nothing for a kernel object; the bytes that were
  copied are part of the result.
\<close>

definition chunk_len :: "u32 \<Rightarrow> u32 \<Rightarrow> u32" where
  "chunk_len left off = (let m = of_nat BSIZE - off mod of_nat BSIZE in if left < m then left else m)"

lemma chunk_len_pos:
  assumes "tot < n"
  shows "unat (n - (tot + chunk_len (n - tot) off)) < unat (n - tot)"
proof -
  define d where "d = n - tot"
  have d: "0 < unat d" using assms by (simp add: d_def unat_gt_0)
  have "unat (off mod of_nat BSIZE) < BSIZE" by (simp add: unat_mod BSIZE_def)
  then have "0 < unat (chunk_len d off)" "unat (chunk_len d off) \<le> unat d"
    using d by (auto simp: chunk_len_def Let_def unat_sub_if' BSIZE_def word_less_nat_alt not_less)
  then have "unat (d - chunk_len d off) < unat d" using d by (simp add: unat_sub_if')
  then show ?thesis by (simp add: d_def diff_diff_eq)
qed

function readi_loop :: "nat \<Rightarrow> u64 option \<Rightarrow> u32 \<Rightarrow> u32 \<Rightarrow> u32 \<Rightarrow> u8 list \<Rightarrow> 'a fsst_scheme \<Rightarrow> ((u32 \<times> u8 list) \<times> 'a fsst_scheme) res" where
  "readi_loop ip dst off n tot acc s =
     (if tot < n then (
        bindR (bmap ip (off div of_nat BSIZE) s) (\<lambda>(addr, s).
        if addr = 0 then Inr ((tot, acc), s) else
        bindR (bread (i_dev (itable s ip)) addr s) (\<lambda>(bp, s).
        let m = chunk_len (n - tot) off in
        let bs = take (unat m) (drop (unat (off mod of_nat BSIZE)) (bdata s bp)) in
        bindR (either_copyout dst bs s) (\<lambda>(r, s).
        if r = - 1 then (
          bindR (brelse bp s) (\<lambda>(_, s).
          Inr ((- 1, acc), s)))
        else
        bindR (brelse bp s) (\<lambda>(_, s).
        readi_loop ip (map_option (\<lambda>a. a + ucast m) dst) (off + m) n (tot + m) (acc @ bs) s)))))
      else Inr ((tot, acc), s))"
  by pat_completeness auto

termination
  by (relation "measure (\<lambda>(_, _, _, n, tot, _, _). unat (n - tot))") (auto intro: chunk_len_pos)

declare readi_loop.simps [simp del]

definition readi :: "nat \<Rightarrow> u64 option \<Rightarrow> u32 \<Rightarrow> u32 \<Rightarrow> 'a fsst_scheme \<Rightarrow> ((u32 \<times> u8 list) \<times> 'a fsst_scheme) res" where
  "readi ip dst off n s =
     (let size = i_size (itable s ip) in
      if size < off \<or> off + n < off then Inr ((0, []), s)
      else let n = (if size < off + n then size - off else n) in
        readi_loop ip dst off n 0 [] s)"

function writei_loop :: "nat \<Rightarrow> u64 + u8 list \<Rightarrow> u32 \<Rightarrow> u32 \<Rightarrow> u32 \<Rightarrow> 'a fsst_scheme \<Rightarrow> ((u32 \<times> u32) \<times> 'a fsst_scheme) res" where
  "writei_loop ip src off n tot s =
     (if tot < n then (
        bindR (bmap ip (off div of_nat BSIZE) s) (\<lambda>(addr, s).
        if addr = 0 then Inr ((tot, off), s) else
        bindR (bread (i_dev (itable s ip)) addr s) (\<lambda>(bp, s).
        let m = chunk_len (n - tot) off in
        bindR (either_copyin src (unat m) s) (\<lambda>((r, bs), s).
        let s = set_bdata bp (patch (unat (off mod of_nat BSIZE)) bs (bdata s bp)) s in
        if r = - 1 then (
          bindR (brelse bp s) (\<lambda>(_, s).
          Inr ((tot, off), s)))
        else
        bindR (log_write bp s) (\<lambda>(_, s).
        bindR (brelse bp s) (\<lambda>(_, s).
        writei_loop ip (src_plus src (unat m)) (off + m) n (tot + m) s))))))
      else Inr ((tot, off), s))"
  by pat_completeness auto

termination
  by (relation "measure (\<lambda>(_, _, _, n, tot, _). unat (n - tot))") (auto intro: chunk_len_pos)

declare writei_loop.simps [simp del]

definition writei :: "nat \<Rightarrow> u64 + u8 list \<Rightarrow> u32 \<Rightarrow> u32 \<Rightarrow> 'a fsst_scheme \<Rightarrow> (u32 \<times> 'a fsst_scheme) res" where
  "writei ip src off n s = (
     if i_size (itable s ip) < off \<or> off + n < off then Inr (- 1, s) else
     if of_nat (MAXFILE * BSIZE) < off + n then Inr (- 1, s) else
     bindR (writei_loop ip src off n 0 s) (\<lambda>((tot, off), s).
     let s = (if i_size (itable s ip) < off then upd_inode ip (\<lambda>i. i\<lparr>i_size := off\<rparr>) s else s) in
     bindR (iupdate ip s) (\<lambda>(_, s).
     Inr (tot, s))))"

section \<open>Directories\<close>

text \<open>A string that ends here reads as NUL.\<close>

definition nul_hd :: "u8 list \<Rightarrow> u8" where
  "nul_hd p = (case p of [] \<Rightarrow> 0 | c # _ \<Rightarrow> c)"

primrec strncmp_str :: "nat \<Rightarrow> u8 list \<Rightarrow> u8 list \<Rightarrow> int" where
  "strncmp_str 0 p q = 0"
| "strncmp_str (Suc n) p q =
     (if nul_hd p \<noteq> 0 \<and> nul_hd p = nul_hd q then strncmp_str n (tl p) (tl q)
      else uint (nul_hd p) - uint (nul_hd q))"

definition namecmp :: "u8 list \<Rightarrow> u8 list \<Rightarrow> int" where
  "namecmp p q = strncmp_str DIRSIZ p q"

definition dirent_name :: "u8 list \<Rightarrow> u8 list" where
  "dirent_name name = take DIRSIZ (name @ replicate DIRSIZ 0)"

text \<open>Offsets of the entries of a directory of the given size.\<close>

definition dirent_offs :: "u32 \<Rightarrow> nat list" where
  "dirent_offs sz = map (\<lambda>k. k * DIRENT_SIZE) [0..<(unat sz + DIRENT_SIZE - 1) div DIRENT_SIZE]"

primrec dirlookup_scan :: "nat \<Rightarrow> u8 list \<Rightarrow> nat list \<Rightarrow> 'a fsst_scheme \<Rightarrow> ((nat \<times> u32) option \<times> 'a fsst_scheme) res" where
  "dirlookup_scan dp name [] s = Inr (None, s)"
| "dirlookup_scan dp name (off # offs) s = (
     bindR (readi dp None (of_nat off) (of_nat DIRENT_SIZE) s) (\<lambda>((r, de), s).
     if r \<noteq> of_nat DIRENT_SIZE then panic ''dirlookup read'' else
     if get16 de 0 \<noteq> 0 \<and> namecmp name (drop 2 de) = 0 then (
       bindR (iget (i_dev (itable s dp)) (ucast (get16 de 0)) s) (\<lambda>(ip, s).
       Inr (Some (ip, of_nat off), s)))
     else dirlookup_scan dp name offs s))"

definition dirlookup :: "nat \<Rightarrow> u8 list \<Rightarrow> 'a fsst_scheme \<Rightarrow> ((nat \<times> u32) option \<times> 'a fsst_scheme) res" where
  "dirlookup dp name s =
     (if i_type (itable s dp) \<noteq> T_DIR then panic ''dirlookup not DIR''
      else dirlookup_scan dp name (dirent_offs (i_size (itable s dp))) s)"

text \<open>The offset of the first empty entry, or the end of the directory.\<close>

primrec dirlink_scan :: "nat \<Rightarrow> nat list \<Rightarrow> nat \<Rightarrow> 'a fsst_scheme \<Rightarrow> (nat \<times> 'a fsst_scheme) res" where
  "dirlink_scan dp [] last_off s = Inr (last_off, s)"
| "dirlink_scan dp (off # offs) last_off s = (
     bindR (readi dp None (of_nat off) (of_nat DIRENT_SIZE) s) (\<lambda>((r, de), s).
     if r \<noteq> of_nat DIRENT_SIZE then panic ''dirlink read'' else
     if get16 de 0 = 0 then Inr (off, s)
     else dirlink_scan dp offs last_off s))"

definition dirlink :: "nat \<Rightarrow> u8 list \<Rightarrow> u32 \<Rightarrow> 'a fsst_scheme \<Rightarrow> (int \<times> 'a fsst_scheme) res" where
  "dirlink dp name inum s = (
     bindR (dirlookup dp name s) (\<lambda>(r, s).
     case r of
       Some (ip, _) \<Rightarrow> (
         bindR (iput ip s) (\<lambda>(_, s).
         Inr (- 1, s)))
     | None \<Rightarrow>
     let offs = dirent_offs (i_size (itable s dp)) in
     bindR (dirlink_scan dp offs (length offs * DIRENT_SIZE) s) (\<lambda>(off, s).
     bindR (writei dp (Inr (to_bytes 2 inum @ dirent_name name)) (of_nat off) (of_nat DIRENT_SIZE) s) (\<lambda>(w, s).
     if w \<noteq> of_nat DIRENT_SIZE then Inr (- 1, s) else Inr (0, s)))))"

section \<open>Paths\<close>

definition SLASH :: u8 where "SLASH = 0x2F"

text \<open>The next element, cut to \<open>DIRSIZ\<close> bytes, and the path after it.\<close>

definition skipelem :: "u8 list \<Rightarrow> (u8 list \<times> u8 list) option" where
  "skipelem path =
     (let path = dropWhile (\<lambda>c. c = SLASH) path in
      if path = [] then None
      else let name = takeWhile (\<lambda>c. c \<noteq> SLASH) path; path = dropWhile (\<lambda>c. c \<noteq> SLASH) path
        in Some (take DIRSIZ name, dropWhile (\<lambda>c. c = SLASH) path))"

lemma skipelem_shorter: "skipelem path = Some (name, rest) \<Longrightarrow> length rest < length path"
proof -
  assume a: "skipelem path = Some (name, rest)"
  let ?p = "dropWhile (\<lambda>c. c = SLASH) path"
  have p: "?p \<noteq> []" "rest = dropWhile (\<lambda>c. c = SLASH) (dropWhile (\<lambda>c. c \<noteq> SLASH) ?p)"
    using a by (auto simp: skipelem_def Let_def split: if_splits)
  have "hd ?p \<noteq> SLASH" using hd_dropWhile [OF p(1)] by simp
  then have "length (dropWhile (\<lambda>c. c \<noteq> SLASH) ?p) < length ?p"
    using p(1) length_dropWhile_le [of "\<lambda>c. c \<noteq> SLASH" "tl ?p"] by (cases ?p) auto
  moreover have "length rest \<le> length (dropWhile (\<lambda>c. c \<noteq> SLASH) ?p)" "length ?p \<le> length path"
    using p(2) by (simp_all add: length_dropWhile_le)
  ultimately show ?thesis by linarith
qed

function namex_loop :: "bool \<Rightarrow> u8 list \<Rightarrow> u8 list \<Rightarrow> nat \<Rightarrow> 'a fsst_scheme \<Rightarrow> ((nat option \<times> u8 list) \<times> 'a fsst_scheme) res" where
  "namex_loop parent path name ip s =
     (case skipelem path of
        None \<Rightarrow>
          if parent then (
            bindR (iput ip s) (\<lambda>(_, s).
            Inr ((None, name), s)))
          else Inr ((Some ip, name), s)
      | Some (name, path') \<Rightarrow> (
          bindR (ilock ip s) (\<lambda>(_, s).
          if i_type (itable s ip) \<noteq> T_DIR then (
            bindR (iunlockput ip s) (\<lambda>(_, s).
            Inr ((None, name), s)))
          else if parent \<and> path' = [] then (
            bindR (iunlock ip s) (\<lambda>(_, s).
            Inr ((Some ip, name), s)))
          else
          bindR (dirlookup ip name s) (\<lambda>(r, s).
          case r of
            None \<Rightarrow> (
              bindR (iunlockput ip s) (\<lambda>(_, s).
              Inr ((None, name), s)))
          | Some (nxt, _) \<Rightarrow>
              bindR (iunlockput ip s) (\<lambda>(_, s).
              namex_loop parent path' name nxt s)))))"
  by pat_completeness auto

termination
  by (relation "measure (\<lambda>(_, path, _, _, _). length path)") (auto intro: skipelem_shorter)

declare namex_loop.simps [simp del]

definition namex :: "u8 list \<Rightarrow> bool \<Rightarrow> 'a fsst_scheme \<Rightarrow> ((nat option \<times> u8 list) \<times> 'a fsst_scheme) res" where
  "namex path parent s = (
     bindR ((if nul_hd path = SLASH then iget ROOTDEV ROOTINO
       else (\<lambda>s. bindR (myproc_deref s) (\<lambda>(p, s).
         case p_cwd (procs s p) of None \<Rightarrow> panic ''kerneltrap'' | Some cwd \<Rightarrow> idup cwd s))) s) (\<lambda>(ip, s).
     namex_loop parent path [] ip s))"

definition namei :: "u8 list \<Rightarrow> 'a fsst_scheme \<Rightarrow> (nat option \<times> 'a fsst_scheme) res" where
  "namei path s = (
     bindR (namex path False s) (\<lambda>((ip, name), s).
     Inr (ip, s)))"

definition nameiparent :: "u8 list \<Rightarrow> 'a fsst_scheme \<Rightarrow> ((nat option \<times> u8 list) \<times> 'a fsst_scheme) res" where
  "nameiparent path s = namex path True s"

end
