(* ===== verification/Pipe.thy ===== *)
theory Pipe
  imports Fs
begin

text \<open>
  Pipes: \<open>kernel/pipe.c\<close> except \<open>pipealloc\<close>, which needs the file table.  A pipe is named by
  the address of its page; its contents are a record.
\<close>

section \<open>Definitions\<close>

definition PIPESIZE :: nat where "PIPESIZE = 512"

record pipe =
  pi_data :: "u8 list"
  pi_nread :: u32
  pi_nwrite :: u32
  pi_readopen :: u32
  pi_writeopen :: u32

record ppst = fsst +
  pipes :: "u64 \<Rightarrow> pipe"

definition upd_pipe :: "u64 \<Rightarrow> (pipe \<Rightarrow> pipe) \<Rightarrow> 'a ppst_scheme \<Rightarrow> 'a ppst_scheme" where
  "upd_pipe q f s = s\<lparr>pipes := (pipes s)(q := f (pipes s q))\<rparr>"

definition pipeclose :: "u64 \<Rightarrow> bool \<Rightarrow> 'a ppst_scheme \<Rightarrow> (unit \<times> 'a ppst_scheme) res" where
  "pipeclose q writable s = (
     bindR (acquire (PipeLock q) s) (\<lambda>(_, s).
     bindR ((if writable
       then (\<lambda>s. wakeup (Some (ChanPipeRead q)) (upd_pipe q (\<lambda>p. p\<lparr>pi_writeopen := 0\<rparr>) s))
       else (\<lambda>s. wakeup (Some (ChanPipeWrite q)) (upd_pipe q (\<lambda>p. p\<lparr>pi_readopen := 0\<rparr>) s))) s) (\<lambda>(_, s).
     if pi_readopen (pipes s q) = 0 \<and> pi_writeopen (pipes s q) = 0 then (
       bindR (release (PipeLock q) s) (\<lambda>(_, s).
       kfree q s))
     else release (PipeLock q) s)))"

definition pipewrite_done :: "u64 \<Rightarrow> nat \<Rightarrow> 'a ppst_scheme \<Rightarrow> (u32 \<times> 'a ppst_scheme) res" where
  "pipewrite_done q i s = (
     bindR (wakeup (Some (ChanPipeRead q)) s) (\<lambda>(_, s).
     bindR (release (PipeLock q) s) (\<lambda>(_, s).
     Inr (of_nat i, s))))"

function pipewrite_loop :: "'a ppst_scheme others list \<Rightarrow> u64 \<Rightarrow> nat \<Rightarrow> u64 \<Rightarrow> nat \<Rightarrow> nat \<Rightarrow> 'a ppst_scheme \<Rightarrow> (u32 \<times> 'a ppst_scheme) res" where
  "pipewrite_loop ws q pr addr n i s =
     (if i < n then (
        bindR ((if pi_readopen (pipes s q) = 0 then (\<lambda>s. Inr (1, s)) else killed pr) s) (\<lambda>(k, s).
        if k \<noteq> 0 then (
          bindR (release (PipeLock q) s) (\<lambda>(_, s).
          Inr (- 1, s)))
        else if pi_nwrite (pipes s q) = pi_nread (pipes s q) + of_nat PIPESIZE then (
          bindR (wakeup (Some (ChanPipeRead q)) s) (\<lambda>(_, s).
          case ws of
            [] \<Rightarrow> (
              bindR (sleep alone (ChanPipeWrite q) (PipeLock q) s) (\<lambda>(_, s).
              Inl Stuck))
          | w # ws \<Rightarrow>
              bindR (sleep w (ChanPipeWrite q) (PipeLock q) s) (\<lambda>(_, s).
              pipewrite_loop ws q pr addr n i s)))
        else
        bindR (copyinb (p_pagetable (procs s pr)) (addr + of_nat i) 1 s) (\<lambda>((r, ch), s).
        if r = - 1 then pipewrite_done q i s else
        let s = upd_pipe q (\<lambda>p. p\<lparr>pi_data := (pi_data p)[unat (pi_nwrite p) mod PIPESIZE := hd ch],
          pi_nwrite := pi_nwrite p + 1\<rparr>) s in
        pipewrite_loop ws q pr addr n (Suc i) s)))
      else pipewrite_done q i s)"
  by pat_completeness auto

termination
  by (relation "measure (\<lambda>(ws, _, _, _, n, i, _). length ws + (n - i))") auto

declare pipewrite_loop.simps [simp del]

definition pipewrite :: "'a ppst_scheme others list \<Rightarrow> u64 \<Rightarrow> u64 \<Rightarrow> u32 \<Rightarrow> 'a ppst_scheme \<Rightarrow> (u32 \<times> 'a ppst_scheme) res" where
  "pipewrite ws q addr n s = (
     bindR (myproc_deref s) (\<lambda>(pr, s).
     bindR (acquire (PipeLock q) s) (\<lambda>(_, s).
     pipewrite_loop ws q pr addr (nat (sint n)) 0 s)))"

text \<open>\<open>None\<close> when the pipe has something to read or no writer left, else the result to return.\<close>

fun piperead_wait :: "'a ppst_scheme others list \<Rightarrow> u64 \<Rightarrow> nat \<Rightarrow> 'a ppst_scheme \<Rightarrow> (u32 option \<times> 'a ppst_scheme) res" where
  "piperead_wait ws q pr s =
     (if pi_nread (pipes s q) = pi_nwrite (pipes s q) \<and> pi_writeopen (pipes s q) \<noteq> 0 then (
        bindR (killed pr s) (\<lambda>(k, s).
        if k \<noteq> 0 then (
          bindR (release (PipeLock q) s) (\<lambda>(_, s).
          Inr (Some (- 1), s)))
        else case ws of
          [] \<Rightarrow> (
            bindR (sleep alone (ChanPipeRead q) (PipeLock q) s) (\<lambda>(_, s).
            Inl Stuck))
        | w # ws \<Rightarrow>
            bindR (sleep w (ChanPipeRead q) (PipeLock q) s) (\<lambda>(_, s).
            piperead_wait ws q pr s)))
      else Inr (None, s))"

primrec piperead_copy :: "nat \<Rightarrow> u64 \<Rightarrow> nat \<Rightarrow> u64 \<Rightarrow> nat \<Rightarrow> 'a ppst_scheme \<Rightarrow> (nat \<times> 'a ppst_scheme) res" where
  "piperead_copy 0 q pr addr i s = Inr (i, s)"
| "piperead_copy (Suc k) q pr addr i s = (
     if pi_nread (pipes s q) = pi_nwrite (pipes s q) then Inr (i, s) else
     let ch = pi_data (pipes s q) ! (unat (pi_nread (pipes s q)) mod PIPESIZE) in
     let s = upd_pipe q (\<lambda>p. p\<lparr>pi_nread := pi_nread p + 1\<rparr>) s in
     bindR (copyoutb (p_pagetable (procs s pr)) (addr + of_nat i) [ch] s) (\<lambda>(r, s).
     if r = - 1 then Inr (i, s)
     else piperead_copy k q pr addr (Suc i) s))"

definition piperead :: "'a ppst_scheme others list \<Rightarrow> u64 \<Rightarrow> u64 \<Rightarrow> u32 \<Rightarrow> 'a ppst_scheme \<Rightarrow> (u32 \<times> 'a ppst_scheme) res" where
  "piperead ws q addr n s = (
     bindR (myproc_deref s) (\<lambda>(pr, s).
     bindR (acquire (PipeLock q) s) (\<lambda>(_, s).
     bindR (piperead_wait ws q pr s) (\<lambda>(r, s).
     case r of Some v \<Rightarrow> Inr (v, s) | None \<Rightarrow>
     bindR (piperead_copy (nat (sint n)) q pr addr 0 s) (\<lambda>(i, s).
     bindR (wakeup (Some (ChanPipeWrite q)) s) (\<lambda>(_, s).
     bindR (release (PipeLock q) s) (\<lambda>(_, s).
     Inr (of_nat i, s))))))))"

end
