(* ===== verification/File.thy ===== *)
theory File
  imports Pipe
begin

text \<open>
  Open files: \<open>kernel/file.c\<close>, and \<open>pipealloc\<close> of \<open>kernel/pipe.c\<close>.  An open file is an index
  into the file table.
\<close>

section \<open>Definitions\<close>

datatype fdtype = FD_NONE | FD_PIPE | FD_INODE | FD_DEVICE

record kfile =
  f_type :: fdtype
  f_ref :: u32
  f_readable :: bool
  f_writable :: bool
  f_pipe :: u64
  f_ip :: nat
  f_off :: u32
  f_major :: u16

record flst = ppst +
  ftable :: "nat \<Rightarrow> kfile"

definition upd_file :: "nat \<Rightarrow> (kfile \<Rightarrow> kfile) \<Rightarrow> 'a flst_scheme \<Rightarrow> 'a flst_scheme" where
  "upd_file f g s = s\<lparr>ftable := (ftable s)(f := g (ftable s f))\<rparr>"

definition fileinit :: "'a flst_scheme \<Rightarrow> 'a flst_scheme" where
  "fileinit s = initlock FtableLock ''ftable'' s"

definition filealloc :: "'a flst_scheme \<Rightarrow> (nat option \<times> 'a flst_scheme) res" where
  "filealloc s = (
     bindR (acquire FtableLock s) (\<lambda>(_, s).
     case find (\<lambda>f. f_ref (ftable s f) = 0) [0..<NFILE] of
       Some f \<Rightarrow> (
         let s = upd_file f (\<lambda>q. q\<lparr>f_ref := 1\<rparr>) s in
         bindR (release FtableLock s) (\<lambda>(_, s).
         Inr (Some f, s)))
     | None \<Rightarrow>
         bindR (release FtableLock s) (\<lambda>(_, s).
         Inr (None, s))))"

definition filedup :: "nat \<Rightarrow> 'a flst_scheme \<Rightarrow> (nat \<times> 'a flst_scheme) res" where
  "filedup f s = (
     bindR (acquire FtableLock s) (\<lambda>(_, s).
     if f_ref (ftable s f) <s 1 then panic ''filedup'' else
     let s = upd_file f (\<lambda>q. q\<lparr>f_ref := f_ref q + 1\<rparr>) s in
     bindR (release FtableLock s) (\<lambda>(_, s).
     Inr (f, s))))"

definition fileclose :: "nat \<Rightarrow> 'a flst_scheme \<Rightarrow> (unit \<times> 'a flst_scheme) res" where
  "fileclose f s = (
     bindR (acquire FtableLock s) (\<lambda>(_, s).
     if f_ref (ftable s f) <s 1 then panic ''fileclose'' else
     let s = upd_file f (\<lambda>q. q\<lparr>f_ref := f_ref q - 1\<rparr>) s in
     if 0 <s f_ref (ftable s f) then release FtableLock s else
     let ff = ftable s f in
     let s = upd_file f (\<lambda>q. q\<lparr>f_ref := 0, f_type := FD_NONE\<rparr>) s in
     bindR (release FtableLock s) (\<lambda>(_, s).
     if f_type ff = FD_PIPE then pipeclose (f_pipe ff) (f_writable ff) s
     else if f_type ff = FD_INODE \<or> f_type ff = FD_DEVICE then (
       bindR (begin_op s) (\<lambda>(_, s).
       bindR (iput (f_ip ff) s) (\<lambda>(_, s).
       end_op s)))
     else Inr ((), s))))"

definition filestat :: "nat \<Rightarrow> u64 \<Rightarrow> 'a flst_scheme \<Rightarrow> (int \<times> 'a flst_scheme) res" where
  "filestat f addr s = (
     bindR (myproc_deref s) (\<lambda>(p, s).
     if f_type (ftable s f) = FD_INODE \<or> f_type (ftable s f) = FD_DEVICE then (
       bindR (ilock (f_ip (ftable s f)) s) (\<lambda>(_, s).
       let st = stati (itable s (f_ip (ftable s f))) in
       bindR (iunlock (f_ip (ftable s f)) s) (\<lambda>(_, s).
       bindR (copyoutb (p_pagetable (procs s p)) addr st s) (\<lambda>(r, s).
       if r < 0 then Inr (- 1, s) else Inr (0, s)))))
     else Inr (- 1, s)))"

definition dev_call :: "'a cnst_scheme others list \<Rightarrow> devfn \<Rightarrow> u64 \<Rightarrow> u32 \<Rightarrow> 'a cnst_scheme \<Rightarrow> (u32 \<times> 'a cnst_scheme) res" where
  "dev_call ws d addr n s = (case d of CONSOLEREAD \<Rightarrow> consoleread ws (Some addr) n s | CONSOLEWRITE \<Rightarrow> consolewrite ws (Inl addr) n s)"

definition fileread :: "'a flst_scheme others list \<Rightarrow> nat \<Rightarrow> u64 \<Rightarrow> u32 \<Rightarrow> 'a flst_scheme \<Rightarrow> (u32 \<times> 'a flst_scheme) res" where
  "fileread ws f addr n s = (
     if \<not> f_readable (ftable s f) then Inr (- 1, s) else
     case f_type (ftable s f) of
       FD_PIPE \<Rightarrow> piperead ws (f_pipe (ftable s f)) addr n s
     | FD_DEVICE \<Rightarrow>
         (if f_major (ftable s f) <s 0 \<or> of_nat NDEV \<le>s f_major (ftable s f) then Inr (- 1, s)
          else case devsw_read s (unat (f_major (ftable s f))) of
            None \<Rightarrow> Inr (- 1, s)
          | Some d \<Rightarrow> dev_call ws d addr n s)
     | FD_INODE \<Rightarrow> (
         bindR (ilock (f_ip (ftable s f)) s) (\<lambda>(_, s).
         bindR (readi (f_ip (ftable s f)) (Some addr) (f_off (ftable s f)) n s) (\<lambda>((r, bs), s).
         let s = (if 0 <s r then upd_file f (\<lambda>q. q\<lparr>f_off := f_off q + r\<rparr>) s else s) in
         bindR (iunlock (f_ip (ftable s f)) s) (\<lambda>(_, s).
         Inr (r, s)))))
     | FD_NONE \<Rightarrow> panic ''fileread'')"

text \<open>The largest write that fits one transaction.\<close>

definition write_max :: nat where
  "write_max = ((MAXOPBLOCKS - 1 - 1 - 2) div 2) * BSIZE"

lemma write_max_pos: "0 < write_max"
  by (simp add: write_max_def MAXOPBLOCKS_def BSIZE_def)

function filewrite_loop :: "nat \<Rightarrow> u64 \<Rightarrow> nat \<Rightarrow> nat \<Rightarrow> 'a flst_scheme \<Rightarrow> (nat \<times> 'a flst_scheme) res" where
  "filewrite_loop f addr n i s =
     (if i < n then (
        let n1 = min (n - i) write_max in
        bindR (begin_op s) (\<lambda>(_, s).
        bindR (ilock (f_ip (ftable s f)) s) (\<lambda>(_, s).
        bindR (writei (f_ip (ftable s f)) (Inl (addr + of_nat i)) (f_off (ftable s f)) (of_nat n1) s) (\<lambda>(r, s).
        let s = (if 0 <s r then upd_file f (\<lambda>q. q\<lparr>f_off := f_off q + r\<rparr>) s else s) in
        bindR (iunlock (f_ip (ftable s f)) s) (\<lambda>(_, s).
        bindR (end_op s) (\<lambda>(_, s).
        if r \<noteq> of_nat n1 then Inr (i, s)
        else filewrite_loop f addr n (i + n1) s))))))
      else Inr (i, s))"
  by pat_completeness auto

termination
  by (relation "measure (\<lambda>(_, _, n, i, _). n - i)") (use write_max_pos in \<open>auto simp: min_def\<close>)

declare filewrite_loop.simps [simp del]

definition filewrite :: "'a flst_scheme others list \<Rightarrow> nat \<Rightarrow> u64 \<Rightarrow> u32 \<Rightarrow> 'a flst_scheme \<Rightarrow> (u32 \<times> 'a flst_scheme) res" where
  "filewrite ws f addr n s = (
     if \<not> f_writable (ftable s f) then Inr (- 1, s) else
     case f_type (ftable s f) of
       FD_PIPE \<Rightarrow> pipewrite ws (f_pipe (ftable s f)) addr n s
     | FD_DEVICE \<Rightarrow>
         (if f_major (ftable s f) <s 0 \<or> of_nat NDEV \<le>s f_major (ftable s f) then Inr (- 1, s)
          else case devsw_write s (unat (f_major (ftable s f))) of
            None \<Rightarrow> Inr (- 1, s)
          | Some d \<Rightarrow> dev_call ws d addr n s)
     | FD_INODE \<Rightarrow> (
         bindR (filewrite_loop f addr (nat (sint n)) 0 s) (\<lambda>(i, s).
         Inr (if int i = sint n then n else - 1, s)))
     | FD_NONE \<Rightarrow> panic ''filewrite'')"

definition close_opt :: "nat option \<Rightarrow> 'a flst_scheme \<Rightarrow> (unit \<times> 'a flst_scheme) res" where
  "close_opt f s = (case f of None \<Rightarrow> Inr ((), s) | Some f \<Rightarrow> fileclose f s)"

definition pipealloc_bad :: "u64 \<Rightarrow> nat option \<Rightarrow> nat option \<Rightarrow> 'a flst_scheme \<Rightarrow> ((nat \<times> nat) option \<times> 'a flst_scheme) res" where
  "pipealloc_bad q f0 f1 s = (
     bindR ((if q \<noteq> 0 then kfree q else (\<lambda>s. Inr ((), s))) s) (\<lambda>(_, s).
     bindR (close_opt f0 s) (\<lambda>(_, s).
     bindR (close_opt f1 s) (\<lambda>(_, s).
     Inr (None, s)))))"

definition pipealloc :: "'a flst_scheme \<Rightarrow> ((nat \<times> nat) option \<times> 'a flst_scheme) res" where
  "pipealloc s = (
     bindR (filealloc s) (\<lambda>(f0, s).
     case f0 of None \<Rightarrow> pipealloc_bad 0 None None s | Some r \<Rightarrow>
     bindR (filealloc s) (\<lambda>(f1, s).
     case f1 of None \<Rightarrow> pipealloc_bad 0 f0 None s | Some w \<Rightarrow>
     bindR (kalloc s) (\<lambda>(q, s).
     if q = 0 then pipealloc_bad 0 f0 f1 s else
     let s = upd_pipe q (\<lambda>p. p\<lparr>pi_readopen := 1, pi_writeopen := 1, pi_nwrite := 0, pi_nread := 0\<rparr>) s in
     let s = initlock (PipeLock q) ''pipe'' s in
     let s = upd_file r (\<lambda>f. f\<lparr>f_type := FD_PIPE, f_readable := True, f_writable := False, f_pipe := q\<rparr>) s in
     let s = upd_file w (\<lambda>f. f\<lparr>f_type := FD_PIPE, f_readable := False, f_writable := True, f_pipe := q\<rparr>) s in
     Inr (Some (r, w), s)))))"

end
