(* ===== verification/Process.thy ===== *)
theory Process
  imports File
begin

text \<open>
  The functions of \<open>kernel/proc.c\<close> that need the file system: \<open>userinit\<close>, \<open>fork\<close> and
  \<open>exit\<close>, with the state that the trap code adds (the addresses of assembly routines, the
  static variable of \<open>forkret\<close> and \<open>started\<close> of \<open>kernel/main.c\<close>).
\<close>

section \<open>Definitions\<close>

record trst = flst +
  sym_kernelvec :: u64
  sym_uservec :: u64
  sym_userret :: u64
  sym_initcode :: u64
  forkret_first :: bool
  started :: bool

text \<open>Fields of the trap frame of a process.\<close>

definition tf_get :: "nat \<Rightarrow> u64 \<Rightarrow> 'a pst_scheme \<Rightarrow> u64" where
  "tf_get p off s = ld64 (mem s) (p_trapframe (procs s p) + off)"

definition tf_set :: "nat \<Rightarrow> u64 \<Rightarrow> u64 \<Rightarrow> 'a pst_scheme \<Rightarrow> 'a pst_scheme" where
  "tf_set p off v s = s\<lparr>mem := st64 (mem s) (p_trapframe (procs s p) + off) v\<rparr>"

text \<open>\<open>safestrcpy\<close> into the 16 bytes of \<open>p->name\<close>.\<close>

definition set_name :: "nat \<Rightarrow> string \<Rightarrow> 'a pst_scheme \<Rightarrow> 'a pst_scheme" where
  "set_name p name s = upd_proc p (\<lambda>q. q\<lparr>p_name := take 15 name\<rparr>) s"

definition initcode :: "u8 list" where
  "initcode = [
     0x17, 0x05, 0x00, 0x00, 0x13, 0x05, 0x45, 0x02,
     0x97, 0x05, 0x00, 0x00, 0x93, 0x85, 0x35, 0x02,
     0x93, 0x08, 0x70, 0x00, 0x73, 0x00, 0x00, 0x00,
     0x93, 0x08, 0x20, 0x00, 0x73, 0x00, 0x00, 0x00,
     0xef, 0xf0, 0x9f, 0xff, 0x2f, 0x69, 0x6e, 0x69,
     0x74, 0x00, 0x00, 0x24, 0x00, 0x00, 0x00, 0x00,
     0x00, 0x00, 0x00, 0x00]"

definition userinit :: "'a trst_scheme \<Rightarrow> (unit \<times> 'a trst_scheme) res" where
  "userinit s = (
     bindR (allocproc s) (\<lambda>(r, s).
     let s = s\<lparr>initproc := r\<rparr> in
     case r of None \<Rightarrow> panic ''kerneltrap'' | Some p \<Rightarrow>
     bindR (uvmfirst (p_pagetable (procs s p)) (sym_initcode s) (of_nat (length initcode)) s) (\<lambda>(_, s).
     let s = upd_proc p (\<lambda>q. q\<lparr>p_sz := PGSZ\<rparr>) s in
     let s = tf_set p tf_epc 0 s in
     let s = tf_set p tf_sp PGSZ s in
     let s = set_name p ''initcode'' s in
     bindR (namei [SLASH] s) (\<lambda>(cwd, s).
     let s = upd_proc p (\<lambda>q. q\<lparr>p_cwd := cwd\<rparr>) s in
     let s = upd_proc p (\<lambda>q. q\<lparr>p_state := RUNNABLE\<rparr>) s in
     release (ProcLock p) s))))"

definition fork_files :: "nat \<Rightarrow> nat \<Rightarrow> 'a flst_scheme \<Rightarrow> (unit \<times> 'a flst_scheme) res" where
  "fork_files p np s =
     forR (\<lambda>i s.
       case p_ofile (procs s p) ! i of None \<Rightarrow> Inr ((), s)
       | Some f \<Rightarrow> (
           bindR (filedup f s) (\<lambda>(f, s).
           Inr ((), upd_proc np (\<lambda>q. q\<lparr>p_ofile := (p_ofile q)[i := Some f]\<rparr>) s)))) [0..<NOFILE] s"

definition fork :: "'a flst_scheme \<Rightarrow> (u32 \<times> 'a flst_scheme) res" where
  "fork s = (
     bindR (myproc_deref s) (\<lambda>(p, s).
     bindR (allocproc s) (\<lambda>(r, s).
     case r of None \<Rightarrow> Inr (- 1, s) | Some np \<Rightarrow>
     bindR (uvmcopy (p_pagetable (procs s p)) (p_pagetable (procs s np)) (p_sz (procs s p)) s) (\<lambda>(r, s).
     if r < 0 then (
       bindR (freeproc np s) (\<lambda>(_, s).
       bindR (release (ProcLock np) s) (\<lambda>(_, s).
       Inr (- 1, s))))
     else
     let s = upd_proc np (\<lambda>q. q\<lparr>p_sz := p_sz (procs s p)\<rparr>) s in
     let s = s\<lparr>mem := mem_write (mem s) (p_trapframe (procs s np)) (mem_read (mem s) (p_trapframe (procs s p)) TRAPFRAME_SIZE)\<rparr> in
     let s = tf_set np tf_a0 0 s in
     bindR (fork_files p np s) (\<lambda>(_, s).
     case p_cwd (procs s p) of None \<Rightarrow> panic ''kerneltrap'' | Some cwd \<Rightarrow>
     bindR (idup cwd s) (\<lambda>(cwd, s).
     let s = upd_proc np (\<lambda>q. q\<lparr>p_cwd := Some cwd\<rparr>) s in
     let s = set_name np (p_name (procs s p)) s in
     let pid = p_pid (procs s np) in
     bindR (release (ProcLock np) s) (\<lambda>(_, s).
     bindR (acquire WaitLock s) (\<lambda>(_, s).
     let s = upd_proc np (\<lambda>q. q\<lparr>p_parent := Some p\<rparr>) s in
     bindR (release WaitLock s) (\<lambda>(_, s).
     bindR (acquire (ProcLock np) s) (\<lambda>(_, s).
     let s = upd_proc np (\<lambda>q. q\<lparr>p_state := RUNNABLE\<rparr>) s in
     bindR (release (ProcLock np) s) (\<lambda>(_, s).
     Inr (pid, s))))))))))))"

definition exit_files :: "nat \<Rightarrow> 'a flst_scheme \<Rightarrow> (unit \<times> 'a flst_scheme) res" where
  "exit_files p s =
     forR (\<lambda>fd s.
       case p_ofile (procs s p) ! fd of None \<Rightarrow> Inr ((), s)
       | Some f \<Rightarrow> (
           bindR (fileclose f s) (\<lambda>(_, s).
           Inr ((), upd_proc p (\<lambda>q. q\<lparr>p_ofile := (p_ofile q)[fd := None]\<rparr>) s)))) [0..<NOFILE] s"

text \<open>\<open>exit\<close> up to its call of \<open>sched\<close>, and with that call, from which it does not come back.\<close>

definition exit_enter :: "u32 \<Rightarrow> 'a flst_scheme \<Rightarrow> (unit \<times> 'a flst_scheme) res" where
  "exit_enter status s = (
     bindR (myproc_deref s) (\<lambda>(p, s).
     if Some p = initproc s then panic ''init exiting'' else
     bindR (exit_files p s) (\<lambda>(_, s).
     bindR (begin_op s) (\<lambda>(_, s).
     case p_cwd (procs s p) of None \<Rightarrow> panic ''kerneltrap'' | Some cwd \<Rightarrow>
     bindR (iput cwd s) (\<lambda>(_, s).
     bindR (end_op s) (\<lambda>(_, s).
     let s = upd_proc p (\<lambda>q. q\<lparr>p_cwd := None\<rparr>) s in
     bindR (acquire WaitLock s) (\<lambda>(_, s).
     bindR (reparent p s) (\<lambda>(_, s).
     bindR (wakeup (map_option ChanProc (p_parent (procs s p))) s) (\<lambda>(_, s).
     bindR (acquire (ProcLock p) s) (\<lambda>(_, s).
     let s = upd_proc p (\<lambda>q. q\<lparr>p_xstate := status\<rparr>) s in
     let s = upd_proc p (\<lambda>q. q\<lparr>p_state := ZOMBIE\<rparr>) s in
     release WaitLock s))))))))))"

definition exit :: "'a flst_scheme others \<Rightarrow> u32 \<Rightarrow> 'a flst_scheme \<Rightarrow> ('b \<times> 'a flst_scheme) res" where
  "exit others status s = (
     bindR (exit_enter status s) (\<lambda>(_, s).
     bindR (sched others s) (\<lambda>(_, s).
     panic ''zombie exit'')))"

end
