(* ===== verification/Exec.thy ===== *)
theory Exec
  imports Process
begin

text \<open>
  Loading a program: \<open>kernel/exec.c\<close> with the file format of \<open>kernel/elf.h\<close>.  The headers are
  read from the bytes of the file at the offsets of the C structures; segments are loaded into
  the physical pages that \<open>walkaddr\<close> finds.  The argument strings are in kernel memory, one page
  each, as \<open>sys_exec\<close> leaves them.
\<close>

section \<open>Definitions\<close>

definition ELF_MAGIC :: u32 where "ELF_MAGIC = 0x464C457F"
definition ELF_PROG_LOAD :: u32 where "ELF_PROG_LOAD = 1"
definition ELFHDR_SIZE :: nat where "ELFHDR_SIZE = 64"
definition PROGHDR_SIZE :: nat where "PROGHDR_SIZE = 56"

definition get64 :: "u8 list \<Rightarrow> nat \<Rightarrow> u64" where
  "get64 d off = of_bytes (take 8 (drop off d))"

record elfhdr =
  elf_magic :: u32
  elf_entry :: u64
  elf_phoff :: u64
  elf_phnum :: u16

definition elfhdr_of_bytes :: "u8 list \<Rightarrow> elfhdr" where
  "elfhdr_of_bytes d = \<lparr>elf_magic = get32 d 0, elf_entry = get64 d 24, elf_phoff = get64 d 32, elf_phnum = get16 d 56\<rparr>"

record proghdr =
  ph_type :: u32
  ph_flags :: u32
  ph_off :: u64
  ph_vaddr :: u64
  ph_filesz :: u64
  ph_memsz :: u64

definition proghdr_of_bytes :: "u8 list \<Rightarrow> proghdr" where
  "proghdr_of_bytes d = \<lparr>ph_type = get32 d 0, ph_flags = get32 d 4, ph_off = get64 d 8, ph_vaddr = get64 d 16,
     ph_filesz = get64 d 32, ph_memsz = get64 d 40\<rparr>"

definition flags2perm :: "u32 \<Rightarrow> u64" where
  "flags2perm flags =
     (let perm = (if flags AND 0x1 \<noteq> 0 then PTE_X else 0)
      in if flags AND 0x2 \<noteq> 0 then perm OR PTE_W else perm)"

text \<open>
  \<open>i\<close> runs over the page offsets below \<open>sz\<close>.  Beyond \<open>0xFFFFF000\<close> it wraps to 0 and the loop
  starts over.
\<close>

primrec loadseg_loop :: "u64 \<Rightarrow> u64 \<Rightarrow> nat \<Rightarrow> u32 \<Rightarrow> u32 \<Rightarrow> nat list \<Rightarrow> 'a fsst_scheme \<Rightarrow> (int \<times> 'a fsst_scheme) res" where
  "loadseg_loop pagetable va ip offset sz [] s = (if 0xFFFFF000 < sz then Inl Stuck else Inr (0, s))"
| "loadseg_loop pagetable va ip offset sz (i # is) s = (
     bindR (walkaddr pagetable (va + of_nat i) s) (\<lambda>(pa, s).
     if pa = 0 then panic ''loadseg: address should exist'' else
     let n = (if sz - of_nat i < of_nat PGSIZE then sz - of_nat i else of_nat PGSIZE) in
     bindR (readi ip None (offset + of_nat i) n s) (\<lambda>((r, bs), s).
     let s = s\<lparr>mem := mem_write (mem s) pa bs\<rparr> in
     if r \<noteq> n then Inr (- 1, s)
     else loadseg_loop pagetable va ip offset sz is s)))"

definition loadseg :: "u64 \<Rightarrow> u64 \<Rightarrow> nat \<Rightarrow> u32 \<Rightarrow> u32 \<Rightarrow> 'a fsst_scheme \<Rightarrow> (int \<times> 'a fsst_scheme) res" where
  "loadseg pagetable va ip offset sz s =
     loadseg_loop pagetable va ip offset sz (map (\<lambda>k. k * PGSIZE) [0..<(unat sz + PGSIZE - 1) div PGSIZE]) s"

definition exec_bad :: "u64 \<Rightarrow> u64 \<Rightarrow> nat option \<Rightarrow> 'a fsst_scheme \<Rightarrow> (u32 \<times> 'a fsst_scheme) res" where
  "exec_bad pagetable sz ip s = (
     bindR ((if pagetable \<noteq> 0 then proc_freepagetable pagetable sz else (\<lambda>s. Inr ((), s))) s) (\<lambda>(_, s).
     case ip of None \<Rightarrow> Inr (- 1, s) | Some ip \<Rightarrow>
     bindR (iunlockput ip s) (\<lambda>(_, s).
     bindR (end_op s) (\<lambda>(_, s).
     Inr (- 1, s)))))"

text \<open>The loop over the program headers: whether it got to the end, and the size so far.\<close>

primrec exec_segs :: "nat \<Rightarrow> u32 \<Rightarrow> nat \<Rightarrow> u64 \<Rightarrow> u64 \<Rightarrow> 'a fsst_scheme \<Rightarrow> ((bool \<times> u64) \<times> 'a fsst_scheme) res" where
  "exec_segs 0 off ip pagetable sz s = Inr ((True, sz), s)"
| "exec_segs (Suc k) off ip pagetable sz s = (
     bindR (readi ip None off (of_nat PROGHDR_SIZE) s) (\<lambda>((r, bs), s).
     if r \<noteq> of_nat PROGHDR_SIZE then Inr ((False, sz), s) else
     let ph = proghdr_of_bytes bs in
     if ph_type ph \<noteq> ELF_PROG_LOAD then exec_segs k (off + of_nat PROGHDR_SIZE) ip pagetable sz s else
     if ph_memsz ph < ph_filesz ph then Inr ((False, sz), s) else
     if ph_vaddr ph + ph_memsz ph < ph_vaddr ph then Inr ((False, sz), s) else
     if ph_vaddr ph mod PGSZ \<noteq> 0 then Inr ((False, sz), s) else
     bindR (uvmalloc pagetable sz (ph_vaddr ph + ph_memsz ph) (flags2perm (ph_flags ph)) s) (\<lambda>(sz1, s).
     if sz1 = 0 then Inr ((False, sz), s) else
     bindR (loadseg pagetable (ph_vaddr ph) ip (ucast (ph_off ph)) (ucast (ph_filesz ph)) s) (\<lambda>(r, s).
     if r < 0 then Inr ((False, sz1), s)
     else exec_segs k (off + of_nat PROGHDR_SIZE) ip pagetable sz1 s))))"

text \<open>Pushing the argument strings: their addresses and the stack pointer, or nothing.\<close>

primrec exec_args :: "u64 list \<Rightarrow> u64 \<Rightarrow> u64 \<Rightarrow> u64 \<Rightarrow> u64 list \<Rightarrow> 'a kst_scheme \<Rightarrow> ((u64 list \<times> u64) option \<times> 'a kst_scheme) res" where
  "exec_args [] pagetable stackbase sp ustack s = Inr (Some (ustack, sp), s)"
| "exec_args (arg # argv) pagetable stackbase sp ustack s = (
     if MAXARG \<le> length ustack then Inr (None, s) else
     case strlen (mem s) arg of None \<Rightarrow> Inl Stuck | Some len \<Rightarrow>
     let sp = sp - of_nat (len + 1) in
     let sp = sp - sp mod 16 in
     if sp < stackbase then Inr (None, s) else
     bindR (copyout pagetable sp arg (of_nat (len + 1)) s) (\<lambda>(r, s).
     if r < 0 then Inr (None, s)
     else exec_args argv pagetable stackbase sp (ustack @ [sp]) s))"

definition last_elem :: "u8 list \<Rightarrow> u8 list" where
  "last_elem path = rev (takeWhile (\<lambda>c. c \<noteq> SLASH) (rev path))"

text \<open>
  From the strings on the stack to the new image.  With \<open>MAXARG\<close> strings \<open>ustack[argc] = 0\<close> is a
  store past the end of \<open>ustack\<close>.
\<close>

definition exec_commit :: "nat \<Rightarrow> u8 list \<Rightarrow> u64 \<Rightarrow> u64 \<Rightarrow> u64 \<Rightarrow> u64 \<Rightarrow> u64 list \<Rightarrow> u64 \<Rightarrow> u64 \<Rightarrow> 'a fsst_scheme \<Rightarrow> (u32 \<times> 'a fsst_scheme) res" where
  "exec_commit p path entry pagetable sz oldsz ustack sp stackbase s = (
     let argc = length ustack in
     if MAXARG \<le> argc then Inl Stuck else
     let sp = sp - of_nat ((argc + 1) * 8) in
     let sp = sp - sp mod 16 in
     if sp < stackbase then exec_bad pagetable sz None s else
     bindR (copyoutb pagetable sp (concat (map (to_bytes 8) (ustack @ [0]))) s) (\<lambda>(r, s).
     if r < 0 then exec_bad pagetable sz None s else
     let s = tf_set p tf_a1 sp s in
     let s = set_name p (map (\<lambda>c. char_of (unat c)) (last_elem path)) s in
     let oldpagetable = p_pagetable (procs s p) in
     let s = upd_proc p (\<lambda>q. q\<lparr>p_pagetable := pagetable\<rparr>) s in
     let s = upd_proc p (\<lambda>q. q\<lparr>p_sz := sz\<rparr>) s in
     let s = tf_set p tf_epc entry s in
     let s = tf_set p tf_sp sp s in
     bindR (proc_freepagetable oldpagetable oldsz s) (\<lambda>(_, s).
     Inr (of_nat argc, s))))"

definition exec_stack :: "nat \<Rightarrow> u8 list \<Rightarrow> u64 list \<Rightarrow> u64 \<Rightarrow> u64 \<Rightarrow> u64 \<Rightarrow> 'a fsst_scheme \<Rightarrow> (u32 \<times> 'a fsst_scheme) res" where
  "exec_stack p path argv entry pagetable sz s = (
     let oldsz = p_sz (procs s p) in
     let sz = PGROUNDUP sz in
     bindR (uvmalloc pagetable sz (sz + 2 * PGSZ) PTE_W s) (\<lambda>(sz1, s).
     if sz1 = 0 then exec_bad pagetable sz None s else
     let sz = sz1 in
     bindR (uvmclear pagetable (sz - 2 * PGSZ) s) (\<lambda>(_, s).
     let stackbase = sz - PGSZ in
     bindR (exec_args argv pagetable stackbase sz [] s) (\<lambda>(r, s).
     case r of None \<Rightarrow> exec_bad pagetable sz None s
     | Some (ustack, sp) \<Rightarrow> exec_commit p path entry pagetable sz oldsz ustack sp stackbase s))))"

definition exec :: "u8 list \<Rightarrow> u64 list \<Rightarrow> 'a fsst_scheme \<Rightarrow> (u32 \<times> 'a fsst_scheme) res" where
  "exec path argv s = (
     bindR (myproc_deref s) (\<lambda>(p, s).
     bindR (begin_op s) (\<lambda>(_, s).
     bindR (namei path s) (\<lambda>(r, s).
     case r of
       None \<Rightarrow> (
         bindR (end_op s) (\<lambda>(_, s).
         Inr (- 1, s)))
     | Some ip \<Rightarrow>
     bindR (ilock ip s) (\<lambda>(_, s).
     bindR (readi ip None 0 (of_nat ELFHDR_SIZE) s) (\<lambda>((r, bs), s).
     if r \<noteq> of_nat ELFHDR_SIZE then exec_bad 0 0 (Some ip) s else
     let elf = elfhdr_of_bytes bs in
     if elf_magic elf \<noteq> ELF_MAGIC then exec_bad 0 0 (Some ip) s else
     bindR (proc_pagetable p s) (\<lambda>(pagetable, s).
     if pagetable = 0 then exec_bad 0 0 (Some ip) s else
     bindR (exec_segs (unat (elf_phnum elf)) (ucast (elf_phoff elf)) ip pagetable 0 s) (\<lambda>((ok, sz), s).
     if \<not> ok then exec_bad pagetable sz (Some ip) s else
     bindR (iunlockput ip s) (\<lambda>(_, s).
     bindR (end_op s) (\<lambda>(_, s).
     bindR (myproc_deref s) (\<lambda>(p, s).
     exec_stack p path argv (elf_entry elf) pagetable sz s)))))))))))"

end
