(* ===== verification/Sysarg.thy ===== *)
theory Sysarg
  imports Exec
begin

text \<open>
  The arguments of system calls: the first half of \<open>kernel/syscall.c\<close>, with \<open>argfd\<close> and
  \<open>fdalloc\<close> of \<open>kernel/sysfile.c\<close>.  A string fetched into a local array is returned as its
  bytes without the NUL; \<open>fetchstr_page\<close> is \<open>fetchstr\<close> with a page of kernel memory as its buffer.
\<close>

section \<open>Definitions\<close>

definition fetchaddr :: "u64 \<Rightarrow> 'a pst_scheme \<Rightarrow> (u64 option \<times> 'a pst_scheme) res" where
  "fetchaddr addr s = (
     bindR (myproc_deref s) (\<lambda>(p, s).
     if p_sz (procs s p) \<le> addr \<or> p_sz (procs s p) < addr + 8 then Inr (None, s) else
     bindR (copyinb (p_pagetable (procs s p)) addr 8 s) (\<lambda>((r, bs), s).
     if r \<noteq> 0 then Inr (None, s) else Inr (Some (of_bytes bs), s))))"

definition fetchstr :: "u64 \<Rightarrow> nat \<Rightarrow> 'a pst_scheme \<Rightarrow> (u8 list option \<times> 'a pst_scheme) res" where
  "fetchstr addr mx s = (
     bindR (myproc_deref s) (\<lambda>(p, s).
     copyinstrb (p_pagetable (procs s p)) addr mx s))"

definition fetchstr_page :: "u64 \<Rightarrow> u64 \<Rightarrow> u64 \<Rightarrow> 'a pst_scheme \<Rightarrow> (int \<times> 'a pst_scheme) res" where
  "fetchstr_page addr buf mx s = (
     bindR (myproc_deref s) (\<lambda>(p, s).
     bindR (copyinstr (p_pagetable (procs s p)) buf addr mx s) (\<lambda>(r, s).
     if r < 0 then Inr (- 1, s) else
     case strlen (mem s) buf of None \<Rightarrow> Inl Stuck | Some n \<Rightarrow> Inr (int n, s))))"

definition argraw :: "nat \<Rightarrow> 'a pst_scheme \<Rightarrow> (u64 \<times> 'a pst_scheme) res" where
  "argraw n s = (
     bindR (myproc_deref s) (\<lambda>(p, s).
     if n < 6 then Inr (tf_get p (tf_a0 + 8 * of_nat n) s, s) else panic ''argraw''))"

definition argint :: "nat \<Rightarrow> 'a pst_scheme \<Rightarrow> (u32 \<times> 'a pst_scheme) res" where
  "argint n s = (
     bindR (argraw n s) (\<lambda>(x, s).
     Inr (ucast x, s)))"

definition argaddr :: "nat \<Rightarrow> 'a pst_scheme \<Rightarrow> (u64 \<times> 'a pst_scheme) res" where
  "argaddr n s = argraw n s"

definition argstr :: "nat \<Rightarrow> nat \<Rightarrow> 'a pst_scheme \<Rightarrow> (u8 list option \<times> 'a pst_scheme) res" where
  "argstr n mx s = (
     bindR (argaddr n s) (\<lambda>(addr, s).
     fetchstr addr mx s))"

text \<open>The descriptor and the file.\<close>

definition argfd :: "nat \<Rightarrow> 'a pst_scheme \<Rightarrow> ((nat \<times> nat) option \<times> 'a pst_scheme) res" where
  "argfd n s = (
     bindR (argint n s) (\<lambda>(fd, s).
     if fd <s 0 \<or> of_nat NOFILE \<le>s fd then Inr (None, s) else
     bindR (myproc_deref s) (\<lambda>(p, s).
     case p_ofile (procs s p) ! unat fd of
       None \<Rightarrow> Inr (None, s)
     | Some f \<Rightarrow> Inr (Some (unat fd, f), s))))"

definition fdalloc :: "nat \<Rightarrow> 'a pst_scheme \<Rightarrow> (nat option \<times> 'a pst_scheme) res" where
  "fdalloc f s = (
     bindR (myproc_deref s) (\<lambda>(p, s).
     case find (\<lambda>fd. p_ofile (procs s p) ! fd = None) [0..<NOFILE] of
       None \<Rightarrow> Inr (None, s)
     | Some fd \<Rightarrow> Inr (Some fd, upd_proc p (\<lambda>q. q\<lparr>p_ofile := (p_ofile q)[fd := Some f]\<rparr>) s)))"

end
