(* ===== verification/Sysfile.thy ===== *)
theory Sysfile
  imports Sysarg Fcntl
begin

text \<open>The system calls on files: \<open>kernel/sysfile.c\<close>.\<close>

section \<open>Descriptors\<close>

definition sys_dup :: "'a flst_scheme \<Rightarrow> (u64 \<times> 'a flst_scheme) res" where
  "sys_dup s = (
     bindR (argfd 0 s) (\<lambda>(r, s).
     case r of None \<Rightarrow> Inr (- 1, s) | Some (_, f) \<Rightarrow>
     bindR (fdalloc f s) (\<lambda>(fd, s).
     case fd of None \<Rightarrow> Inr (- 1, s) | Some fd \<Rightarrow>
     bindR (filedup f s) (\<lambda>(_, s).
     Inr (of_nat fd, s)))))"

definition sys_read :: "'a flst_scheme others list \<Rightarrow> 'a flst_scheme \<Rightarrow> (u64 \<times> 'a flst_scheme) res" where
  "sys_read ws s = (
     bindR (argaddr 1 s) (\<lambda>(p, s).
     bindR (argint 2 s) (\<lambda>(n, s).
     bindR (argfd 0 s) (\<lambda>(r, s).
     case r of None \<Rightarrow> Inr (- 1, s) | Some (_, f) \<Rightarrow>
     bindR (fileread ws f p n s) (\<lambda>(v, s).
     Inr (scast v, s))))))"

definition sys_write :: "'a flst_scheme others list \<Rightarrow> 'a flst_scheme \<Rightarrow> (u64 \<times> 'a flst_scheme) res" where
  "sys_write ws s = (
     bindR (argaddr 1 s) (\<lambda>(p, s).
     bindR (argint 2 s) (\<lambda>(n, s).
     bindR (argfd 0 s) (\<lambda>(r, s).
     case r of None \<Rightarrow> Inr (- 1, s) | Some (_, f) \<Rightarrow>
     bindR (filewrite ws f p n s) (\<lambda>(v, s).
     Inr (scast v, s))))))"

definition sys_close :: "'a flst_scheme \<Rightarrow> (u64 \<times> 'a flst_scheme) res" where
  "sys_close s = (
     bindR (argfd 0 s) (\<lambda>(r, s).
     case r of None \<Rightarrow> Inr (- 1, s) | Some (fd, f) \<Rightarrow>
     bindR (myproc_deref s) (\<lambda>(p, s).
     let s = upd_proc p (\<lambda>q. q\<lparr>p_ofile := (p_ofile q)[fd := None]\<rparr>) s in
     bindR (fileclose f s) (\<lambda>(_, s).
     Inr (0, s)))))"

definition sys_fstat :: "'a flst_scheme \<Rightarrow> (u64 \<times> 'a flst_scheme) res" where
  "sys_fstat s = (
     bindR (argaddr 1 s) (\<lambda>(st, s).
     bindR (argfd 0 s) (\<lambda>(r, s).
     case r of None \<Rightarrow> Inr (- 1, s) | Some (_, f) \<Rightarrow>
     bindR (filestat f st s) (\<lambda>(v, s).
     Inr (of_int v, s)))))"

section \<open>Links\<close>

definition sys_link_bad :: "nat \<Rightarrow> 'a fsst_scheme \<Rightarrow> (u64 \<times> 'a fsst_scheme) res" where
  "sys_link_bad ip s = (
     bindR (ilock ip s) (\<lambda>(_, s).
     let s = upd_inode ip (\<lambda>i. i\<lparr>i_nlink := i_nlink i - 1\<rparr>) s in
     bindR (iupdate ip s) (\<lambda>(_, s).
     bindR (iunlockput ip s) (\<lambda>(_, s).
     bindR (end_op s) (\<lambda>(_, s).
     Inr (- 1, s))))))"

definition sys_link :: "'a fsst_scheme \<Rightarrow> (u64 \<times> 'a fsst_scheme) res" where
  "sys_link s = (
     bindR (argstr 0 MAXPATH s) (\<lambda>(r, s).
     case r of None \<Rightarrow> Inr (- 1, s) | Some old \<Rightarrow>
     bindR (argstr 1 MAXPATH s) (\<lambda>(r, s).
     case r of None \<Rightarrow> Inr (- 1, s) | Some new \<Rightarrow>
     bindR (begin_op s) (\<lambda>(_, s).
     bindR (namei old s) (\<lambda>(r, s).
     case r of
       None \<Rightarrow> (
         bindR (end_op s) (\<lambda>(_, s).
         Inr (- 1, s)))
     | Some ip \<Rightarrow>
     bindR (ilock ip s) (\<lambda>(_, s).
     if i_type (itable s ip) = T_DIR then (
       bindR (iunlockput ip s) (\<lambda>(_, s).
       bindR (end_op s) (\<lambda>(_, s).
       Inr (- 1, s))))
     else
     let s = upd_inode ip (\<lambda>i. i\<lparr>i_nlink := i_nlink i + 1\<rparr>) s in
     bindR (iupdate ip s) (\<lambda>(_, s).
     bindR (iunlock ip s) (\<lambda>(_, s).
     bindR (nameiparent new s) (\<lambda>((dp, name), s).
     case dp of None \<Rightarrow> sys_link_bad ip s | Some dp \<Rightarrow>
     bindR (ilock dp s) (\<lambda>(_, s).
     bindR ((if i_dev (itable s dp) \<noteq> i_dev (itable s ip) then (\<lambda>s. Inr (- 1, s))
       else dirlink dp name (i_inum (itable s ip))) s) (\<lambda>(r, s).
     bindR (iunlockput dp s) (\<lambda>(_, s).
     if r < 0 then sys_link_bad ip s else
     bindR (iput ip s) (\<lambda>(_, s).
     bindR (end_op s) (\<lambda>(_, s).
     Inr (0, s)))))))))))))))"

primrec isdirempty_scan :: "nat \<Rightarrow> nat list \<Rightarrow> 'a fsst_scheme \<Rightarrow> (bool \<times> 'a fsst_scheme) res" where
  "isdirempty_scan dp [] s = Inr (True, s)"
| "isdirempty_scan dp (off # offs) s = (
     bindR (readi dp None (of_nat off) (of_nat DIRENT_SIZE) s) (\<lambda>((r, de), s).
     if r \<noteq> of_nat DIRENT_SIZE then panic ''isdirempty: readi'' else
     if get16 de 0 \<noteq> 0 then Inr (False, s) else isdirempty_scan dp offs s))"

definition isdirempty :: "nat \<Rightarrow> 'a fsst_scheme \<Rightarrow> (bool \<times> 'a fsst_scheme) res" where
  "isdirempty dp s = isdirempty_scan dp (drop 2 (dirent_offs (i_size (itable s dp)))) s"

definition DOT :: "u8 list" where "DOT = [0x2E]"
definition DOTDOT :: "u8 list" where "DOTDOT = [0x2E, 0x2E]"

definition sys_unlink_bad :: "nat \<Rightarrow> 'a fsst_scheme \<Rightarrow> (u64 \<times> 'a fsst_scheme) res" where
  "sys_unlink_bad dp s = (
     bindR (iunlockput dp s) (\<lambda>(_, s).
     bindR (end_op s) (\<lambda>(_, s).
     Inr (- 1, s))))"

text \<open>From the lookup of the entry on: \<open>ip\<close> is not yet locked.\<close>

definition sys_unlink_entry :: "nat \<Rightarrow> nat \<Rightarrow> u32 \<Rightarrow> 'a fsst_scheme \<Rightarrow> (u64 \<times> 'a fsst_scheme) res" where
  "sys_unlink_entry dp ip off s = (
     bindR (ilock ip s) (\<lambda>(_, s).
     if i_nlink (itable s ip) <s 1 then panic ''unlink: nlink < 1'' else
     bindR ((if i_type (itable s ip) = T_DIR then isdirempty ip else (\<lambda>s. Inr (True, s))) s) (\<lambda>(emp, s).
     if \<not> emp then (
       bindR (iunlockput ip s) (\<lambda>(_, s).
       sys_unlink_bad dp s))
     else
     bindR (writei dp (Inr (replicate DIRENT_SIZE 0)) off (of_nat DIRENT_SIZE) s) (\<lambda>(w, s).
     if w \<noteq> of_nat DIRENT_SIZE then panic ''unlink: writei'' else
     bindR ((if i_type (itable s ip) = T_DIR
       then (\<lambda>s. iupdate dp (upd_inode dp (\<lambda>i. i\<lparr>i_nlink := i_nlink i - 1\<rparr>) s)) else (\<lambda>s. Inr ((), s))) s) (\<lambda>(_, s).
     bindR (iunlockput dp s) (\<lambda>(_, s).
     let s = upd_inode ip (\<lambda>i. i\<lparr>i_nlink := i_nlink i - 1\<rparr>) s in
     bindR (iupdate ip s) (\<lambda>(_, s).
     bindR (iunlockput ip s) (\<lambda>(_, s).
     bindR (end_op s) (\<lambda>(_, s).
     Inr (0, s))))))))))"

definition sys_unlink :: "'a fsst_scheme \<Rightarrow> (u64 \<times> 'a fsst_scheme) res" where
  "sys_unlink s = (
     bindR (argstr 0 MAXPATH s) (\<lambda>(r, s).
     case r of None \<Rightarrow> Inr (- 1, s) | Some path \<Rightarrow>
     bindR (begin_op s) (\<lambda>(_, s).
     bindR (nameiparent path s) (\<lambda>((dp, name), s).
     case dp of
       None \<Rightarrow> (
         bindR (end_op s) (\<lambda>(_, s).
         Inr (- 1, s)))
     | Some dp \<Rightarrow>
     bindR (ilock dp s) (\<lambda>(_, s).
     if namecmp name DOT = 0 \<or> namecmp name DOTDOT = 0 then sys_unlink_bad dp s else
     bindR (dirlookup dp name s) (\<lambda>(r, s).
     case r of None \<Rightarrow> sys_unlink_bad dp s
     | Some (ip, off) \<Rightarrow> sys_unlink_entry dp ip off s))))))"

section \<open>Creating and opening\<close>

definition create_fail :: "nat \<Rightarrow> nat \<Rightarrow> 'a fsst_scheme \<Rightarrow> (nat option \<times> 'a fsst_scheme) res" where
  "create_fail dp ip s = (
     let s = upd_inode ip (\<lambda>i. i\<lparr>i_nlink := 0\<rparr>) s in
     bindR (iupdate ip s) (\<lambda>(_, s).
     bindR (iunlockput ip s) (\<lambda>(_, s).
     bindR (iunlockput dp s) (\<lambda>(_, s).
     Inr (None, s)))))"

definition create_dots :: "nat \<Rightarrow> nat \<Rightarrow> 'a fsst_scheme \<Rightarrow> (int \<times> 'a fsst_scheme) res" where
  "create_dots dp ip s = (
     bindR (dirlink ip DOT (i_inum (itable s ip)) s) (\<lambda>(r, s).
     if r < 0 then Inr (- 1, s)
     else dirlink ip DOTDOT (i_inum (itable s dp)) s))"

definition create :: "u8 list \<Rightarrow> u16 \<Rightarrow> u16 \<Rightarrow> u16 \<Rightarrow> 'a fsst_scheme \<Rightarrow> (nat option \<times> 'a fsst_scheme) res" where
  "create path type major minor s = (
     bindR (nameiparent path s) (\<lambda>((dp, name), s).
     case dp of None \<Rightarrow> Inr (None, s) | Some dp \<Rightarrow>
     bindR (ilock dp s) (\<lambda>(_, s).
     bindR (dirlookup dp name s) (\<lambda>(r, s).
     case r of
       Some (ip, _) \<Rightarrow> (
         bindR (iunlockput dp s) (\<lambda>(_, s).
         bindR (ilock ip s) (\<lambda>(_, s).
         if type = T_FILE \<and> (i_type (itable s ip) = T_FILE \<or> i_type (itable s ip) = T_DEVICE) then Inr (Some ip, s) else
         bindR (iunlockput ip s) (\<lambda>(_, s).
         Inr (None, s)))))
     | None \<Rightarrow>
     bindR (ialloc (i_dev (itable s dp)) type s) (\<lambda>(r, s).
     case r of
       None \<Rightarrow> (
         bindR (iunlockput dp s) (\<lambda>(_, s).
         Inr (None, s)))
     | Some ip \<Rightarrow>
     bindR (ilock ip s) (\<lambda>(_, s).
     let s = upd_inode ip (\<lambda>i. i\<lparr>i_major := major, i_minor := minor, i_nlink := 1\<rparr>) s in
     bindR (iupdate ip s) (\<lambda>(_, s).
     bindR ((if type = T_DIR then create_dots dp ip else (\<lambda>s. Inr (0, s))) s) (\<lambda>(r, s).
     if r < 0 then create_fail dp ip s else
     bindR (dirlink dp name (i_inum (itable s ip)) s) (\<lambda>(r, s).
     if r < 0 then create_fail dp ip s else
     bindR ((if type = T_DIR
       then (\<lambda>s. iupdate dp (upd_inode dp (\<lambda>i. i\<lparr>i_nlink := i_nlink i + 1\<rparr>) s)) else (\<lambda>s. Inr ((), s))) s) (\<lambda>(_, s).
     bindR (iunlockput dp s) (\<lambda>(_, s).
     Inr (Some ip, s))))))))))))"

text \<open>The first part of \<open>sys_open\<close>: the locked inode, or nothing.\<close>

definition open_inode :: "u8 list \<Rightarrow> u32 \<Rightarrow> 'a fsst_scheme \<Rightarrow> (nat option \<times> 'a fsst_scheme) res" where
  "open_inode path omode s =
     (if omode AND O_CREATE \<noteq> 0 then create path T_FILE 0 0 s
      else (
        bindR (namei path s) (\<lambda>(r, s).
        case r of None \<Rightarrow> Inr (None, s) | Some ip \<Rightarrow>
        bindR (ilock ip s) (\<lambda>(_, s).
        if i_type (itable s ip) = T_DIR \<and> omode \<noteq> O_RDONLY then (
          bindR (iunlockput ip s) (\<lambda>(_, s).
          Inr (None, s)))
        else Inr (Some ip, s)))))"

definition sys_open_bad :: "nat \<Rightarrow> nat option \<Rightarrow> 'a flst_scheme \<Rightarrow> (u64 \<times> 'a flst_scheme) res" where
  "sys_open_bad ip f s = (
     bindR (close_opt f s) (\<lambda>(_, s).
     bindR (iunlockput ip s) (\<lambda>(_, s).
     bindR (end_op s) (\<lambda>(_, s).
     Inr (- 1, s)))))"

definition open_file :: "nat \<Rightarrow> nat \<Rightarrow> u32 \<Rightarrow> 'a flst_scheme \<Rightarrow> 'a flst_scheme" where
  "open_file ip f omode s =
     (let s = (if i_type (itable s ip) = T_DEVICE
               then upd_file f (\<lambda>q. q\<lparr>f_type := FD_DEVICE, f_major := i_major (itable s ip)\<rparr>) s
               else upd_file f (\<lambda>q. q\<lparr>f_type := FD_INODE, f_off := 0\<rparr>) s)
      in upd_file f (\<lambda>q. q\<lparr>f_ip := ip, f_readable := (omode AND O_WRONLY = 0),
           f_writable := (omode AND O_WRONLY \<noteq> 0 \<or> omode AND O_RDWR \<noteq> 0)\<rparr>) s)"

definition sys_open :: "'a flst_scheme \<Rightarrow> (u64 \<times> 'a flst_scheme) res" where
  "sys_open s = (
     bindR (argint 1 s) (\<lambda>(omode, s).
     bindR (argstr 0 MAXPATH s) (\<lambda>(r, s).
     case r of None \<Rightarrow> Inr (- 1, s) | Some path \<Rightarrow>
     bindR (begin_op s) (\<lambda>(_, s).
     bindR (open_inode path omode s) (\<lambda>(r, s).
     case r of
       None \<Rightarrow> (
         bindR (end_op s) (\<lambda>(_, s).
         Inr (- 1, s)))
     | Some ip \<Rightarrow>
     if i_type (itable s ip) = T_DEVICE \<and> (i_major (itable s ip) <s 0 \<or> of_nat NDEV \<le>s i_major (itable s ip))
     then sys_open_bad ip None s else
     bindR (filealloc s) (\<lambda>(f, s).
     case f of None \<Rightarrow> sys_open_bad ip None s | Some fi \<Rightarrow>
     bindR (fdalloc fi s) (\<lambda>(fd, s).
     case fd of None \<Rightarrow> sys_open_bad ip f s | Some fd \<Rightarrow>
     let s = open_file ip fi omode s in
     bindR ((if omode AND O_TRUNC \<noteq> 0 \<and> i_type (itable s ip) = T_FILE then itrunc ip else (\<lambda>s. Inr ((), s))) s) (\<lambda>(_, s).
     bindR (iunlock ip s) (\<lambda>(_, s).
     bindR (end_op s) (\<lambda>(_, s).
     Inr (of_nat fd, s)))))))))))"

definition make_node :: "u16 \<Rightarrow> u16 \<Rightarrow> u16 \<Rightarrow> 'a fsst_scheme \<Rightarrow> (u64 \<times> 'a fsst_scheme) res" where
  "make_node type major minor s = (
     bindR (argstr 0 MAXPATH s) (\<lambda>(r, s).
     bindR ((case r of None \<Rightarrow> (\<lambda>s. Inr (None, s)) | Some path \<Rightarrow> create path type major minor) s) (\<lambda>(r, s).
     case r of
       None \<Rightarrow> (
         bindR (end_op s) (\<lambda>(_, s).
         Inr (- 1, s)))
     | Some ip \<Rightarrow>
     bindR (iunlockput ip s) (\<lambda>(_, s).
     bindR (end_op s) (\<lambda>(_, s).
     Inr (0, s))))))"

definition sys_mkdir :: "'a fsst_scheme \<Rightarrow> (u64 \<times> 'a fsst_scheme) res" where
  "sys_mkdir s = (
     bindR (begin_op s) (\<lambda>(_, s).
     make_node T_DIR 0 0 s))"

definition sys_mknod :: "'a fsst_scheme \<Rightarrow> (u64 \<times> 'a fsst_scheme) res" where
  "sys_mknod s = (
     bindR (begin_op s) (\<lambda>(_, s).
     bindR (argint 1 s) (\<lambda>(major, s).
     bindR (argint 2 s) (\<lambda>(minor, s).
     make_node T_DEVICE (ucast major) (ucast minor) s))))"

definition sys_chdir :: "'a fsst_scheme \<Rightarrow> (u64 \<times> 'a fsst_scheme) res" where
  "sys_chdir s = (
     bindR (myproc_deref s) (\<lambda>(p, s).
     bindR (begin_op s) (\<lambda>(_, s).
     bindR (argstr 0 MAXPATH s) (\<lambda>(r, s).
     bindR ((case r of None \<Rightarrow> (\<lambda>s. Inr (None, s)) | Some path \<Rightarrow> namei path) s) (\<lambda>(r, s).
     case r of
       None \<Rightarrow> (
         bindR (end_op s) (\<lambda>(_, s).
         Inr (- 1, s)))
     | Some ip \<Rightarrow>
     bindR (ilock ip s) (\<lambda>(_, s).
     if i_type (itable s ip) \<noteq> T_DIR then (
       bindR (iunlockput ip s) (\<lambda>(_, s).
       bindR (end_op s) (\<lambda>(_, s).
       Inr (- 1, s))))
     else
     bindR (iunlock ip s) (\<lambda>(_, s).
     case p_cwd (procs s p) of None \<Rightarrow> panic ''kerneltrap'' | Some cwd \<Rightarrow>
     bindR (iput cwd s) (\<lambda>(_, s).
     bindR (end_op s) (\<lambda>(_, s).
     Inr (0, upd_proc p (\<lambda>q. q\<lparr>p_cwd := Some ip\<rparr>) s))))))))))"

section \<open>Programs and pipes\<close>

text \<open>
  The loop of \<open>sys_exec\<close> with \<open>k\<close> slots of \<open>argv\<close> left: whether it got to the null pointer, and
  the pages it filled.
\<close>

primrec exec_fetch :: "nat \<Rightarrow> u64 \<Rightarrow> u64 list \<Rightarrow> 'a pst_scheme \<Rightarrow> ((bool \<times> u64 list) \<times> 'a pst_scheme) res" where
  "exec_fetch 0 uargv argv s = Inr ((False, argv), s)"
| "exec_fetch (Suc k) uargv argv s = (
     bindR (fetchaddr (uargv + 8 * of_nat (length argv)) s) (\<lambda>(r, s).
     case r of None \<Rightarrow> Inr ((False, argv), s) | Some uarg \<Rightarrow>
     if uarg = 0 then Inr ((True, argv), s) else
     bindR (kalloc s) (\<lambda>(a, s).
     if a = 0 then Inr ((False, argv), s) else
     bindR (fetchstr_page uarg a PGSZ s) (\<lambda>(n, s).
     if n < 0 then Inr ((False, argv @ [a]), s)
     else exec_fetch k uargv (argv @ [a]) s))))"

definition sys_exec :: "'a fsst_scheme \<Rightarrow> (u64 \<times> 'a fsst_scheme) res" where
  "sys_exec s = (
     bindR (argaddr 1 s) (\<lambda>(uargv, s).
     bindR (argstr 0 MAXPATH s) (\<lambda>(r, s).
     case r of None \<Rightarrow> Inr (- 1, s) | Some path \<Rightarrow>
     bindR (exec_fetch MAXARG uargv [] s) (\<lambda>((ok, argv), s).
     bindR ((if ok then exec path argv else (\<lambda>s. Inr (- 1, s))) s) (\<lambda>(ret, s).
     bindR (forR kfree argv s) (\<lambda>(_, s).
     Inr (scast ret, s)))))))"

definition sys_pipe_bad :: "nat \<Rightarrow> nat list \<Rightarrow> nat \<Rightarrow> nat \<Rightarrow> 'a flst_scheme \<Rightarrow> (u64 \<times> 'a flst_scheme) res" where
  "sys_pipe_bad p fds rfi wfi s = (
     let s = fold (\<lambda>fd. upd_proc p (\<lambda>q. q\<lparr>p_ofile := (p_ofile q)[fd := None]\<rparr>)) fds s in
     bindR (fileclose rfi s) (\<lambda>(_, s).
     bindR (fileclose wfi s) (\<lambda>(_, s).
     Inr (- 1, s))))"

definition sys_pipe :: "'a flst_scheme \<Rightarrow> (u64 \<times> 'a flst_scheme) res" where
  "sys_pipe s = (
     bindR (myproc_deref s) (\<lambda>(p, s).
     bindR (argaddr 0 s) (\<lambda>(fdarray, s).
     bindR (pipealloc s) (\<lambda>(r, s).
     case r of None \<Rightarrow> Inr (- 1, s) | Some (rfi, wfi) \<Rightarrow>
     bindR (fdalloc rfi s) (\<lambda>(fd0, s).
     case fd0 of None \<Rightarrow> sys_pipe_bad p [] rfi wfi s | Some fd0 \<Rightarrow>
     bindR (fdalloc wfi s) (\<lambda>(fd1, s).
     case fd1 of None \<Rightarrow> sys_pipe_bad p [fd0] rfi wfi s | Some fd1 \<Rightarrow>
     bindR (copyoutb (p_pagetable (procs s p)) fdarray (to_bytes 4 (of_nat fd0 :: u32)) s) (\<lambda>(r, s).
     if r < 0 then sys_pipe_bad p [fd0, fd1] rfi wfi s else
     bindR (copyoutb (p_pagetable (procs s p)) (fdarray + 4) (to_bytes 4 (of_nat fd1 :: u32)) s) (\<lambda>(r, s).
     if r < 0 then sys_pipe_bad p [fd0, fd1] rfi wfi s else
     Inr (0, s)))))))))"

end
