(* ===== verification/Trap.thy ===== *)
theory Trap
  imports Sysfile
begin

text \<open>
  \<open>kernel/sysproc.c\<close>, the dispatch of system calls in \<open>kernel/syscall.c\<close>, \<open>kernel/trap.c\<close>
  and \<open>forkret\<close> of \<open>kernel/proc.c\<close>.  \<open>usertrapret\<close> ends in a jump: its result is the address
  it jumps to and the argument it passes.  \<open>ws\<close> and \<open>others\<close> say what other processes do
  while the caller sleeps or has yielded.
\<close>

section \<open>System calls on processes\<close>

definition sys_exit :: "'a flst_scheme \<Rightarrow> (u64 \<times> 'a flst_scheme) res" where
  "sys_exit s = (
     bindR (argint 0 s) (\<lambda>(n, s).
     exit alone n s))"

definition sys_getpid :: "'a pst_scheme \<Rightarrow> (u64 \<times> 'a pst_scheme) res" where
  "sys_getpid s = (
     bindR (myproc_deref s) (\<lambda>(p, s).
     Inr (scast (p_pid (procs s p)), s)))"

definition sys_fork :: "'a flst_scheme \<Rightarrow> (u64 \<times> 'a flst_scheme) res" where
  "sys_fork s = (
     bindR (fork s) (\<lambda>(pid, s).
     Inr (scast pid, s)))"

definition sys_wait :: "'a pst_scheme others list \<Rightarrow> 'a pst_scheme \<Rightarrow> (u64 \<times> 'a pst_scheme) res" where
  "sys_wait ws s = (
     bindR (argaddr 0 s) (\<lambda>(p, s).
     bindR (wait ws p s) (\<lambda>(pid, s).
     Inr (scast pid, s))))"

definition sys_sbrk :: "'a pst_scheme \<Rightarrow> (u64 \<times> 'a pst_scheme) res" where
  "sys_sbrk s = (
     bindR (argint 0 s) (\<lambda>(n, s).
     bindR (myproc_deref s) (\<lambda>(p, s).
     let addr = p_sz (procs s p) in
     bindR (growproc n s) (\<lambda>(r, s).
     if r < 0 then Inr (- 1, s) else Inr (addr, s)))))"

fun sys_sleep_loop :: "'a pst_scheme others list \<Rightarrow> u32 \<Rightarrow> u32 \<Rightarrow> 'a pst_scheme \<Rightarrow> (u64 \<times> 'a pst_scheme) res" where
  "sys_sleep_loop ws n ticks0 s =
     (if ticks s - ticks0 < n then (
        bindR (myproc_deref s) (\<lambda>(p, s).
        bindR (killed p s) (\<lambda>(k, s).
        if k \<noteq> 0 then (
          bindR (release TicksLock s) (\<lambda>(_, s).
          Inr (- 1, s)))
        else case ws of
          [] \<Rightarrow> (
            bindR (sleep alone ChanTicks TicksLock s) (\<lambda>(_, s).
            Inl Stuck))
        | w # ws \<Rightarrow>
            bindR (sleep w ChanTicks TicksLock s) (\<lambda>(_, s).
            sys_sleep_loop ws n ticks0 s))))
      else (
        bindR (release TicksLock s) (\<lambda>(_, s).
        Inr (0, s))))"

definition sys_sleep :: "'a pst_scheme others list \<Rightarrow> 'a pst_scheme \<Rightarrow> (u64 \<times> 'a pst_scheme) res" where
  "sys_sleep ws s = (
     bindR (argint 0 s) (\<lambda>(n, s).
     bindR (acquire TicksLock s) (\<lambda>(_, s).
     sys_sleep_loop ws n (ticks s) s)))"

definition sys_kill :: "'a pst_scheme \<Rightarrow> (u64 \<times> 'a pst_scheme) res" where
  "sys_kill s = (
     bindR (argint 0 s) (\<lambda>(pid, s).
     bindR (kill pid s) (\<lambda>(r, s).
     Inr (of_int r, s))))"

definition sys_uptime :: "'a pst_scheme \<Rightarrow> (u64 \<times> 'a pst_scheme) res" where
  "sys_uptime s = (
     bindR (acquire TicksLock s) (\<lambda>(_, s).
     let xticks = ticks s in
     bindR (release TicksLock s) (\<lambda>(_, s).
     Inr (ucast xticks, s))))"

section \<open>Dispatch\<close>

definition SYS_fork :: nat where "SYS_fork = 1"
definition SYS_exit :: nat where "SYS_exit = 2"
definition SYS_wait :: nat where "SYS_wait = 3"
definition SYS_pipe :: nat where "SYS_pipe = 4"
definition SYS_read :: nat where "SYS_read = 5"
definition SYS_kill :: nat where "SYS_kill = 6"
definition SYS_exec :: nat where "SYS_exec = 7"
definition SYS_fstat :: nat where "SYS_fstat = 8"
definition SYS_chdir :: nat where "SYS_chdir = 9"
definition SYS_dup :: nat where "SYS_dup = 10"
definition SYS_getpid :: nat where "SYS_getpid = 11"
definition SYS_sbrk :: nat where "SYS_sbrk = 12"
definition SYS_sleep :: nat where "SYS_sleep = 13"
definition SYS_uptime :: nat where "SYS_uptime = 14"
definition SYS_open :: nat where "SYS_open = 15"
definition SYS_write :: nat where "SYS_write = 16"
definition SYS_mknod :: nat where "SYS_mknod = 17"
definition SYS_unlink :: nat where "SYS_unlink = 18"
definition SYS_link :: nat where "SYS_link = 19"
definition SYS_mkdir :: nat where "SYS_mkdir = 20"
definition SYS_close :: nat where "SYS_close = 21"

definition syscalls :: "'a flst_scheme others list \<Rightarrow> (nat \<times> ('a flst_scheme \<Rightarrow> (u64 \<times> 'a flst_scheme) res)) list" where
  "syscalls ws = [
     (SYS_fork, sys_fork),
     (SYS_exit, sys_exit),
     (SYS_wait, sys_wait ws),
     (SYS_pipe, sys_pipe),
     (SYS_read, sys_read ws),
     (SYS_kill, sys_kill),
     (SYS_exec, sys_exec),
     (SYS_fstat, sys_fstat),
     (SYS_chdir, sys_chdir),
     (SYS_dup, sys_dup),
     (SYS_getpid, sys_getpid),
     (SYS_sbrk, sys_sbrk),
     (SYS_sleep, sys_sleep ws),
     (SYS_uptime, sys_uptime),
     (SYS_open, sys_open),
     (SYS_write, sys_write ws),
     (SYS_mknod, sys_mknod),
     (SYS_unlink, sys_unlink),
     (SYS_link, sys_link),
     (SYS_mkdir, sys_mkdir),
     (SYS_close, sys_close)]"

definition syscall :: "'a flst_scheme others list \<Rightarrow> 'a flst_scheme \<Rightarrow> (unit \<times> 'a flst_scheme) res" where
  "syscall ws s = (
     bindR (myproc_deref s) (\<lambda>(p, s).
     let num = ucast (tf_get p tf_a7 s) :: u32 in
     case (if 0 <s num then map_of (syscalls ws) (unat num) else None) of
       Some f \<Rightarrow> (
         bindR (f s) (\<lambda>(v, s).
         Inr ((), tf_set p tf_a0 v s)))
     | None \<Rightarrow>
     bindR (printf (''%d %s: unknown sys call %d'' @ [CHR 0x0A])
       [VNum (scast (p_pid (procs s p))), VStr (Some (p_name (procs s p))), VNum (scast num)] s) (\<lambda>(_, s).
     Inr ((), tf_set p tf_a0 (- 1) s))))"

section \<open>Traps\<close>

definition trapinit :: "'a kmach_scheme \<Rightarrow> 'a kmach_scheme" where
  "trapinit s = initlock TicksLock ''time'' s"

definition trapinithart :: "'a trst_scheme \<Rightarrow> 'a trst_scheme" where
  "trapinithart s = upd_hart (w_stvec (sym_kernelvec s)) s"

definition clockintr :: "'a pst_scheme \<Rightarrow> (unit \<times> 'a pst_scheme) res" where
  "clockintr s = (
     bindR (acquire TicksLock s) (\<lambda>(_, s).
     let s = s\<lparr>ticks := ticks s + 1\<rparr> in
     bindR (wakeup (Some ChanTicks) s) (\<lambda>(_, s).
     release TicksLock s)))"

definition devintr :: "'a vdst_scheme \<Rightarrow> (nat \<times> 'a vdst_scheme) res" where
  "devintr s = (
     let scause = r_scause (thishart s) in
     if scause AND 0x8000000000000000 \<noteq> 0 \<and> scause AND 0xff = 9 then (
       let irq = plic_claim s in
       bindR ((if irq = of_nat UART0_IRQ then uartintr
         else if irq = of_nat VIRTIO0_IRQ then virtio_disk_intr
         else if irq \<noteq> 0 then printf (''unexpected interrupt irq=%d'' @ [CHR 0x0A]) [VNum (scast irq)]
         else (\<lambda>s. Inr ((), s))) s) (\<lambda>(_, s).
       let s = (if irq \<noteq> 0 then plic_complete irq s else s) in
       Inr (1, s)))
     else if scause = 0x8000000000000001 then (
       bindR ((if cpuid s = 0 then clockintr else (\<lambda>s. Inr ((), s))) s) (\<lambda>(_, s).
       let s = upd_hart (\<lambda>c. w_sip (r_sip c AND NOT 2) c) s in
       Inr (2, s)))
     else Inr (0, s))"

definition usertrapret :: "'a trst_scheme \<Rightarrow> ((u64 \<times> u64) \<times> 'a trst_scheme) res" where
  "usertrapret s = (
     bindR (myproc_deref s) (\<lambda>(p, s).
     let s = upd_hart intr_off s in
     let trampoline_uservec = TRAMPOLINE + (sym_uservec s - sym_trampoline s) in
     let s = upd_hart (w_stvec trampoline_uservec) s in
     let s = tf_set p tf_kernel_satp (r_satp (thishart s)) s in
     let s = tf_set p tf_kernel_sp (p_kstack (procs s p) + PGSZ) s in
     let s = tf_set p tf_kernel_trap (sym_usertrap s) s in
     let s = tf_set p tf_kernel_hartid (r_tp (thishart s)) s in
     let x = r_sstatus (thishart s) in
     let x = x AND NOT SSTATUS_SPP in
     let x = x OR SSTATUS_SPIE in
     let s = upd_hart (w_sstatus x) s in
     let s = upd_hart (w_sepc (tf_get p tf_epc s)) s in
     let satp = MAKE_SATP (p_pagetable (procs s p)) in
     let trampoline_userret = TRAMPOLINE + (sym_userret s - sym_trampoline s) in
     Inr ((trampoline_userret, satp), s)))"

text \<open>The two kinds of trap from user mode; the result is \<open>which_dev\<close>.\<close>

definition usertrap_syscall :: "'a flst_scheme others list \<Rightarrow> nat \<Rightarrow> 'a flst_scheme \<Rightarrow> (nat \<times> 'a flst_scheme) res" where
  "usertrap_syscall ws p s = (
     bindR (killed p s) (\<lambda>(k, s).
     bindR ((if k \<noteq> 0 then exit alone (- 1) else (\<lambda>s. Inr ((), s))) s) (\<lambda>(_, s).
     let s = tf_set p tf_epc (tf_get p tf_epc s + 4) s in
     let s = upd_hart intr_on s in
     bindR (syscall ws s) (\<lambda>(_, s).
     Inr (0, s)))))"

definition usertrap_other :: "nat \<Rightarrow> 'a vdst_scheme \<Rightarrow> (nat \<times> 'a vdst_scheme) res" where
  "usertrap_other p s = (
     bindR (devintr s) (\<lambda>(which_dev, s).
     if which_dev \<noteq> 0 then Inr (which_dev, s) else
     bindR (printf (''usertrap(): unexpected scause %p pid=%d'' @ [CHR 0x0A])
       [VNum (r_scause (thishart s)), VNum (scast (p_pid (procs s p)))] s) (\<lambda>(_, s).
     bindR (printf (''            sepc=%p stval=%p'' @ [CHR 0x0A])
       [VNum (r_sepc (thishart s)), VNum (r_stval (thishart s))] s) (\<lambda>(_, s).
     bindR (setkilled p s) (\<lambda>(_, s).
     Inr (0, s))))))"

definition usertrap :: "'a trst_scheme others list \<Rightarrow> 'a trst_scheme others \<Rightarrow> 'a trst_scheme \<Rightarrow> ((u64 \<times> u64) \<times> 'a trst_scheme) res" where
  "usertrap ws others s = (
     if r_sstatus (thishart s) AND SSTATUS_SPP \<noteq> 0 then panic ''usertrap: not from user mode'' else
     let s = upd_hart (w_stvec (sym_kernelvec s)) s in
     bindR (myproc_deref s) (\<lambda>(p, s).
     let s = tf_set p tf_epc (r_sepc (thishart s)) s in
     bindR ((if r_scause (thishart s) = 8 then usertrap_syscall ws p else usertrap_other p) s) (\<lambda>(which_dev, s).
     bindR (killed p s) (\<lambda>(k, s).
     bindR ((if k \<noteq> 0 then exit alone (- 1) else (\<lambda>s. Inr ((), s))) s) (\<lambda>(_, s).
     bindR ((if which_dev = 2 then yield others else (\<lambda>s. Inr ((), s))) s) (\<lambda>(_, s).
     usertrapret s))))))"

definition kerneltrap_yield :: "'a pst_scheme others \<Rightarrow> 'a pst_scheme \<Rightarrow> (unit \<times> 'a pst_scheme) res" where
  "kerneltrap_yield others s = (
     bindR (myproc s) (\<lambda>(p, s).
     if p = None then Inr ((), s) else
     bindR (myproc_deref s) (\<lambda>(p, s).
     if p_state (procs s p) = RUNNING then yield others s else Inr ((), s))))"

definition kerneltrap :: "'a vdst_scheme others \<Rightarrow> 'a vdst_scheme \<Rightarrow> (unit \<times> 'a vdst_scheme) res" where
  "kerneltrap others s = (
     let sepc = r_sepc (thishart s) in
     let sstatus = r_sstatus (thishart s) in
     let scause = r_scause (thishart s) in
     if sstatus AND SSTATUS_SPP = 0 then panic ''kerneltrap: not from supervisor mode''
     else if intr_get (thishart s) then panic ''kerneltrap: interrupts enabled''
     else
     bindR (devintr s) (\<lambda>(which_dev, s).
     if which_dev = 0 then (
       bindR (printf (''scause %p'' @ [CHR 0x0A]) [VNum scause] s) (\<lambda>(_, s).
       bindR (printf (''sepc=%p stval=%p'' @ [CHR 0x0A]) [VNum (r_sepc (thishart s)), VNum (r_stval (thishart s))] s) (\<lambda>(_, s).
       panic ''kerneltrap'')))
     else
     bindR ((if which_dev = 2 then kerneltrap_yield others else (\<lambda>s. Inr ((), s))) s) (\<lambda>(_, s).
     let s = upd_hart (w_sepc sepc) s in
     Inr ((), upd_hart (w_sstatus sstatus) s))))"

definition forkret :: "'a trst_scheme \<Rightarrow> ((u64 \<times> u64) \<times> 'a trst_scheme) res" where
  "forkret s = (
     bindR (myproc_deref s) (\<lambda>(p, s).
     bindR (release (ProcLock p) s) (\<lambda>(_, s).
     bindR ((if forkret_first s then (\<lambda>s. fsinit ROOTDEV (s\<lparr>forkret_first := False\<rparr>)) else (\<lambda>s. Inr ((), s))) s) (\<lambda>(_, s).
     usertrapret s))))"

end
