(* ===== verification/Boot.thy ===== *)
theory Boot
  imports Trap
begin

text \<open>
  Booting: \<open>start\<close> and \<open>timerinit\<close> of \<open>kernel/start.c\<close>, which run in machine mode on the
  registers of one hart, and \<open>main\<close> of \<open>kernel/main.c\<close> up to its call of \<open>scheduler\<close>.
\<close>

section \<open>Machine mode\<close>

text \<open>The registers of the hart, the CLINT's registers by address, and \<open>timer_scratch\<close>.\<close>

record bootst =
  bt_csr :: csr
  bt_clint :: "u64 \<Rightarrow> u64"
  bt_scratch :: "nat \<Rightarrow> nat \<Rightarrow> u64"
  sym_main :: u64
  sym_timervec :: u64
  sym_timer_scratch :: u64

definition upd_csr :: "(csr \<Rightarrow> csr) \<Rightarrow> bootst \<Rightarrow> bootst" where
  "upd_csr f s = s\<lparr>bt_csr := f (bt_csr s)\<rparr>"

definition timerinit :: "bootst \<Rightarrow> bootst" where
  "timerinit s =
     (let id = unat (ucast (r_mhartid (bt_csr s)) :: u32);
          interval = 1000000;
          s = s\<lparr>bt_clint := (bt_clint s)(CLINT_MTIMECMP (of_nat id) := bt_clint s CLINT_MTIME + interval)\<rparr>;
          s = s\<lparr>bt_scratch := (bt_scratch s)(id := (bt_scratch s id)(3 := CLINT_MTIMECMP (of_nat id)))\<rparr>;
          s = s\<lparr>bt_scratch := (bt_scratch s)(id := (bt_scratch s id)(4 := interval))\<rparr>;
          s = upd_csr (w_mscratch (sym_timer_scratch s + of_nat (id * 5 * 8))) s;
          s = upd_csr (w_mtvec (sym_timervec s)) s;
          s = upd_csr (\<lambda>c. w_mstatus (r_mstatus c OR MSTATUS_MIE) c) s
      in upd_csr (\<lambda>c. w_mie (r_mie c OR MIE_MTIE) c) s)"

text \<open>\<open>start\<close> up to its \<open>mret\<close>.\<close>

definition start :: "bootst \<Rightarrow> bootst" where
  "start s =
     (let x = r_mstatus (bt_csr s);
          x = x AND NOT MSTATUS_MPP_MASK;
          x = x OR MSTATUS_MPP_S;
          s = upd_csr (w_mstatus x) s;
          s = upd_csr (w_mepc (sym_main s)) s;
          s = upd_csr (w_satp 0) s;
          s = upd_csr (w_medeleg 0xffff) s;
          s = upd_csr (w_mideleg 0xffff) s;
          s = upd_csr (\<lambda>c. w_sie (r_sie c OR SIE_SEIE OR SIE_STIE OR SIE_SSIE) c) s;
          s = upd_csr (w_pmpaddr0 0x3fffffffffffff) s;
          s = upd_csr (w_pmpcfg0 0xf) s;
          s = timerinit s;
          id = scast (ucast (r_mhartid (bt_csr s)) :: u32)
      in upd_csr (w_tp id) s)"

section \<open>main\<close>

definition main_boot :: "'a trst_scheme \<Rightarrow> (unit \<times> 'a trst_scheme) res" where
  "main_boot s =
     (if cpuid s = 0 then (
        let s = consoleinit s in
        let s = printfinit s in
        bindR (printf [CHR 0x0A] [] s) (\<lambda>(_, s).
        bindR (printf (''xv6 kernel is booting'' @ [CHR 0x0A]) [] s) (\<lambda>(_, s).
        bindR (printf [CHR 0x0A] [] s) (\<lambda>(_, s).
        bindR (kinit s) (\<lambda>(_, s).
        bindR (kvminit s) (\<lambda>(_, s).
        let s = kvminithart s in
        let s = procinit s in
        let s = trapinit s in
        let s = trapinithart s in
        let s = plicinit s in
        let s = plicinithart s in
        let s = binit s in
        let s = iinit s in
        let s = fileinit s in
        bindR (virtio_disk_init s) (\<lambda>(_, s).
        bindR (userinit s) (\<lambda>(_, s).
        Inr ((), s\<lparr>started := True\<rparr>)))))))))
      else if \<not> started s then Inl Stuck
      else (
        bindR (printf (''hart %d starting'' @ [CHR 0x0A]) [VNum (scast (cpuid s))] s) (\<lambda>(_, s).
        let s = kvminithart s in
        let s = trapinithart s in
        Inr ((), plicinithart s))))"

end
