(* ===== verification/Lockrun.thy ===== *)
theory Lockrun
  imports Spinlock
begin

text \<open>
  Running code that locks, by equations.  A state is settled when interrupts are off inside
  \<open>push_off\<close> and outside of it \<open>intena\<close> holds the interrupt bit, as every \<open>pop_off\<close> leaves it:
  releasing a lock taken in a settled state gives exactly that state back.
\<close>

named_theorems lockrun

definition settled :: "'a kmach_scheme \<Rightarrow> bool" where
  "settled s \<longleftrightarrow> hart_ok s \<and>
     (cpu_noff (cpus s (mycpu s)) = 0 \<longrightarrow> cpu_intena (cpus s (mycpu s)) = intr_get (thishart s))"

text \<open>The state in which a lock was taken.\<close>

definition acqd :: "lockid \<Rightarrow> 'a kmach_scheme \<Rightarrow> 'a kmach_scheme" where
  "acqd lk s = upd_lock lk (\<lambda>l. l\<lparr>lk_locked := 1, lk_cpu := Some (mycpu s)\<rparr>) (push_off s)"

lemma settled_hart_ok: "settled s \<Longrightarrow> hart_ok s"
  by (simp add: settled_def)

lemma acquire_acqd [lockrun]: "settled s \<Longrightarrow> lock_free lk s \<Longrightarrow> acquire lk s = Inr ((), acqd lk s)"
  by (simp add: acqd_def acquire_eq can_lock_def settled_hart_ok)

lemma acqd_fields [lockrun]:
  "mycpu (acqd lk s) = mycpu s" "cur_hart (acqd lk s) = cur_hart s"
  "thishart (acqd lk s) = intr_off (thishart s)"
  "cpu_noff (cpus (acqd lk s) (mycpu s)) = cpu_noff (cpus s (mycpu s)) + 1"
  "kmach.more (acqd lk s) = kmach.more s"
  by (simp_all add: acqd_def push_off_fields)

lemma settled_acqd [lockrun]: "settled s \<Longrightarrow> settled (acqd lk s)"
  by (auto simp: settled_def hart_ok_def acqd_fields)

lemma lock_free_acqd [lockrun]: "lock_free l (acqd k s) \<longleftrightarrow> l \<noteq> k \<and> lock_free l s"
  by (auto simp: lock_free_def acqd_def push_off_fields)

lemma holding_acqd [lockrun]:
  "holding l (acqd k s) \<longleftrightarrow> l = k \<or> holding l s"
  by (auto simp: holding_def acqd_def push_off_fields)

lemma push_off_settled:
  assumes "settled s"
  shows "push_off s = upd_cpu (\<lambda>c. c\<lparr>cpu_noff := cpu_noff c + 1\<rparr>) (upd_hart intr_off s)"
proof -
  have "upd_cpu (\<lambda>c. c\<lparr>cpu_intena := intr_get (thishart s)\<rparr>) (upd_hart intr_off s) = upd_hart intr_off s"
    if "cpu_noff (cpus s (mycpu s)) = 0"
  proof -
    have "(cpus s (mycpu s))\<lparr>cpu_intena := intr_get (thishart s)\<rparr> = cpus s (mycpu s)"
      using assms that by (simp add: settled_def)
    then show ?thesis unfolding upd_cpu_def by simp
  qed
  then show ?thesis by (simp add: push_off_def Let_def)
qed

lemma acqd_settled:
  "settled s \<Longrightarrow> acqd lk s = upd_lock lk (\<lambda>l. l\<lparr>lk_locked := 1, lk_cpu := Some (mycpu s)\<rparr>)
     (upd_cpu (\<lambda>c. c\<lparr>cpu_noff := cpu_noff c + 1\<rparr>) (upd_hart intr_off s))"
  by (simp add: acqd_def push_off_settled)

lemma pop_push_off [lockrun]: 
  assumes "settled s" 
  shows "pop_off (push_off s) = Inr ((), s)"
proof -
  define t where "t = upd_cpu (\<lambda>c. c\<lparr>cpu_noff := cpu_noff c - 1\<rparr>) (push_off s)"
  have p: "pop_off (push_off s) = Inr ((), if cpu_noff (cpus s (mycpu s)) = 0 \<and> intr_get (thishart s) then upd_hart intr_on t else t)"
    using assms by (auto simp: pop_off_def push_off_settled Let_def t_def settled_def hart_ok_def)
  have t: "cur_hart t = cur_hart s" "harts t = (harts s)(cur_hart s := intr_off (thishart s))" "cpus t = cpus s"
    "locks t = locks s" "kmach.more t = kmach.more s"
    by (simp_all add: t_def push_off_settled [OF assms])
  show ?thesis
  proof (cases "intr_get (thishart s)")
    case True
    then have "cpu_noff (cpus s (mycpu s)) = 0"
      using assms by (auto simp: settled_def hart_ok_def)
    moreover have "upd_hart intr_on t = s"
      using True t by (intro kmach.equality) (simp_all add: thishart_def)
    ultimately show ?thesis using True by (simp add: p)
  next
    case False
    have "t = s"
      using False t by (intro kmach.equality) (simp_all add: thishart_def)
    then show ?thesis using False by (simp add: p)
  qed
qed

lemma release_acqd [lockrun]: 
  assumes "settled s" and "lock_free lk s"
  shows "release lk (acqd lk s) = Inr ((), s)"
proof -
  have l: "(locks s lk)\<lparr>lk_cpu := None, lk_locked := 0\<rparr> = locks s lk"
    using assms(2) by (simp add: lock_free_def)
  have "upd_lock lk (\<lambda>l. l\<lparr>lk_cpu := None, lk_locked := 0\<rparr>) (push_off s) = push_off s"
    using l by (intro kmach.equality) (simp_all add: push_off_fields)
  then have "release lk (acqd lk s) = pop_off (push_off s)"
    by (simp add: release_def Let_def holding_acqd) (simp add: acqd_def)
  then show ?thesis by (simp add: pop_push_off assms(1))
qed

lemma acqd_flat:
  "acqd lk s = s\<lparr>harts := (harts s)(cur_hart s := intr_off (thishart s)),
     cpus := (cpus s)(mycpu s := (cpus s (mycpu s))
       \<lparr>cpu_intena := if cpu_noff (cpus s (mycpu s)) = 0 then intr_get (thishart s) else cpu_intena (cpus s (mycpu s)),
        cpu_noff := cpu_noff (cpus s (mycpu s)) + 1\<rparr>),
     locks := (locks s)(lk := (locks s lk)\<lparr>lk_locked := 1, lk_cpu := Some (mycpu s)\<rparr>)\<rparr>"
  by (intro kmach.equality) (simp_all add: acqd_def push_off_def Let_def)

lemma acqd_settled_fields:
  assumes "settled s"
  shows "cpus (acqd lk s) = (cpus s)(mycpu s := (cpus s (mycpu s))\<lparr>cpu_noff := cpu_noff (cpus s (mycpu s)) + 1\<rparr>)"
    "harts (acqd lk s) = (harts s)(cur_hart s := intr_off (thishart s))"
    "locks (acqd lk s) = (locks s)(lk := (locks s lk)\<lparr>lk_locked := 1, lk_cpu := Some (mycpu s)\<rparr>)"
  by (simp_all add: acqd_settled [OF assms])

lemma acqd_commute:
  assumes "a \<noteq> b" "settled s"
  shows "acqd a (acqd b s) = acqd b (acqd a s)"
  using assms by (intro kmach.equality)
    (simp_all add: acqd_settled_fields settled_acqd acqd_fields fun_upd_twist)

lemma release_acqd2 [lockrun]:
  "settled s \<Longrightarrow> lock_free b s \<Longrightarrow> a \<noteq> b \<Longrightarrow> release b (acqd a (acqd b s)) = Inr ((), acqd a s)"
  by (simp add: acqd_commute [of a b] release_acqd settled_acqd lock_free_acqd)

end
