(* ===== verification/Lockfields.thy ===== *)
theory Lockfields
  imports Process Lockrun
begin

text \<open>Taking a lock and the fields of the kernel state: it changes none of them and commutes with
  changes of them, and whether a lock can be taken does not depend on them.\<close>

lemma acqd_sel_kst [lockrun]:
  "mem (acqd lk s) = mem s"
  "kfreelist (acqd lk s) = kfreelist s"
  "kend (acqd lk s) = kend s"
  by (simp_all add: acqd_flat spin_defs)

lemma acqd_upd_kst [lockrun]:
  "mem_update g0 (acqd lk s) = acqd lk (mem_update g0 s)"
  "kfreelist_update g1 (acqd lk s) = acqd lk (kfreelist_update g1 s)"
  "kend_update g2 (acqd lk s) = acqd lk (kend_update g2 s)"
  by (simp_all add: acqd_flat spin_defs)

lemma settled_upd_kst [lockrun]:
  "settled (mem_update g0 s) \<longleftrightarrow> settled s"
  "settled (kfreelist_update g1 s) \<longleftrightarrow> settled s"
  "settled (kend_update g2 s) \<longleftrightarrow> settled s"
  by (simp_all add: settled_def hart_ok_def spin_defs)

lemma lock_free_upd_kst [lockrun]:
  "lock_free lk (mem_update g0 s) \<longleftrightarrow> lock_free lk s"
  "lock_free lk (kfreelist_update g1 s) \<longleftrightarrow> lock_free lk s"
  "lock_free lk (kend_update g2 s) \<longleftrightarrow> lock_free lk s"
  by (simp_all add: lock_free_def)

lemma mycpu_upd_kst [lockrun]:
  "mycpu (mem_update g0 s) = mycpu s"
  "mycpu (kfreelist_update g1 s) = mycpu s"
  "mycpu (kend_update g2 s) = mycpu s"
  by (simp_all add: spin_defs)

lemma thishart_upd_kst [lockrun]:
  "thishart (mem_update g0 s) = thishart s"
  "thishart (kfreelist_update g1 s) = thishart s"
  "thishart (kend_update g2 s) = thishart s"
  by (simp_all add: spin_defs)

lemma acqd_sel_pst [lockrun]:
  "procs (acqd lk s) = procs s"
  "nextpid (acqd lk s) = nextpid s"
  "initproc (acqd lk s) = initproc s"
  "kregs (acqd lk s) = kregs s"
  "ticks (acqd lk s) = ticks s"
  by (simp_all add: acqd_flat spin_defs)

lemma acqd_upd_pst [lockrun]:
  "procs_update g0 (acqd lk s) = acqd lk (procs_update g0 s)"
  "nextpid_update g1 (acqd lk s) = acqd lk (nextpid_update g1 s)"
  "initproc_update g2 (acqd lk s) = acqd lk (initproc_update g2 s)"
  "kregs_update g3 (acqd lk s) = acqd lk (kregs_update g3 s)"
  "ticks_update g4 (acqd lk s) = acqd lk (ticks_update g4 s)"
  by (simp_all add: acqd_flat spin_defs)

lemma settled_upd_pst [lockrun]:
  "settled (procs_update g0 s) \<longleftrightarrow> settled s"
  "settled (nextpid_update g1 s) \<longleftrightarrow> settled s"
  "settled (initproc_update g2 s) \<longleftrightarrow> settled s"
  "settled (kregs_update g3 s) \<longleftrightarrow> settled s"
  "settled (ticks_update g4 s) \<longleftrightarrow> settled s"
  by (simp_all add: settled_def hart_ok_def spin_defs)

lemma lock_free_upd_pst [lockrun]:
  "lock_free lk (procs_update g0 s) \<longleftrightarrow> lock_free lk s"
  "lock_free lk (nextpid_update g1 s) \<longleftrightarrow> lock_free lk s"
  "lock_free lk (initproc_update g2 s) \<longleftrightarrow> lock_free lk s"
  "lock_free lk (kregs_update g3 s) \<longleftrightarrow> lock_free lk s"
  "lock_free lk (ticks_update g4 s) \<longleftrightarrow> lock_free lk s"
  by (simp_all add: lock_free_def)

lemma mycpu_upd_pst [lockrun]:
  "mycpu (procs_update g0 s) = mycpu s"
  "mycpu (nextpid_update g1 s) = mycpu s"
  "mycpu (initproc_update g2 s) = mycpu s"
  "mycpu (kregs_update g3 s) = mycpu s"
  "mycpu (ticks_update g4 s) = mycpu s"
  by (simp_all add: spin_defs)

lemma thishart_upd_pst [lockrun]:
  "thishart (procs_update g0 s) = thishart s"
  "thishart (nextpid_update g1 s) = thishart s"
  "thishart (initproc_update g2 s) = thishart s"
  "thishart (kregs_update g3 s) = thishart s"
  "thishart (ticks_update g4 s) = thishart s"
  by (simp_all add: spin_defs)

lemma acqd_sel_cnst [lockrun]:
  "uart (acqd lk s) = uart s"
  "uart_tx_buf (acqd lk s) = uart_tx_buf s"
  "uart_tx_w (acqd lk s) = uart_tx_w s"
  "uart_tx_r (acqd lk s) = uart_tx_r s"
  "cons (acqd lk s) = cons s"
  "pr_locking (acqd lk s) = pr_locking s"
  "panicked_flag (acqd lk s) = panicked_flag s"
  by (simp_all add: acqd_flat spin_defs)

lemma acqd_upd_cnst [lockrun]:
  "uart_update g0 (acqd lk s) = acqd lk (uart_update g0 s)"
  "uart_tx_buf_update g1 (acqd lk s) = acqd lk (uart_tx_buf_update g1 s)"
  "uart_tx_w_update g2 (acqd lk s) = acqd lk (uart_tx_w_update g2 s)"
  "uart_tx_r_update g3 (acqd lk s) = acqd lk (uart_tx_r_update g3 s)"
  "cons_update g4 (acqd lk s) = acqd lk (cons_update g4 s)"
  "pr_locking_update g5 (acqd lk s) = acqd lk (pr_locking_update g5 s)"
  "panicked_flag_update g6 (acqd lk s) = acqd lk (panicked_flag_update g6 s)"
  by (simp_all add: acqd_flat spin_defs)

lemma settled_upd_cnst [lockrun]:
  "settled (uart_update g0 s) \<longleftrightarrow> settled s"
  "settled (uart_tx_buf_update g1 s) \<longleftrightarrow> settled s"
  "settled (uart_tx_w_update g2 s) \<longleftrightarrow> settled s"
  "settled (uart_tx_r_update g3 s) \<longleftrightarrow> settled s"
  "settled (cons_update g4 s) \<longleftrightarrow> settled s"
  "settled (pr_locking_update g5 s) \<longleftrightarrow> settled s"
  "settled (panicked_flag_update g6 s) \<longleftrightarrow> settled s"
  by (simp_all add: settled_def hart_ok_def spin_defs)

lemma lock_free_upd_cnst [lockrun]:
  "lock_free lk (uart_update g0 s) \<longleftrightarrow> lock_free lk s"
  "lock_free lk (uart_tx_buf_update g1 s) \<longleftrightarrow> lock_free lk s"
  "lock_free lk (uart_tx_w_update g2 s) \<longleftrightarrow> lock_free lk s"
  "lock_free lk (uart_tx_r_update g3 s) \<longleftrightarrow> lock_free lk s"
  "lock_free lk (cons_update g4 s) \<longleftrightarrow> lock_free lk s"
  "lock_free lk (pr_locking_update g5 s) \<longleftrightarrow> lock_free lk s"
  "lock_free lk (panicked_flag_update g6 s) \<longleftrightarrow> lock_free lk s"
  by (simp_all add: lock_free_def)

lemma mycpu_upd_cnst [lockrun]:
  "mycpu (uart_update g0 s) = mycpu s"
  "mycpu (uart_tx_buf_update g1 s) = mycpu s"
  "mycpu (uart_tx_w_update g2 s) = mycpu s"
  "mycpu (uart_tx_r_update g3 s) = mycpu s"
  "mycpu (cons_update g4 s) = mycpu s"
  "mycpu (pr_locking_update g5 s) = mycpu s"
  "mycpu (panicked_flag_update g6 s) = mycpu s"
  by (simp_all add: spin_defs)

lemma thishart_upd_cnst [lockrun]:
  "thishart (uart_update g0 s) = thishart s"
  "thishart (uart_tx_buf_update g1 s) = thishart s"
  "thishart (uart_tx_w_update g2 s) = thishart s"
  "thishart (uart_tx_r_update g3 s) = thishart s"
  "thishart (cons_update g4 s) = thishart s"
  "thishart (pr_locking_update g5 s) = thishart s"
  "thishart (panicked_flag_update g6 s) = thishart s"
  by (simp_all add: spin_defs)

lemma acqd_sel_slst [lockrun]:
  "slocks (acqd lk s) = slocks s"
  by (simp_all add: acqd_flat spin_defs)

lemma acqd_upd_slst [lockrun]:
  "slocks_update g0 (acqd lk s) = acqd lk (slocks_update g0 s)"
  by (simp_all add: acqd_flat spin_defs)

lemma settled_upd_slst [lockrun]:
  "settled (slocks_update g0 s) \<longleftrightarrow> settled s"
  by (simp_all add: settled_def hart_ok_def spin_defs)

lemma lock_free_upd_slst [lockrun]:
  "lock_free lk (slocks_update g0 s) \<longleftrightarrow> lock_free lk s"
  by (simp_all add: lock_free_def)

lemma mycpu_upd_slst [lockrun]:
  "mycpu (slocks_update g0 s) = mycpu s"
  by (simp_all add: spin_defs)

lemma thishart_upd_slst [lockrun]:
  "thishart (slocks_update g0 s) = thishart s"
  by (simp_all add: spin_defs)

lemma acqd_sel_vdst [lockrun]:
  "bufs (acqd lk s) = bufs s"
  "vq (acqd lk s) = vq s"
  "vd_free (acqd lk s) = vd_free s"
  "vd_used_idx (acqd lk s) = vd_used_idx s"
  "vd_info_b (acqd lk s) = vd_info_b s"
  "vregs (acqd lk s) = vregs s"
  "device (acqd lk s) = device s"
  "device_mmio (acqd lk s) = device_mmio s"
  by (simp_all add: acqd_flat spin_defs)

lemma acqd_upd_vdst [lockrun]:
  "bufs_update g0 (acqd lk s) = acqd lk (bufs_update g0 s)"
  "vq_update g1 (acqd lk s) = acqd lk (vq_update g1 s)"
  "vd_free_update g2 (acqd lk s) = acqd lk (vd_free_update g2 s)"
  "vd_used_idx_update g3 (acqd lk s) = acqd lk (vd_used_idx_update g3 s)"
  "vd_info_b_update g4 (acqd lk s) = acqd lk (vd_info_b_update g4 s)"
  "vregs_update g5 (acqd lk s) = acqd lk (vregs_update g5 s)"
  "device_update g6 (acqd lk s) = acqd lk (device_update g6 s)"
  "device_mmio_update g7 (acqd lk s) = acqd lk (device_mmio_update g7 s)"
  by (simp_all add: acqd_flat spin_defs)

lemma settled_upd_vdst [lockrun]:
  "settled (bufs_update g0 s) \<longleftrightarrow> settled s"
  "settled (vq_update g1 s) \<longleftrightarrow> settled s"
  "settled (vd_free_update g2 s) \<longleftrightarrow> settled s"
  "settled (vd_used_idx_update g3 s) \<longleftrightarrow> settled s"
  "settled (vd_info_b_update g4 s) \<longleftrightarrow> settled s"
  "settled (vregs_update g5 s) \<longleftrightarrow> settled s"
  "settled (device_update g6 s) \<longleftrightarrow> settled s"
  "settled (device_mmio_update g7 s) \<longleftrightarrow> settled s"
  by (simp_all add: settled_def hart_ok_def spin_defs)

lemma lock_free_upd_vdst [lockrun]:
  "lock_free lk (bufs_update g0 s) \<longleftrightarrow> lock_free lk s"
  "lock_free lk (vq_update g1 s) \<longleftrightarrow> lock_free lk s"
  "lock_free lk (vd_free_update g2 s) \<longleftrightarrow> lock_free lk s"
  "lock_free lk (vd_used_idx_update g3 s) \<longleftrightarrow> lock_free lk s"
  "lock_free lk (vd_info_b_update g4 s) \<longleftrightarrow> lock_free lk s"
  "lock_free lk (vregs_update g5 s) \<longleftrightarrow> lock_free lk s"
  "lock_free lk (device_update g6 s) \<longleftrightarrow> lock_free lk s"
  "lock_free lk (device_mmio_update g7 s) \<longleftrightarrow> lock_free lk s"
  by (simp_all add: lock_free_def)

lemma mycpu_upd_vdst [lockrun]:
  "mycpu (bufs_update g0 s) = mycpu s"
  "mycpu (vq_update g1 s) = mycpu s"
  "mycpu (vd_free_update g2 s) = mycpu s"
  "mycpu (vd_used_idx_update g3 s) = mycpu s"
  "mycpu (vd_info_b_update g4 s) = mycpu s"
  "mycpu (vregs_update g5 s) = mycpu s"
  "mycpu (device_update g6 s) = mycpu s"
  "mycpu (device_mmio_update g7 s) = mycpu s"
  by (simp_all add: spin_defs)

lemma thishart_upd_vdst [lockrun]:
  "thishart (bufs_update g0 s) = thishart s"
  "thishart (vq_update g1 s) = thishart s"
  "thishart (vd_free_update g2 s) = thishart s"
  "thishart (vd_used_idx_update g3 s) = thishart s"
  "thishart (vd_info_b_update g4 s) = thishart s"
  "thishart (vregs_update g5 s) = thishart s"
  "thishart (device_update g6 s) = thishart s"
  "thishart (device_mmio_update g7 s) = thishart s"
  by (simp_all add: spin_defs)

lemma acqd_sel_biost [lockrun]:
  "b_prev (acqd lk s) = b_prev s"
  "b_next (acqd lk s) = b_next s"
  by (simp_all add: acqd_flat spin_defs)

lemma acqd_upd_biost [lockrun]:
  "b_prev_update g0 (acqd lk s) = acqd lk (b_prev_update g0 s)"
  "b_next_update g1 (acqd lk s) = acqd lk (b_next_update g1 s)"
  by (simp_all add: acqd_flat spin_defs)

lemma settled_upd_biost [lockrun]:
  "settled (b_prev_update g0 s) \<longleftrightarrow> settled s"
  "settled (b_next_update g1 s) \<longleftrightarrow> settled s"
  by (simp_all add: settled_def hart_ok_def spin_defs)

lemma lock_free_upd_biost [lockrun]:
  "lock_free lk (b_prev_update g0 s) \<longleftrightarrow> lock_free lk s"
  "lock_free lk (b_next_update g1 s) \<longleftrightarrow> lock_free lk s"
  by (simp_all add: lock_free_def)

lemma mycpu_upd_biost [lockrun]:
  "mycpu (b_prev_update g0 s) = mycpu s"
  "mycpu (b_next_update g1 s) = mycpu s"
  by (simp_all add: spin_defs)

lemma thishart_upd_biost [lockrun]:
  "thishart (b_prev_update g0 s) = thishart s"
  "thishart (b_next_update g1 s) = thishart s"
  by (simp_all add: spin_defs)

lemma acqd_sel_logst [lockrun]:
  "lg_start (acqd lk s) = lg_start s"
  "lg_size (acqd lk s) = lg_size s"
  "lg_outstanding (acqd lk s) = lg_outstanding s"
  "lg_committing (acqd lk s) = lg_committing s"
  "lg_dev (acqd lk s) = lg_dev s"
  "lh_n (acqd lk s) = lh_n s"
  "lh_block (acqd lk s) = lh_block s"
  by (simp_all add: acqd_flat spin_defs)

lemma acqd_upd_logst [lockrun]:
  "lg_start_update g0 (acqd lk s) = acqd lk (lg_start_update g0 s)"
  "lg_size_update g1 (acqd lk s) = acqd lk (lg_size_update g1 s)"
  "lg_outstanding_update g2 (acqd lk s) = acqd lk (lg_outstanding_update g2 s)"
  "lg_committing_update g3 (acqd lk s) = acqd lk (lg_committing_update g3 s)"
  "lg_dev_update g4 (acqd lk s) = acqd lk (lg_dev_update g4 s)"
  "lh_n_update g5 (acqd lk s) = acqd lk (lh_n_update g5 s)"
  "lh_block_update g6 (acqd lk s) = acqd lk (lh_block_update g6 s)"
  by (simp_all add: acqd_flat spin_defs)

lemma settled_upd_logst [lockrun]:
  "settled (lg_start_update g0 s) \<longleftrightarrow> settled s"
  "settled (lg_size_update g1 s) \<longleftrightarrow> settled s"
  "settled (lg_outstanding_update g2 s) \<longleftrightarrow> settled s"
  "settled (lg_committing_update g3 s) \<longleftrightarrow> settled s"
  "settled (lg_dev_update g4 s) \<longleftrightarrow> settled s"
  "settled (lh_n_update g5 s) \<longleftrightarrow> settled s"
  "settled (lh_block_update g6 s) \<longleftrightarrow> settled s"
  by (simp_all add: settled_def hart_ok_def spin_defs)

lemma lock_free_upd_logst [lockrun]:
  "lock_free lk (lg_start_update g0 s) \<longleftrightarrow> lock_free lk s"
  "lock_free lk (lg_size_update g1 s) \<longleftrightarrow> lock_free lk s"
  "lock_free lk (lg_outstanding_update g2 s) \<longleftrightarrow> lock_free lk s"
  "lock_free lk (lg_committing_update g3 s) \<longleftrightarrow> lock_free lk s"
  "lock_free lk (lg_dev_update g4 s) \<longleftrightarrow> lock_free lk s"
  "lock_free lk (lh_n_update g5 s) \<longleftrightarrow> lock_free lk s"
  "lock_free lk (lh_block_update g6 s) \<longleftrightarrow> lock_free lk s"
  by (simp_all add: lock_free_def)

lemma mycpu_upd_logst [lockrun]:
  "mycpu (lg_start_update g0 s) = mycpu s"
  "mycpu (lg_size_update g1 s) = mycpu s"
  "mycpu (lg_outstanding_update g2 s) = mycpu s"
  "mycpu (lg_committing_update g3 s) = mycpu s"
  "mycpu (lg_dev_update g4 s) = mycpu s"
  "mycpu (lh_n_update g5 s) = mycpu s"
  "mycpu (lh_block_update g6 s) = mycpu s"
  by (simp_all add: spin_defs)

lemma thishart_upd_logst [lockrun]:
  "thishart (lg_start_update g0 s) = thishart s"
  "thishart (lg_size_update g1 s) = thishart s"
  "thishart (lg_outstanding_update g2 s) = thishart s"
  "thishart (lg_committing_update g3 s) = thishart s"
  "thishart (lg_dev_update g4 s) = thishart s"
  "thishart (lh_n_update g5 s) = thishart s"
  "thishart (lh_block_update g6 s) = thishart s"
  by (simp_all add: spin_defs)

lemma acqd_sel_fsst [lockrun]:
  "sb (acqd lk s) = sb s"
  "itable (acqd lk s) = itable s"
  by (simp_all add: acqd_flat spin_defs)

lemma acqd_upd_fsst [lockrun]:
  "sb_update g0 (acqd lk s) = acqd lk (sb_update g0 s)"
  "itable_update g1 (acqd lk s) = acqd lk (itable_update g1 s)"
  by (simp_all add: acqd_flat spin_defs)

lemma settled_upd_fsst [lockrun]:
  "settled (sb_update g0 s) \<longleftrightarrow> settled s"
  "settled (itable_update g1 s) \<longleftrightarrow> settled s"
  by (simp_all add: settled_def hart_ok_def spin_defs)

lemma lock_free_upd_fsst [lockrun]:
  "lock_free lk (sb_update g0 s) \<longleftrightarrow> lock_free lk s"
  "lock_free lk (itable_update g1 s) \<longleftrightarrow> lock_free lk s"
  by (simp_all add: lock_free_def)

lemma mycpu_upd_fsst [lockrun]:
  "mycpu (sb_update g0 s) = mycpu s"
  "mycpu (itable_update g1 s) = mycpu s"
  by (simp_all add: spin_defs)

lemma thishart_upd_fsst [lockrun]:
  "thishart (sb_update g0 s) = thishart s"
  "thishart (itable_update g1 s) = thishart s"
  by (simp_all add: spin_defs)

lemma acqd_sel_ppst [lockrun]:
  "pipes (acqd lk s) = pipes s"
  by (simp_all add: acqd_flat spin_defs)

lemma acqd_upd_ppst [lockrun]:
  "pipes_update g0 (acqd lk s) = acqd lk (pipes_update g0 s)"
  by (simp_all add: acqd_flat spin_defs)

lemma settled_upd_ppst [lockrun]:
  "settled (pipes_update g0 s) \<longleftrightarrow> settled s"
  by (simp_all add: settled_def hart_ok_def spin_defs)

lemma lock_free_upd_ppst [lockrun]:
  "lock_free lk (pipes_update g0 s) \<longleftrightarrow> lock_free lk s"
  by (simp_all add: lock_free_def)

lemma mycpu_upd_ppst [lockrun]:
  "mycpu (pipes_update g0 s) = mycpu s"
  by (simp_all add: spin_defs)

lemma thishart_upd_ppst [lockrun]:
  "thishart (pipes_update g0 s) = thishart s"
  by (simp_all add: spin_defs)

lemma acqd_sel_flst [lockrun]:
  "ftable (acqd lk s) = ftable s"
  by (simp_all add: acqd_flat spin_defs)

lemma acqd_upd_flst [lockrun]:
  "ftable_update g0 (acqd lk s) = acqd lk (ftable_update g0 s)"
  by (simp_all add: acqd_flat spin_defs)

lemma settled_upd_flst [lockrun]:
  "settled (ftable_update g0 s) \<longleftrightarrow> settled s"
  by (simp_all add: settled_def hart_ok_def spin_defs)

lemma lock_free_upd_flst [lockrun]:
  "lock_free lk (ftable_update g0 s) \<longleftrightarrow> lock_free lk s"
  by (simp_all add: lock_free_def)

lemma mycpu_upd_flst [lockrun]:
  "mycpu (ftable_update g0 s) = mycpu s"
  by (simp_all add: spin_defs)

lemma thishart_upd_flst [lockrun]:
  "thishart (ftable_update g0 s) = thishart s"
  by (simp_all add: spin_defs)

lemmas upd_defs = upd_proc_def upd_cons_def upd_slock_def upd_buf_def upd_vq_def upd_desc_def set_bdata_def upd_inode_def upd_pipe_def upd_file_def

lemma acqd_upds [lockrun]:
  "upd_proc p g0 (acqd lk s0) = acqd lk (upd_proc p g0 s0)"
  "upd_cons g1 (acqd lk s1) = acqd lk (upd_cons g1 s1)"
  "upd_slock l g2 (acqd lk s2) = acqd lk (upd_slock l g2 s2)"
  "upd_buf b g3 (acqd lk s3) = acqd lk (upd_buf b g3 s3)"
  "upd_vq g4 (acqd lk s4) = acqd lk (upd_vq g4 s4)"
  "upd_desc d g5 (acqd lk s5) = acqd lk (upd_desc d g5 s5)"
  "set_bdata b g6 (acqd lk s6) = acqd lk (set_bdata b g6 s6)"
  "upd_inode i g7 (acqd lk s7) = acqd lk (upd_inode i g7 s7)"
  "upd_pipe q g8 (acqd lk s8) = acqd lk (upd_pipe q g8 s8)"
  "upd_file i g9 (acqd lk s9) = acqd lk (upd_file i g9 s9)"
  by (simp_all add: upd_defs lockrun)

lemma settled_upds [lockrun]:
  "settled (upd_proc p g0 s0) \<longleftrightarrow> settled s0"
  "settled (upd_cons g1 s1) \<longleftrightarrow> settled s1"
  "settled (upd_slock l g2 s2) \<longleftrightarrow> settled s2"
  "settled (upd_buf b g3 s3) \<longleftrightarrow> settled s3"
  "settled (upd_vq g4 s4) \<longleftrightarrow> settled s4"
  "settled (upd_desc d g5 s5) \<longleftrightarrow> settled s5"
  "settled (set_bdata b g6 s6) \<longleftrightarrow> settled s6"
  "settled (upd_inode i g7 s7) \<longleftrightarrow> settled s7"
  "settled (upd_pipe q g8 s8) \<longleftrightarrow> settled s8"
  "settled (upd_file i g9 s9) \<longleftrightarrow> settled s9"
  by (simp_all add: upd_defs lockrun)

lemma lock_free_upds [lockrun]:
  "lock_free lk (upd_proc p g0 s0) \<longleftrightarrow> lock_free lk s0"
  "lock_free lk (upd_cons g1 s1) \<longleftrightarrow> lock_free lk s1"
  "lock_free lk (upd_slock l g2 s2) \<longleftrightarrow> lock_free lk s2"
  "lock_free lk (upd_buf b g3 s3) \<longleftrightarrow> lock_free lk s3"
  "lock_free lk (upd_vq g4 s4) \<longleftrightarrow> lock_free lk s4"
  "lock_free lk (upd_desc d g5 s5) \<longleftrightarrow> lock_free lk s5"
  "lock_free lk (set_bdata b g6 s6) \<longleftrightarrow> lock_free lk s6"
  "lock_free lk (upd_inode i g7 s7) \<longleftrightarrow> lock_free lk s7"
  "lock_free lk (upd_pipe q g8 s8) \<longleftrightarrow> lock_free lk s8"
  "lock_free lk (upd_file i g9 s9) \<longleftrightarrow> lock_free lk s9"
  by (simp_all add: upd_defs lockrun)

lemma mycpu_upds [lockrun]:
  "mycpu (upd_proc p g0 s0) = mycpu s0"
  "mycpu (upd_cons g1 s1) = mycpu s1"
  "mycpu (upd_slock l g2 s2) = mycpu s2"
  "mycpu (upd_buf b g3 s3) = mycpu s3"
  "mycpu (upd_vq g4 s4) = mycpu s4"
  "mycpu (upd_desc d g5 s5) = mycpu s5"
  "mycpu (set_bdata b g6 s6) = mycpu s6"
  "mycpu (upd_inode i g7 s7) = mycpu s7"
  "mycpu (upd_pipe q g8 s8) = mycpu s8"
  "mycpu (upd_file i g9 s9) = mycpu s9"
  by (simp_all add: upd_defs lockrun)

lemma thishart_upds [lockrun]:
  "thishart (upd_proc p g0 s0) = thishart s0"
  "thishart (upd_cons g1 s1) = thishart s1"
  "thishart (upd_slock l g2 s2) = thishart s2"
  "thishart (upd_buf b g3 s3) = thishart s3"
  "thishart (upd_vq g4 s4) = thishart s4"
  "thishart (upd_desc d g5 s5) = thishart s5"
  "thishart (set_bdata b g6 s6) = thishart s6"
  "thishart (upd_inode i g7 s7) = thishart s7"
  "thishart (upd_pipe q g8 s8) = thishart s8"
  "thishart (upd_file i g9 s9) = thishart s9"
  by (simp_all add: upd_defs lockrun)

lemma cpus_upds [lockrun]:
  "cpus (upd_proc p g0 s0) = cpus s0"
  "cpus (upd_cons g1 s1) = cpus s1"
  "cpus (upd_slock l g2 s2) = cpus s2"
  "cpus (upd_buf b g3 s3) = cpus s3"
  "cpus (upd_vq g4 s4) = cpus s4"
  "cpus (upd_desc d g5 s5) = cpus s5"
  "cpus (set_bdata b g6 s6) = cpus s6"
  "cpus (upd_inode i g7 s7) = cpus s7"
  "cpus (upd_pipe q g8 s8) = cpus s8"
  "cpus (upd_file i g9 s9) = cpus s9"
  by (simp_all add: upd_defs lockrun)

lemma cur_hart_upds [lockrun]:
  "cur_hart (upd_proc p g0 s0) = cur_hart s0"
  "cur_hart (upd_cons g1 s1) = cur_hart s1"
  "cur_hart (upd_slock l g2 s2) = cur_hart s2"
  "cur_hart (upd_buf b g3 s3) = cur_hart s3"
  "cur_hart (upd_vq g4 s4) = cur_hart s4"
  "cur_hart (upd_desc d g5 s5) = cur_hart s5"
  "cur_hart (set_bdata b g6 s6) = cur_hart s6"
  "cur_hart (upd_inode i g7 s7) = cur_hart s7"
  "cur_hart (upd_pipe q g8 s8) = cur_hart s8"
  "cur_hart (upd_file i g9 s9) = cur_hart s9"
  by (simp_all add: upd_defs lockrun)

end
