(* ===== verification/Sleepwake.thy ===== *)
theory Sleepwake
  imports Proc
begin

text \<open>
  \<open>sleep\<close>, \<open>wakeup\<close> and the scheduler of \<open>kernel/proc.c\<close> running on several harts at once:
  any number of processes wait in a loop \<open>while(!condition) sleep(chan, lk)\<close> while another hart
  sets the condition under \<open>lk\<close> and calls \<open>wakeup(chan)\<close>.  The code is cut at the points where
  another hart can run.  No wakeup is lost, and every run ends with every process past its loop.
\<close>

section \<open>The steps\<close>

datatype who = Sleeper nat | Waker

text \<open>
  A sleeper is before the loop; tests the condition with \<open>lk\<close> held; has \<open>p->lock\<close> too; has
  released \<open>lk\<close>; has set \<open>p->chan\<close>; has set \<open>p->state\<close>; is switched out; is back in \<open>sleep\<close>;
  has released \<open>p->lock\<close>; is past the loop.
\<close>

datatype slpc = SOut | STest | SLocked | SUnlocked | SChan | SSched | SAsleep | SAwake | SReturn | SDone

text \<open>
  The waker is before its section; has \<open>lk\<close>; has set the condition and is about to look at
  process \<open>k\<close>; has the lock of \<open>k\<close>; has examined \<open>k\<close>; is done.
\<close>

datatype wkpc = WOut | WIn | WScan nat | WLook nat | WLooked nat | WDone

record swst =
  sl_pc :: "nat \<Rightarrow> slpc"
  wk_pc :: wkpc
  lk_owner :: "who option"
  pl_owner :: "nat \<Rightarrow> who option"
  condition :: bool
  pr_state :: "nat \<Rightarrow> procstate"
  pr_chan :: "nat \<Rightarrow> chan option"

inductive sw_step :: "nat \<Rightarrow> chan \<Rightarrow> swst \<Rightarrow> swst \<Rightarrow> bool" for n ch where
  enter: "i < n \<Longrightarrow> sl_pc s i = SOut \<Longrightarrow> lk_owner s = None \<Longrightarrow>
    sw_step n ch s (s\<lparr>sl_pc := (sl_pc s)(i := STest), lk_owner := Some (Sleeper i)\<rparr>)"
| pass: "i < n \<Longrightarrow> sl_pc s i = STest \<Longrightarrow> condition s \<Longrightarrow>
    sw_step n ch s (s\<lparr>sl_pc := (sl_pc s)(i := SDone), lk_owner := None\<rparr>)"
| lock_self: "i < n \<Longrightarrow> sl_pc s i = STest \<Longrightarrow> \<not> condition s \<Longrightarrow> pl_owner s i = None \<Longrightarrow>
    sw_step n ch s (s\<lparr>sl_pc := (sl_pc s)(i := SLocked), pl_owner := (pl_owner s)(i := Some (Sleeper i))\<rparr>)"
| unlock_lk: "i < n \<Longrightarrow> sl_pc s i = SLocked \<Longrightarrow>
    sw_step n ch s (s\<lparr>sl_pc := (sl_pc s)(i := SUnlocked), lk_owner := None\<rparr>)"
| set_chan: "i < n \<Longrightarrow> sl_pc s i = SUnlocked \<Longrightarrow>
    sw_step n ch s (s\<lparr>sl_pc := (sl_pc s)(i := SChan), pr_chan := (pr_chan s)(i := Some ch)\<rparr>)"
| set_state: "i < n \<Longrightarrow> sl_pc s i = SChan \<Longrightarrow>
    sw_step n ch s (s\<lparr>sl_pc := (sl_pc s)(i := SSched), pr_state := (pr_state s)(i := SLEEPING)\<rparr>)"
| switch_out: "i < n \<Longrightarrow> sl_pc s i = SSched \<Longrightarrow>
    sw_step n ch s (s\<lparr>sl_pc := (sl_pc s)(i := SAsleep), pl_owner := (pl_owner s)(i := None)\<rparr>)"
| switch_in: "i < n \<Longrightarrow> sl_pc s i = SAsleep \<Longrightarrow> pl_owner s i = None \<Longrightarrow> pr_state s i = RUNNABLE \<Longrightarrow>
    sw_step n ch s (s\<lparr>sl_pc := (sl_pc s)(i := SAwake), pl_owner := (pl_owner s)(i := Some (Sleeper i)),
      pr_state := (pr_state s)(i := RUNNING)\<rparr>)"
| unlock_self: "i < n \<Longrightarrow> sl_pc s i = SAwake \<Longrightarrow>
    sw_step n ch s (s\<lparr>sl_pc := (sl_pc s)(i := SReturn), pr_chan := (pr_chan s)(i := None),
      pl_owner := (pl_owner s)(i := None)\<rparr>)"
| relock: "i < n \<Longrightarrow> sl_pc s i = SReturn \<Longrightarrow> lk_owner s = None \<Longrightarrow>
    sw_step n ch s (s\<lparr>sl_pc := (sl_pc s)(i := STest), lk_owner := Some (Sleeper i)\<rparr>)"
| wk_lock: "wk_pc s = WOut \<Longrightarrow> lk_owner s = None \<Longrightarrow>
    sw_step n ch s (s\<lparr>wk_pc := WIn, lk_owner := Some Waker\<rparr>)"
| wk_set: "wk_pc s = WIn \<Longrightarrow> sw_step n ch s (s\<lparr>wk_pc := WScan 0, condition := True\<rparr>)"
| wk_lock_proc: "wk_pc s = WScan k \<Longrightarrow> k < NPROC \<Longrightarrow> pl_owner s k = None \<Longrightarrow>
    sw_step n ch s (s\<lparr>wk_pc := WLook k, pl_owner := (pl_owner s)(k := Some Waker)\<rparr>)"
| wk_wake: "wk_pc s = WLook k \<Longrightarrow> pr_state s k = SLEEPING \<and> pr_chan s k = Some ch \<Longrightarrow>
    sw_step n ch s (s\<lparr>wk_pc := WLooked k, pr_state := (pr_state s)(k := RUNNABLE)\<rparr>)"
| wk_skip: "wk_pc s = WLook k \<Longrightarrow> \<not> (pr_state s k = SLEEPING \<and> pr_chan s k = Some ch) \<Longrightarrow>
    sw_step n ch s (s\<lparr>wk_pc := WLooked k\<rparr>)"
| wk_next: "wk_pc s = WLooked k \<Longrightarrow>
    sw_step n ch s (s\<lparr>wk_pc := WScan (Suc k), pl_owner := (pl_owner s)(k := None)\<rparr>)"
| wk_unlock: "wk_pc s = WScan k \<Longrightarrow> NPROC \<le> k \<Longrightarrow>
    sw_step n ch s (s\<lparr>wk_pc := WDone, lk_owner := None\<rparr>)"

definition sw_init :: swst where
  "sw_init = \<lparr>sl_pc = (\<lambda>_. SOut), wk_pc = WOut, lk_owner = None, pl_owner = (\<lambda>_. None),
     condition = False, pr_state = (\<lambda>_. RUNNING), pr_chan = (\<lambda>_. None)\<rparr>"

abbreviation sw_reach :: "nat \<Rightarrow> chan \<Rightarrow> swst \<Rightarrow> bool" where
  "sw_reach n ch \<equiv> (sw_step n ch)\<^sup>*\<^sup>* sw_init"

section \<open>The invariant\<close>

text \<open>Who holds which lock, and which processes the waker has dealt with.\<close>

fun holds_lk :: "slpc \<Rightarrow> bool" where
  "holds_lk STest = True"
| "holds_lk SLocked = True"
| "holds_lk _ = False"

fun holds_pl :: "slpc \<Rightarrow> bool" where
  "holds_pl SLocked = True"
| "holds_pl SUnlocked = True"
| "holds_pl SChan = True"
| "holds_pl SSched = True"
| "holds_pl SAwake = True"
| "holds_pl _ = False"

fun wk_at :: "wkpc \<Rightarrow> nat \<Rightarrow> bool" where
  "wk_at (WLook k) i = (i = k)"
| "wk_at (WLooked k) i = (i = k)"
| "wk_at _ i = False"

fun wk_holds :: "wkpc \<Rightarrow> bool" where
  "wk_holds WOut = False"
| "wk_holds WDone = False"
| "wk_holds _ = True"

fun wk_set :: "wkpc \<Rightarrow> bool" where
  "wk_set WOut = False"
| "wk_set WIn = False"
| "wk_set _ = True"

fun wk_passed :: "wkpc \<Rightarrow> nat \<Rightarrow> bool" where
  "wk_passed (WScan k) i = (i < k)"
| "wk_passed (WLook k) i = (i < k)"
| "wk_passed (WLooked k) i = (i \<le> k)"
| "wk_passed WDone i = True"
| "wk_passed _ i = False"

lemma wk_passed_set: "\<not> wk_set w \<Longrightarrow> \<not> wk_passed w i"
  by (cases w) simp_all

text \<open>What holds of one sleeper.\<close>

definition sw_ok :: "chan \<Rightarrow> nat \<Rightarrow> slpc \<Rightarrow> wkpc \<Rightarrow> bool \<Rightarrow> who option \<Rightarrow> bool \<Rightarrow> procstate \<Rightarrow> chan option \<Rightarrow> bool" where
  "sw_ok ch i pc wk lk pl cnd st cn \<longleftrightarrow>
     (lk \<longleftrightarrow> holds_lk pc) \<and>
     pl = (if holds_pl pc then Some (Sleeper i) else if wk_at wk i then Some Waker else None) \<and>
     (holds_pl pc \<longrightarrow> \<not> wk_at wk i) \<and>
     (case pc of
        SLocked \<Rightarrow> st \<noteq> SLEEPING \<and> \<not> wk_passed wk i
      | SUnlocked \<Rightarrow> st \<noteq> SLEEPING \<and> \<not> wk_passed wk i
      | SChan \<Rightarrow> st \<noteq> SLEEPING \<and> \<not> wk_passed wk i \<and> cn = Some ch
      | SSched \<Rightarrow> st = SLEEPING \<and> \<not> wk_passed wk i \<and> cn = Some ch
      | SAsleep \<Rightarrow> cn = Some ch \<and> (st = SLEEPING \<and> \<not> wk_passed wk i \<or> st = RUNNABLE \<and> cnd)
      | SAwake \<Rightarrow> st \<noteq> SLEEPING \<and> cnd
      | SReturn \<Rightarrow> st \<noteq> SLEEPING \<and> cnd
      | SDone \<Rightarrow> st \<noteq> SLEEPING \<and> cnd
      | _ \<Rightarrow> st \<noteq> SLEEPING)"

abbreviation sl_ok :: "chan \<Rightarrow> swst \<Rightarrow> nat \<Rightarrow> bool" where
  "sl_ok ch s i \<equiv> sw_ok ch i (sl_pc s i) (wk_pc s) (lk_owner s = Some (Sleeper i)) (pl_owner s i) (condition s)
     (pr_state s i) (pr_chan s i)"

definition sw_glob :: "nat \<Rightarrow> swst \<Rightarrow> bool" where
  "sw_glob n s \<longleftrightarrow> n \<le> NPROC \<and> (condition s \<longleftrightarrow> wk_set (wk_pc s)) \<and> (lk_owner s = Some Waker \<longleftrightarrow> wk_holds (wk_pc s)) \<and>
     (\<forall>i. lk_owner s = Some (Sleeper i) \<longrightarrow> i < n) \<and>
     (\<forall>i \<ge> n. pl_owner s i = (if wk_at (wk_pc s) i then Some Waker else None)) \<and>
     (\<forall>k. wk_at (wk_pc s) k \<longrightarrow> k < NPROC)"

definition sw_inv :: "nat \<Rightarrow> chan \<Rightarrow> swst \<Rightarrow> bool" where
  "sw_inv n ch s \<longleftrightarrow> (\<forall>i < n. sl_ok ch s i) \<and> sw_glob n s"

lemma sl_ok_lk: "sl_ok ch s i \<Longrightarrow> lk_owner s = Some (Sleeper i) \<longleftrightarrow> holds_lk (sl_pc s i)"
  by (simp add: sw_ok_def)

lemma sw_inv_init: "n \<le> NPROC \<Longrightarrow> sw_inv n ch sw_init"
  by (simp add: sw_inv_def sw_ok_def sw_glob_def sw_init_def)

lemma sw_inv_ok: "sw_inv n ch s \<Longrightarrow> i < n \<Longrightarrow> sl_ok ch s i"
  by (simp add: sw_inv_def)

text \<open>A step of sleeper \<open>i\<close> needs to be checked for \<open>i\<close> only.\<close>

lemma sleeper_move:
  assumes inv: "sw_inv n ch s" and "i < n"
    and other: "wk_pc s' = wk_pc s" "condition s' = condition s"
      "\<And>j. j \<noteq> i \<Longrightarrow> sl_pc s' j = sl_pc s j \<and> pl_owner s' j = pl_owner s j \<and> pr_state s' j = pr_state s j \<and> pr_chan s' j = pr_chan s j"
    and lk: "lk_owner s' = (if holds_lk (sl_pc s' i) then Some (Sleeper i) else if holds_lk (sl_pc s i) then None else lk_owner s)"
      "holds_lk (sl_pc s' i) \<Longrightarrow> holds_lk (sl_pc s i) \<or> lk_owner s = None"
    and i: "sl_ok ch s' i"
  shows "sw_inv n ch s'"
  unfolding sw_inv_def
proof (intro conjI allI impI)
  have own: "lk_owner s = Some (Sleeper i) \<longleftrightarrow> holds_lk (sl_pc s i)"
    using sl_ok_lk [OF sw_inv_ok [OF inv \<open>i < n\<close>]] .
  fix j assume "j < n"
  show "sl_ok ch s' j"
  proof (cases "j = i")
    case False
    have "sl_ok ch s j" using inv \<open>j < n\<close> by (simp add: sw_inv_def)
    moreover have "lk_owner s' = Some (Sleeper j) \<longleftrightarrow> lk_owner s = Some (Sleeper j)"
      using lk own False by auto
    ultimately show ?thesis using other(1,2) other(3) [OF False] by simp
  qed (use i in simp)
next
  have own: "lk_owner s = Some (Sleeper i) \<longleftrightarrow> holds_lk (sl_pc s i)"
    using sl_ok_lk [OF sw_inv_ok [OF inv \<open>i < n\<close>]] .
  have g: "sw_glob n s" using inv by (simp add: sw_inv_def)
  have "lk_owner s' = Some Waker \<longleftrightarrow> lk_owner s = Some Waker"
    using lk own by auto
  moreover have "lk_owner s' = Some (Sleeper j) \<Longrightarrow> j < n" for j
    using lk g \<open>i < n\<close> by (auto simp: sw_glob_def split: if_splits)
  moreover have "pl_owner s' j = pl_owner s j" if "n \<le> j" for j
    using other(3) [of j] that \<open>i < n\<close> by auto
  ultimately show "sw_glob n s'"
    using g other(1,2) by (simp add: sw_glob_def)
qed

lemma sw_inv_sleeper: "sw_inv n ch s \<Longrightarrow> i < n \<Longrightarrow> sl_ok ch s i \<and> (condition s \<longleftrightarrow> wk_set (wk_pc s)) \<and>
    (lk_owner s = Some Waker \<longleftrightarrow> wk_holds (wk_pc s))"
  unfolding sw_inv_def sw_glob_def by blast

text \<open>A step of the waker is checked for every sleeper at every point of its code.\<close>

lemma waker_move:
  assumes "sw_inv n ch s" and "sw_glob n s'"
    and "\<And>j. j < n \<Longrightarrow> sl_ok ch s j \<Longrightarrow> sl_ok ch s' j"
  shows "sw_inv n ch s'"
  using assms unfolding sw_inv_def by blast

lemma sw_inv_step: "sw_step n ch s s' \<Longrightarrow> sw_inv n ch s \<Longrightarrow> sw_inv n ch s'"
proof (induction rule: sw_step.induct)
  case (enter i s)
  with sw_inv_sleeper [OF enter.prems enter.hyps(1)] show ?case
    by (intro sleeper_move [OF enter.prems enter.hyps(1)]) (auto simp: sw_ok_def wk_passed_set split: if_splits)
next
  case (pass i s)
  with sw_inv_sleeper [OF pass.prems pass.hyps(1)] show ?case
    by (intro sleeper_move [OF pass.prems pass.hyps(1)]) (auto simp: sw_ok_def wk_passed_set split: if_splits)
next
  case (lock_self i s)
  with sw_inv_sleeper [OF lock_self.prems lock_self.hyps(1)] show ?case
    by (intro sleeper_move [OF lock_self.prems lock_self.hyps(1)]) (auto simp: sw_ok_def wk_passed_set split: if_splits)
next
  case (unlock_lk i s)
  with sw_inv_sleeper [OF unlock_lk.prems unlock_lk.hyps(1)] show ?case
    by (intro sleeper_move [OF unlock_lk.prems unlock_lk.hyps(1)]) (auto simp: sw_ok_def wk_passed_set split: if_splits)
next
  case (set_chan i s)
  with sw_inv_sleeper [OF set_chan.prems set_chan.hyps(1)] show ?case
    by (intro sleeper_move [OF set_chan.prems set_chan.hyps(1)]) (auto simp: sw_ok_def wk_passed_set split: if_splits)
next
  case (set_state i s)
  with sw_inv_sleeper [OF set_state.prems set_state.hyps(1)] show ?case
    by (intro sleeper_move [OF set_state.prems set_state.hyps(1)]) (auto simp: sw_ok_def wk_passed_set split: if_splits)
next
  case (switch_out i s)
  with sw_inv_sleeper [OF switch_out.prems switch_out.hyps(1)] show ?case
    by (intro sleeper_move [OF switch_out.prems switch_out.hyps(1)]) (auto simp: sw_ok_def wk_passed_set split: if_splits)
next
  case (switch_in i s)
  with sw_inv_sleeper [OF switch_in.prems switch_in.hyps(1)] show ?case
    by (intro sleeper_move [OF switch_in.prems switch_in.hyps(1)]) (auto simp: sw_ok_def wk_passed_set split: if_splits)
next
  case (unlock_self i s)
  with sw_inv_sleeper [OF unlock_self.prems unlock_self.hyps(1)] show ?case
    by (intro sleeper_move [OF unlock_self.prems unlock_self.hyps(1)]) (auto simp: sw_ok_def wk_passed_set split: if_splits)
next
  case (relock i s)
  with sw_inv_sleeper [OF relock.prems relock.hyps(1)] show ?case
    by (intro sleeper_move [OF relock.prems relock.hyps(1)]) (auto simp: sw_ok_def wk_passed_set split: if_splits)
next
  case (wk_lock s)
  then have "sw_glob n s" by (simp only: sw_inv_def)
  with wk_lock show ?case
    by (intro waker_move [OF wk_lock.prems]) (auto simp: sw_ok_def sw_glob_def split: slpc.splits if_splits)
next
  case (wk_set s)
  then have "sw_glob n s" by (simp only: sw_inv_def)
  with wk_set show ?case
    by (intro waker_move [OF wk_set.prems]) (auto simp: sw_ok_def sw_glob_def split: slpc.splits if_splits)
next
  case (wk_lock_proc s k)
  then have "sw_glob n s" by (simp only: sw_inv_def)
  with wk_lock_proc show ?case
    by (intro waker_move [OF wk_lock_proc.prems]) (auto simp: sw_ok_def sw_glob_def split: slpc.splits if_splits)
next
  case (wk_wake s k)
  then have "sw_glob n s" by (simp only: sw_inv_def)
  with wk_wake show ?case
    by (intro waker_move [OF wk_wake.prems]) (auto simp: sw_ok_def sw_glob_def split: slpc.splits if_splits)
next
  case (wk_skip s k)
  then have "sw_glob n s" by (simp only: sw_inv_def)
  with wk_skip show ?case
    by (intro waker_move [OF wk_skip.prems]) (auto simp: sw_ok_def sw_glob_def split: slpc.splits if_splits)
next
  case (wk_next s k)
  then have "sw_glob n s" by (simp only: sw_inv_def)
  with wk_next show ?case
    by (intro waker_move [OF wk_next.prems]) (auto simp: sw_ok_def sw_glob_def split: slpc.splits if_splits)
next
  case (wk_unlock s k)
  then have "sw_glob n s" by (simp only: sw_inv_def)
  with wk_unlock show ?case
    by (intro waker_move [OF wk_unlock.prems]) (auto simp: sw_ok_def sw_glob_def split: slpc.splits if_splits)
qed

lemma sw_inv_reach: "sw_reach n ch s \<Longrightarrow> n \<le> NPROC \<Longrightarrow> sw_inv n ch s"
  by (induction rule: rtranclp_induct) (auto intro: sw_inv_init sw_inv_step)

section \<open>Progress\<close>

lemma lk_holder_steps:
  assumes inv: "sw_inv n ch s" and own: "lk_owner s = Some (Sleeper i)"
  shows "\<exists>s'. sw_step n ch s s'"
proof -
  have i: "i < n" using inv own by (auto simp: sw_inv_def sw_glob_def)
  have ok: "sl_ok ch s i" using inv i by (rule sw_inv_ok)
  have nw: "\<not> wk_holds (wk_pc s)" using sw_inv_sleeper [OF inv i] own by auto
  from nw have wk: "\<not> wk_at (wk_pc s) i" by (cases "wk_pc s") simp_all
  from sl_ok_lk [OF ok] own have "sl_pc s i = STest \<or> sl_pc s i = SLocked"
    by (cases "sl_pc s i") simp_all
  then show ?thesis
  proof
    assume t: "sl_pc s i = STest"
    then have "pl_owner s i = None" using ok wk by (simp add: sw_ok_def)
    then show ?thesis using sw_step.pass [OF i t] sw_step.lock_self [OF i t] by blast
  qed (use sw_step.unlock_lk [OF i] in blast)
qed

lemma pl_holder_steps:
  assumes "i < n" "holds_pl (sl_pc s i)"
  shows "\<exists>s'. sw_step n ch s s'"
proof -
  from assms(2) consider "sl_pc s i = SLocked" | "sl_pc s i = SUnlocked" | "sl_pc s i = SChan" | "sl_pc s i = SSched"
    | "sl_pc s i = SAwake" by (cases "sl_pc s i") simp_all
  then show ?thesis
    using assms(1) by cases (blast intro: sw_step.intros)+
qed

lemma waker_steps:
  assumes inv: "sw_inv n ch s" and h: "wk_holds (wk_pc s)"
  shows "\<exists>s'. sw_step n ch s s'"
proof (cases "wk_pc s")
  case (WScan k)
  show ?thesis
  proof (cases "k < NPROC \<and> pl_owner s k \<noteq> None")
    case True
    then have "k < n" using inv WScan by (auto simp: sw_inv_def sw_glob_def not_less [symmetric])
    moreover from this have "holds_pl (sl_pc s k)"
      using sw_inv_ok [OF inv] True WScan by (fastforce simp: sw_ok_def split: if_splits)
    ultimately show ?thesis by (rule pl_holder_steps)
  next
    case False
    then show ?thesis using sw_step.wk_lock_proc [OF WScan] sw_step.wk_unlock [OF WScan] by fastforce
  qed
next
  case (WLook k)
  then show ?thesis using sw_step.wk_wake [OF WLook] sw_step.wk_skip [OF WLook] by blast
next
  case (WLooked k)
  then show ?thesis using sw_step.wk_next by blast
qed (use h sw_step.wk_set in auto)

lemma lk_free_or_steps:
  assumes "sw_inv n ch s" and "lk_owner s = None \<Longrightarrow> \<exists>s'. sw_step n ch s s'"
  shows "\<exists>s'. sw_step n ch s s'"
proof (cases "lk_owner s")
  case (Some w)
  show ?thesis
  proof (cases w)
    case (Sleeper i)
    then show ?thesis using lk_holder_steps [OF assms(1)] Some by blast
  next
    case Waker
    then have "wk_holds (wk_pc s)" using assms(1) Some by (simp add: sw_inv_def sw_glob_def)
    then show ?thesis by (rule waker_steps [OF assms(1)])
  qed
qed (use assms(2) in simp)

lemma asleep_steps:
  assumes inv: "sw_inv n ch s" and i: "i < n" and p: "sl_pc s i = SAsleep"
  shows "\<exists>s'. sw_step n ch s s'"
proof -
  have ok: "sl_ok ch s i" using inv i by (rule sw_inv_ok)
  show ?thesis
  proof (cases "wk_holds (wk_pc s)")
    case True
    then show ?thesis by (rule waker_steps [OF inv])
  next
    case False
    then have wk: "wk_pc s = WOut \<or> wk_pc s = WDone" by (cases "wk_pc s") simp_all
    show ?thesis
    proof (cases "pr_state s i = RUNNABLE")
      case True
      have "pl_owner s i = None" using ok p wk by (auto simp: sw_ok_def)
      from sw_step.switch_in [OF i p this True] show ?thesis by blast
    next
      case False
      with ok p wk have "wk_pc s = WOut" by (auto simp: sw_ok_def)
      then show ?thesis using sw_step.wk_lock lk_free_or_steps [OF inv] by blast
    qed
  qed
qed

lemma sw_progress:
  assumes inv: "sw_inv n ch s" and i: "i < n" and p: "sl_pc s i \<noteq> SDone"
  shows "\<exists>s'. sw_step n ch s s'"
proof (cases "sl_pc s i")
  case SOut
  then show ?thesis using sw_step.enter [OF i] lk_free_or_steps [OF inv] by blast
next
  case SReturn
  then show ?thesis using sw_step.relock [OF i] lk_free_or_steps [OF inv] by blast
next
  case STest
  then show ?thesis using lk_holder_steps [OF inv, of i] sl_ok_lk [OF sw_inv_ok [OF inv i]] by simp
next
  case SAsleep
  then show ?thesis by (rule asleep_steps [OF inv i])
qed (use p pl_holder_steps [OF i] in auto)

section \<open>Termination\<close>

fun sl_weight :: "bool \<Rightarrow> slpc \<Rightarrow> nat" where
  "sl_weight c SOut = 20"
| "sl_weight c STest = (if c then 1 else 19)"
| "sl_weight c SLocked = 18"
| "sl_weight c SUnlocked = 17"
| "sl_weight c SChan = 16"
| "sl_weight c SSched = 15"
| "sl_weight c SAsleep = 14"
| "sl_weight c SAwake = 4"
| "sl_weight c SReturn = 3"
| "sl_weight c SDone = 0"

fun wk_weight :: "wkpc \<Rightarrow> nat" where
  "wk_weight WOut = 3 * NPROC + 4"
| "wk_weight WIn = 3 * NPROC + 3"
| "wk_weight (WScan k) = 3 * (NPROC - k) + 2"
| "wk_weight (WLook k) = 3 * (NPROC - k) + 1"
| "wk_weight (WLooked k) = 3 * (NPROC - k)"
| "wk_weight WDone = 0"

definition sw_weight :: "nat \<Rightarrow> swst \<Rightarrow> nat" where
  "sw_weight n s = (\<Sum>i < n. sl_weight (condition s) (sl_pc s i)) + wk_weight (wk_pc s)"

lemma sl_weight_drop:
  assumes "(i :: nat) < n" and "sl_weight c pc < sl_weight c (f i)"
  shows "(\<Sum>j < n. sl_weight c ((f(i := pc)) j)) < (\<Sum>j < n. sl_weight c (f j))"
  by (rule sum_strict_mono_ex1) (use assms in auto)

lemma sl_weight_set: "(\<Sum>i < n. sl_weight True (f i)) \<le> (\<Sum>i < n. sl_weight c (f i))"
proof (rule sum_mono)
  fix i show "sl_weight True (f i) \<le> sl_weight c (f i)" by (cases "f i") simp_all
qed

lemma sw_weight_step:
  assumes "sw_step n ch s s'" and "sw_inv n ch s"
  shows "sw_weight n s' < sw_weight n s"
  using assms
proof (induction rule: sw_step.induct)
  case (relock i s)
  then have "condition s" using sw_inv_ok [OF relock.prems relock.hyps(1)] by (simp add: sw_ok_def)
  with relock show ?case by (simp add: sw_weight_def sl_weight_drop del: fun_upd_apply)
next
  case (wk_set s)
  then show ?case using sl_weight_set [where c = "condition s" and f = "sl_pc s" and n = n] by (simp add: sw_weight_def)
next
  case (wk_next s k)
  then have "k < NPROC" by (auto simp: sw_inv_def sw_glob_def)
  with wk_next show ?case by (simp add: sw_weight_def)
qed (simp_all add: sw_weight_def sl_weight_drop del: fun_upd_apply)

section \<open>Properties\<close>

text \<open>A run in which process 0 goes to sleep and is woken.\<close>

definition demo_sw :: "slpc \<Rightarrow> wkpc \<Rightarrow> who option \<Rightarrow> who option \<Rightarrow> bool \<Rightarrow> procstate \<Rightarrow> chan option \<Rightarrow> swst" where
  "demo_sw pc wk lk pl c st cn = \<lparr>sl_pc = (\<lambda>_. SOut)(0 := pc), wk_pc = wk, lk_owner = lk,
     pl_owner = (\<lambda>_. None)(0 := pl), condition = c, pr_state = (\<lambda>_. RUNNING)(0 := st), pr_chan = (\<lambda>_. None)(0 := cn)\<rparr>"

lemma demo_sw_init: "sw_init = demo_sw SOut WOut None None False RUNNING None"
  by (simp add: sw_init_def demo_sw_def fun_eq_iff)

lemma demo_sw_woken:
  "sw_reach 1 ChanTicks (demo_sw SAsleep (WLooked 0) (Some Waker) (Some Waker) True RUNNABLE (Some ChanTicks))"
proof -
  let ?R = "\<lambda>s. sw_reach 1 ChanTicks s" and ?me = "Some (Sleeper 0)"
  note step = rtranclp.rtrancl_into_rtrancl [of "sw_step 1 ChanTicks" sw_init]
  have s1: "?R (demo_sw STest WOut ?me None False RUNNING None)"
    using step [OF rtranclp.rtrancl_refl sw_step.enter [of 0]] by (simp add: demo_sw_init) (simp add: demo_sw_def)
  have s2: "?R (demo_sw SLocked WOut ?me ?me False RUNNING None)"
    using step [OF s1 sw_step.lock_self [of 0]] by (simp add: demo_sw_def)
  have s3: "?R (demo_sw SUnlocked WOut None ?me False RUNNING None)"
    using step [OF s2 sw_step.unlock_lk [of 0]] by (simp add: demo_sw_def)
  have s4: "?R (demo_sw SChan WOut None ?me False RUNNING (Some ChanTicks))"
    using step [OF s3 sw_step.set_chan [of 0]] by (simp add: demo_sw_def)
  have s5: "?R (demo_sw SSched WOut None ?me False SLEEPING (Some ChanTicks))"
    using step [OF s4 sw_step.set_state [of 0]] by (simp add: demo_sw_def)
  have s6: "?R (demo_sw SAsleep WOut None None False SLEEPING (Some ChanTicks))"
    using step [OF s5 sw_step.switch_out [of 0]] by (simp add: demo_sw_def)
  have s7: "?R (demo_sw SAsleep WIn (Some Waker) None False SLEEPING (Some ChanTicks))"
    using step [OF s6 sw_step.wk_lock] by (simp add: demo_sw_def)
  have s8: "?R (demo_sw SAsleep (WScan 0) (Some Waker) None True SLEEPING (Some ChanTicks))"
    using step [OF s7 sw_step.wk_set] by (simp add: demo_sw_def)
  have s9: "?R (demo_sw SAsleep (WLook 0) (Some Waker) (Some Waker) True SLEEPING (Some ChanTicks))"
    using step [OF s8 sw_step.wk_lock_proc [of _ 0]] by (simp add: demo_sw_def NPROC_def)
  show ?thesis
    using step [OF s9 sw_step.wk_wake [of _ 0]] by (simp add: demo_sw_def)
qed

text \<open>
  (C21) No wakeup is lost: in every state the processes and the waker can reach, however their steps
  interleave, once \<open>wakeup\<close> has looked at a process (all of them when it has returned) that
  process is not asleep on the channel any more unless it is already runnable.
\<close>

theorem no_lost_wakeup:
  assumes "n \<le> NPROC" and "sw_reach n ch s" and "i < n" and "wk_passed (wk_pc s) i"
  shows "pr_state s i \<noteq> SLEEPING \<and> (sl_pc s i = SAsleep \<longrightarrow> pr_state s i = RUNNABLE)"
  using sw_inv_ok [OF sw_inv_reach [OF assms(2,1)] assms(3)] assms(4)
  by (cases "sl_pc s i") (auto simp: sw_ok_def)

theorem no_lost_wakeup_witness:
  "pr_state (demo_sw SAsleep (WLooked 0) (Some Waker) (Some Waker) True RUNNABLE (Some ChanTicks)) 0 \<noteq> SLEEPING"
  using no_lost_wakeup [OF _ demo_sw_woken, of 0] by (simp add: NPROC_def demo_sw_def)

text \<open>
  (C22) Every process gets past its loop: no run of the processes and the waker goes on for ever, and
  a run stops only when every process has seen the condition and released the lock.
\<close>

theorem sleepers_all_pass:
  assumes "n \<le> NPROC"
  shows "wfp (\<lambda>s' s. sw_reach n ch s \<and> sw_step n ch s s') \<and>
    (\<forall>s. sw_reach n ch s \<and> (\<nexists>s'. sw_step n ch s s') \<longrightarrow> (\<forall>i < n. sl_pc s i = SDone))"
proof (intro conjI allI impI)
  show "wfp (\<lambda>s' s. sw_reach n ch s \<and> sw_step n ch s s')"
    by (rule wfp_if_convertible_to_nat [of _ "sw_weight n"])
      (use sw_weight_step sw_inv_reach [OF _ assms] in blast)
  show "sl_pc s i = SDone" if "sw_reach n ch s \<and> (\<nexists>s'. sw_step n ch s s')" "i < n" for s i
    using that sw_progress [OF sw_inv_reach [OF _ assms]] by blast
qed

theorem sleepers_all_pass_witness:
  "(64 :: nat) \<le> NPROC \<and> wfp (\<lambda>s' s. sw_reach 64 ChanTicks s \<and> sw_step 64 ChanTicks s s')"
  using sleepers_all_pass [of 64 ChanTicks] by (simp add: NPROC_def)

end
