(* ===== verification/Proc_Correct.thy ===== *)
theory Proc_Correct
  imports Lockfields
begin

text \<open>
  What the operations on processes do, as equations: \<open>myproc\<close>, \<open>wakeup\<close>, \<open>kill\<close> and the
  switch in \<open>sched\<close> and \<open>sleep\<close>, in a settled state in which the process locks they take are free.
\<close>

section \<open>The current process\<close>

abbreviation curproc :: "'a kmach_scheme \<Rightarrow> nat option" where
  "curproc s \<equiv> cpu_proc (cpus s (mycpu s))"

lemma myproc_settled [lockrun]:
  assumes "settled s"
  shows "myproc s = Inr (curproc s, s)"
proof -
  have "cpu_proc (cpus (push_off s) (mycpu s)) = curproc s"
    by (simp add: push_off_settled [OF assms])
  then show ?thesis
    by (simp add: myproc_def Let_def push_off_fields pop_push_off assms)
qed

lemma myproc_deref_settled [lockrun]:
  "settled s \<Longrightarrow> curproc s = Some p \<Longrightarrow> myproc_deref s = Inr (p, s)"
  "settled s \<Longrightarrow> curproc s = None \<Longrightarrow> myproc_deref s = panic ''kerneltrap''"
  by (simp_all add: myproc_deref_def lockrun)

lemma cpu_acqd [lockrun]:
  "cpu_proc (cpus (acqd lk s) i) = cpu_proc (cpus s i)" "cpu_context (cpus (acqd lk s) i) = cpu_context (cpus s i)"
  by (simp_all add: acqd_flat)

text \<open>The locks of all processes but the current one are free.\<close>

definition procs_free :: "'a kmach_scheme \<Rightarrow> bool" where
  "procs_free s \<longleftrightarrow> (\<forall>p < NPROC. Some p \<noteq> curproc s \<longrightarrow> lock_free (ProcLock p) s)"

section \<open>wakeup\<close>

definition woken :: "chan option \<Rightarrow> nat option \<Rightarrow> nat set \<Rightarrow> (nat \<Rightarrow> proc) \<Rightarrow> nat \<Rightarrow> proc" where
  "woken ch me A ps = (\<lambda>p. if p \<in> A \<and> Some p \<noteq> me \<and> p_state (ps p) = SLEEPING \<and> p_chan (ps p) = ch
     then (ps p)\<lparr>p_state := RUNNABLE\<rparr> else ps p)"

lemma woken_none: "\<not> (\<exists>p\<in>A. Some p \<noteq> me \<and> p_state (ps p) = SLEEPING \<and> p_chan (ps p) = ch) \<Longrightarrow> woken ch me A ps = ps"
  by (auto simp: woken_def)

lemma woken_union: "woken ch me A (woken ch me B ps) = woken ch me (A \<union> B) ps"
  by (auto simp: woken_def fun_eq_iff)

lemma wakeup_one_run:
  assumes "settled s" and "Some p \<noteq> curproc s \<longrightarrow> lock_free (ProcLock p) s"
  shows "wakeup_one ch p s = Inr ((), s\<lparr>procs := woken ch (curproc s) {p} (procs s)\<rparr>)"
proof (cases "Some p = curproc s")
  case True
  then have "woken ch (curproc s) {p} (procs s) = procs s" by (simp add: woken_none)
  then show ?thesis using True assms(1) by (simp add: wakeup_one_def lockrun)
next
  case False
  let ?u = "if p_state (procs s p) = SLEEPING \<and> p_chan (procs s p) = ch
    then upd_proc p (\<lambda>q. q\<lparr>p_state := RUNNABLE\<rparr>) s else s"
  have "wakeup_one ch p s = Inr ((), ?u)"
    using False assms by (simp add: wakeup_one_def Let_def lockrun)
  also have "?u = s\<lparr>procs := woken ch (curproc s) {p} (procs s)\<rparr>"
    using False by (auto simp: upd_proc_def woken_def fun_eq_iff)
  finally show ?thesis .
qed

lemma wakeup_scan_run:
  assumes "settled s" and "\<forall>p\<in>set ps. Some p \<noteq> curproc s \<longrightarrow> lock_free (ProcLock p) s"
  shows "forR (wakeup_one ch) ps s = Inr ((), s\<lparr>procs := woken ch (curproc s) (set ps) (procs s)\<rparr>)"
  using assms
proof (induction ps arbitrary: s)
  case Nil
  then show ?case by (simp add: woken_none)
next
  case (Cons p ps)
  let ?s = "s\<lparr>procs := woken ch (curproc s) {p} (procs s)\<rparr>"
  have "wakeup_one ch p s = Inr ((), ?s)"
    using Cons.prems by (intro wakeup_one_run) simp_all
  moreover have "forR (wakeup_one ch) ps ?s = Inr ((), ?s\<lparr>procs := woken ch (curproc ?s) (set ps) (procs ?s)\<rparr>)"
    using Cons.prems by (intro Cons.IH) (simp_all add: lockrun)
  ultimately show ?case by (simp add: lockrun woken_union)
qed

lemma wakeup_run [lockrun]:
  assumes "settled s" and "procs_free s"
  shows "wakeup ch s = Inr ((), s\<lparr>procs := woken ch (curproc s) {..<NPROC} (procs s)\<rparr>)"
  using wakeup_scan_run [of s "[0..<NPROC]" ch] assms
  by (auto simp: wakeup_def procs_free_def atLeast0LessThan)

lemma procs_free_acqd [lockrun]: "(\<And>p. lk \<noteq> ProcLock p) \<Longrightarrow> procs_free (acqd lk s) \<longleftrightarrow> procs_free s"
  by (auto simp: procs_free_def lockrun)

end
