(* ===== verification/Ring.thy ===== *)
theory Ring
  imports Xv6_Prelude
begin

text \<open>
  Ring buffers with free-running indices, as pipes, the console and the UART driver keep them:
  \<open>r\<close> and \<open>w\<close> are words that wrap, the slot is the index modulo the size, and the size divides
  the range of the words.  \<open>fifo\<close> is what the users of such a buffer rely on.
\<close>

section \<open>Index arithmetic\<close>

definition ring_list :: "nat \<Rightarrow> 'b list \<Rightarrow> 'w::len word \<Rightarrow> 'w word \<Rightarrow> 'b list" where
  "ring_list N d r w = map (\<lambda>i. d ! ((unat r + i) mod N)) [0..<unat (w - r)]"

definition ring_ok :: "nat \<Rightarrow> 'b list \<Rightarrow> 'w::len word \<Rightarrow> 'w word \<Rightarrow> bool" where
  "ring_ok N d r w \<longleftrightarrow> 0 < N \<and> N dvd 2 ^ LENGTH('w) \<and> length d = N \<and> unat (w - r) \<le> N"

lemma length_ring_list [simp]: "length (ring_list N d r w) = unat (w - r)"
  by (simp add: ring_list_def)

lemma ring_end:
  fixes r w :: "'w::len word"
  assumes "N dvd 2 ^ LENGTH('w)"
  shows "(unat r + unat (w - r)) mod N = unat w mod N"
proof -
  have "unat w = unat (r + (w - r))" by simp
  also have "\<dots> = (unat r + unat (w - r)) mod 2 ^ LENGTH('w)" by (rule unat_word_ariths(1))
  finally show ?thesis using assms by (simp add: mod_mod_cancel)
qed

lemma ring_slots_differ:
  assumes "i < k" "k < N" 
  shows "(a + i) mod N \<noteq> (a + k) mod (N :: nat)"
proof
  assume "(a + i) mod N = (a + k) mod N"
  then have "N dvd (a + k) - (a + i)" using assms by (metis mod_eq_dvd_iff_nat add_left_mono less_imp_le)
  then show False using assms by (auto dest: dvd_imp_le)
qed

lemma unat_plus_one_diff:
  fixes r w :: "'w::len word"
  assumes "Suc (unat (w - r)) < 2 ^ LENGTH('w)"
  shows "unat (w + 1 - r) = Suc (unat (w - r))"
proof -
  have "w + 1 - r = (w - r) + 1" by (simp add: algebra_simps)
  then have "unat (w + 1 - r) = (unat (w - r) + unat (1 :: 'w word)) mod 2 ^ LENGTH('w)"
    by (simp only: unat_word_ariths(1))
  moreover have "unat (1 :: 'w word) = 1" by simp
  ultimately show ?thesis using assms by simp
qed

lemma ring_push:
  fixes r w :: "'w::len word"
  assumes ok: "ring_ok N d r w" and room: "unat (w - r) < N" and small: "N < 2 ^ LENGTH('w)"
  shows "ring_ok N (d[unat w mod N := c]) r (w + 1)"
    and "ring_list N (d[unat w mod N := c]) r (w + 1) = ring_list N d r w @ [c]"
proof -
  have len: "unat (w + 1 - r) = Suc (unat (w - r))"
    using room small by (intro unat_plus_one_diff) simp
  then show "ring_ok N (d[unat w mod N := c]) r (w + 1)"
    using ok room by (simp add: ring_ok_def)
  have N: "0 < N" "length d = N" and e: "(unat r + unat (w - r)) mod N = unat w mod N"
    using ok by (simp_all add: ring_ok_def ring_end)
  have "d[unat w mod N := c] ! ((unat r + i) mod N) = d ! ((unat r + i) mod N)" if "i < unat (w - r)" for i
    using ring_slots_differ [OF that room, of "unat r"] by (simp add: e)
  moreover have "d[unat w mod N := c] ! ((unat r + unat (w - r)) mod N) = c"
    using N by (simp add: e)
  ultimately show "ring_list N (d[unat w mod N := c]) r (w + 1) = ring_list N d r w @ [c]"
    by (simp add: ring_list_def len)
qed

lemma unat_diff_Suc:
  fixes r w :: "'w::len word"
  assumes "r \<noteq> w"
  shows "unat (w - r) = Suc (unat (w - (r + 1)))"
proof -
  have "w - r \<noteq> 0" using assms by simp
  then show ?thesis by (metis diff_diff_eq unat_minus_one Suc_pred' unat_gt_0 gr0I unat_eq_zero)
qed

lemma ring_pop:
  fixes r w :: "'w::len word"
  assumes ok: "ring_ok N d r w" and ne: "r \<noteq> w"
  shows "ring_ok N d (r + 1) w"
    and "ring_list N d r w = d ! (unat r mod N) # ring_list N d (r + 1) w"
proof -
  have len: "unat (w - r) = Suc (unat (w - (r + 1)))" using ne by (rule unat_diff_Suc)
  then show "ring_ok N d (r + 1) w"
    using ok by (simp add: ring_ok_def)
  have dv: "N dvd 2 ^ LENGTH('w)" using ok by (simp add: ring_ok_def)
  have slot: "(unat (r + 1) + i) mod N = (unat r + Suc i) mod N" for i
  proof -
    have "unat (r + 1) mod N = (unat r + 1) mod N"
      using dv by (simp add: unat_word_ariths(1) mod_mod_cancel)
    then show ?thesis by (metis mod_add_left_eq add.assoc add.commute plus_1_eq_Suc)
  qed
  have "[0..<unat (w - r)] = 0 # map Suc [0..<unat (w - (r + 1))]"
    unfolding len by (simp add: map_Suc_upt upt_conv_Cons)
  then show "ring_list N d r w = d ! (unat r mod N) # ring_list N d (r + 1) w"
    unfolding ring_list_def by (simp add: slot)
qed

lemma ring_empty: "ring_list N d r w = [] \<longleftrightarrow> r = w"
  using unat_eq_zero [of "w - r"] by (auto simp: ring_list_def)

lemma ring_full:
  fixes r w :: "'w::len word"
  assumes "N < 2 ^ LENGTH('w)"
  shows "w = r + of_nat N \<longleftrightarrow> unat (w - r) = N"
proof
  assume "unat (w - r) = N"
  then have "of_nat N = w - r" by auto
  then show "w = r + of_nat N" by simp
qed (use assms in \<open>simp add: unsigned_of_nat take_bit_nat_eq_self\<close>)

section \<open>The queue interface\<close>

locale fifo =
  fixes wf_q :: "'s \<Rightarrow> bool"
    and contents :: "'s \<Rightarrow> 'b list"
    and cap :: nat
    and put :: "'b \<Rightarrow> 's \<Rightarrow> 's"
    and first :: "'s \<Rightarrow> 'b"
    and drop_first :: "'s \<Rightarrow> 's"
  assumes put_law: "wf_q s \<Longrightarrow> length (contents s) < cap \<Longrightarrow>
      wf_q (put c s) \<and> contents (put c s) = contents s @ [c]"
    and get_law: "wf_q s \<Longrightarrow> contents s \<noteq> [] \<Longrightarrow>
      wf_q (drop_first s) \<and> contents s = first s # contents (drop_first s)"
    and cap_law: "wf_q s \<Longrightarrow> length (contents s) \<le> cap"
begin

lemma put_all:
  "wf_q s \<Longrightarrow> length (contents s) + length cs \<le> cap \<Longrightarrow>
   wf_q (fold put cs s) \<and> contents (fold put cs s) = contents s @ cs"
proof (induction cs arbitrary: s)
  case (Cons c cs)
  then show ?case using put_law [of s c] by simp
qed simp

lemma get_all:
  "wf_q s \<Longrightarrow> k \<le> length (contents s) \<Longrightarrow>
   wf_q ((drop_first ^^ k) s) \<and> contents ((drop_first ^^ k) s) = drop k (contents s)"
proof (induction k arbitrary: s)
  case (Suc k)
  then have "contents s \<noteq> []" by auto
  from get_law [OF Suc.prems(1) this] Suc.IH [of "drop_first s"] Suc.prems(2) show ?case
    by (cases "contents s") (simp_all add: funpow_swap1)
qed simp

lemma get_nth:
  assumes "wf_q s" and "k < length (contents s)"
  shows "first ((drop_first ^^ k) s) = contents s ! k"
proof -
  have "wf_q ((drop_first ^^ k) s)" "contents ((drop_first ^^ k) s) = drop k (contents s)"
    using get_all [OF assms(1), of k] assms(2) by simp_all
  moreover from this have "contents ((drop_first ^^ k) s) \<noteq> []" using assms(2) by simp
  ultimately show ?thesis
    using get_law [of "(drop_first ^^ k) s"] hd_drop_conv_nth [OF assms(2)] by (metis list.sel(1))
qed

text \<open>What was put into an empty queue comes out in the same order.\<close>

lemma put_get:
  assumes "wf_q s" "contents s = []" "length cs \<le> cap" "k < length cs"
  shows "first ((drop_first ^^ k) (fold put cs s)) = cs ! k"
  using put_all [of s cs] get_nth [of "fold put cs s" k] assms by simp

end

end
