(* ===== verification/Demo.thy ===== *)
theory Demo
  imports Lockfields
begin

text \<open>A state of the whole kernel, for the witnesses: process 0 runs on hart 0 with one page of user
  memory mapped at address 0, no lock is taken, and the other processes are unused.\<close>

definition demo_proc :: proc where
  "demo_proc = \<lparr>p_state = UNUSED, p_chan = None, p_killed = 0, p_xstate = 0, p_pid = 0, p_parent = None,
     p_kstack = 0, p_sz = 0, p_pagetable = 0, p_trapframe = 0, p_context = zero_context,
     p_ofile = replicate NOFILE None, p_cwd = None, p_name = ''''\<rparr>"

definition demo_init :: proc where
  "demo_init = demo_proc\<lparr>p_state := RUNNING, p_pid := 1, p_sz := 4096, p_pagetable := 0x80030000,
     p_trapframe := 0x80050000, p_name := ''init''\<rparr>"

definition demo_inode :: inode where
  "demo_inode = \<lparr>i_dev = 0, i_inum = 0, i_ref = 0, i_valid = 0, i_type = 0, i_major = 0, i_minor = 0, i_nlink = 0,
     i_size = 0, i_addrs = replicate 13 0\<rparr>"

definition demo_st :: trst where
  "demo_st = \<lparr>cur_hart = 0, harts = harts demo_sys,
     cpus = (\<lambda>_. \<lparr>cpu_proc = Some 0, cpu_context = zero_context, cpu_noff = 0, cpu_intena = True\<rparr>),
     locks = locks demo_sys, mem = demo_mem, kfreelist = kfreelist demo_vm, kend = kend demo_vm,
     kernel_pagetable = 0, sym_etext = 0, sym_trampoline = 0,
     procs = (\<lambda>_. demo_proc)(0 := demo_init), nextpid = 2, initproc = Some 0, kregs = (\<lambda>_. zero_context),
     sym_forkret = 0, sym_usertrap = 0, ticks = 0,
     uart = \<lparr>u_rx = [], u_idle = [], u_sent = [], u_regs = (\<lambda>_. 0)\<rparr>, uart_tx_buf = replicate 32 0, uart_tx_w = 0, uart_tx_r = 0,
     cons = \<lparr>cons_buf = replicate 128 0, cons_r = 0, cons_w = 0, cons_e = 0\<rparr>, pr_locking = True, panicked_flag = False,
     devsw_read = (\<lambda>_. None), devsw_write = (\<lambda>_. None), plic_regs = (\<lambda>_. 0),
     slocks = (\<lambda>_. \<lparr>sl_locked = 0, sl_name = '''', sl_pid = 0\<rparr>),
     bufs = (\<lambda>_. \<lparr>b_valid = 0, b_disk = 0, b_dev = 0, b_blockno = 0, b_refcnt = 0\<rparr>),
     vq = \<lparr>vq_desc = (\<lambda>_. zero_desc), vq_avail_idx = 0, vq_avail_ring = (\<lambda>_. 0), vq_used_idx = 0, vq_used_ring = (\<lambda>_. 0),
       vq_ops = (\<lambda>_. \<lparr>br_type = 0, br_reserved = 0, br_sector = 0\<rparr>), vq_status = (\<lambda>_. 0), vq_data = (\<lambda>_. replicate BSIZE 0),
       vq_disk = \<lparr>d_image = (\<lambda>_. replicate BSIZE 0), d_writes = []\<rparr>, vq_seen = 0\<rparr>,
     vd_free = (\<lambda>_. True), vd_used_idx = 0, vd_info_b = (\<lambda>_. None), vd_pages = (0, 0, 0), vregs = (\<lambda>_. 0),
     device = (\<lambda>q. q), device_mmio = (\<lambda>a v r. r(a := v)),
     b_prev = (\<lambda>_. BHead), b_next = (\<lambda>_. BHead),
     lg_start = 2, lg_size = 30, lg_outstanding = 0, lg_committing = 0, lg_dev = 1, lh_n = 0, lh_block = (\<lambda>_. 0),
     sb = \<lparr>sb_magic = FSMAGIC, sb_size = 2000, sb_nblocks = 1954, sb_ninodes = 200, sb_nlog = 30, sb_logstart = 2,
       sb_inodestart = 32, sb_bmapstart = 45\<rparr>,
     itable = (\<lambda>_. demo_inode),
     pipes = (\<lambda>_. \<lparr>pi_data = replicate PIPESIZE 0, pi_nread = 0, pi_nwrite = 0, pi_readopen = 1, pi_writeopen = 1\<rparr>),
     ftable = (\<lambda>_. \<lparr>f_type = FD_NONE, f_ref = 0, f_readable = False, f_writable = False, f_pipe = 0, f_ip = 0, f_off = 0, f_major = 0\<rparr>),
     sym_kernelvec = 0, sym_uservec = 0, sym_userret = 0, sym_initcode = 0, forkret_first = True, started = False\<rparr>"

lemma demo_st_locks [simp]: "settled demo_st" "lock_free lk demo_st" "mycpu demo_st = 0"
  by (simp_all add: settled_def hart_ok_def lock_free_def spin_defs demo_st_def r_tp_def demo_sys_def
      intr_get_def r_sstatus_def SSTATUS_SIE_def)

lemma demo_st_fields [simp]:
  "cpus demo_st 0 = \<lparr>cpu_proc = Some 0, cpu_context = zero_context, cpu_noff = 0, cpu_intena = True\<rparr>"
  "procs demo_st = (\<lambda>_. demo_proc)(0 := demo_init)" "mem demo_st = demo_mem"
  by (simp_all add: demo_st_def)

lemma demo_st_uspace: "uspace demo_st [0x80040000] 0x80030000"
proof -
  have "can_lock KmemLock demo_st" by (simp add: can_lock_def settled_hart_ok)
  then show ?thesis
    using demo_uspace by (simp add: uspace_def pt_ok_def kpool_def demo_st_def demo_vm_def can_lock_def)
qed

end
