(* ===== verification/Pipe_Correct.thy ===== *)
theory Pipe_Correct
  imports Proc_Correct Ring Demo
begin

text \<open>
  Pipes are first-in first-out queues of bytes, kept in a ring whose indices wrap at 32 bits.
\<close>

section \<open>One byte to and from the user\<close>

definition uput :: "u64 \<Rightarrow> u64 \<Rightarrow> u8 \<Rightarrow> mem \<Rightarrow> mem" where
  "uput pt va c m = mem_write m (PTE2PA (pte_of m pt va) + (va - PGROUNDDOWN va)) [c]"

primrec uputs :: "u64 \<Rightarrow> u64 \<Rightarrow> u8 list \<Rightarrow> mem \<Rightarrow> mem" where
  "uputs pt va [] m = m"
| "uputs pt va (c # cs) m = uputs pt (va + 1) cs (uput pt va c m)"

lemma page_left_ge: "1 \<le> page_left va"
  using page_left_pos [of va] by simp

lemma ubyte_access: "ubyte m pt va \<noteq> None \<Longrightarrow> va < MAXVA \<and> uaccess (pte_of m pt va)"
  by (auto simp: ubyte_def split: if_splits)

lemma copyoutb_byte:
  assumes "uspace s ps pt" and "ubyte (mem s) pt va \<noteq> None"
  shows "copyoutb pt va [c] s = Inr (0, s\<lparr>mem := uput pt va c (mem s)\<rparr>)"
  using walkaddr_page(2) [OF assms] page_left_ge [of va]
  by (simp add: copyoutb.simps [of _ va] copyoutb.simps [of _ _ "[]"] Let_def uput_def min_def)

lemma copyoutb_byte_bad:
  assumes "uspace s ps pt" and "ubyte (mem s) pt va = None"
  shows "copyoutb pt va [c] s = Inr (- 1, s)"
  using walkaddr_page(1) [OF assms] by (simp add: copyoutb.simps [of _ va] Let_def)

lemma uput_ok:
  assumes "uspace s ps pt" and "ubyte (mem s) pt va \<noteq> None"
  shows "uspace (s\<lparr>mem := uput pt va c (mem s)\<rparr>) ps pt"
    and "ubyte (uput pt va c (mem s)) pt x = (if x = va then Some c else ubyte (mem s) pt x)"
proof -
  have "unat va mod 4096 + length [c] \<le> 4096" using mod_less_divisor [of 4096 "unat va"] by simp
  note w = uwrite [OF assms(1) ubyte_access [OF assms(2), THEN conjunct1] ubyte_access [OF assms(2), THEN conjunct2] _ this]
  from w(1) show "uspace (s\<lparr>mem := uput pt va c (mem s)\<rparr>) ps pt" by (simp add: uput_def)
  from w(5) [of x] show "ubyte (uput pt va c (mem s)) pt x = (if x = va then Some c else ubyte (mem s) pt x)"
    by (simp add: uput_def unat_eq_zero)
qed

lemma copyinb_byte:
  assumes "uspace s ps pt"
  shows "\<exists>bs. copyinb pt va 1 s = Inr ((case ubyte (mem s) pt va of Some b \<Rightarrow> (0, [b]) | None \<Rightarrow> (- 1, bs)), s)"
  using copyinb_eq [OF assms, of va 1] by (auto simp: urange_def split: option.splits)

lemma uspace_acqd:
  assumes "settled s" "lk \<noteq> KmemLock" "uspace s ps pt"
  shows "uspace (acqd lk s) ps pt"
  using assms by (simp add: uspace_def pt_ok_def kpool_def can_lock_def lockrun settled_hart_ok)

section \<open>The ring of a pipe\<close>

definition pipe_wf :: "pipe \<Rightarrow> bool" where
  "pipe_wf p \<longleftrightarrow> ring_ok PIPESIZE (pi_data p) (pi_nread p) (pi_nwrite p)"

definition pipe_list :: "pipe \<Rightarrow> u8 list" where
  "pipe_list p = ring_list PIPESIZE (pi_data p) (pi_nread p) (pi_nwrite p)"

definition pipe_put :: "u8 \<Rightarrow> pipe \<Rightarrow> pipe" where
  "pipe_put c p = p\<lparr>pi_data := (pi_data p)[unat (pi_nwrite p) mod PIPESIZE := c], pi_nwrite := pi_nwrite p + 1\<rparr>"

definition pipe_first :: "pipe \<Rightarrow> u8" where
  "pipe_first p = pi_data p ! (unat (pi_nread p) mod PIPESIZE)"

definition pipe_drop :: "pipe \<Rightarrow> pipe" where
  "pipe_drop p = p\<lparr>pi_nread := pi_nread p + 1\<rparr>"

interpretation pipe_q: fifo pipe_wf pipe_list PIPESIZE pipe_put pipe_first pipe_drop
proof
  fix p :: pipe and c
  assume p: "pipe_wf p"
  show "length (pipe_list p) \<le> PIPESIZE"
    using p by (simp add: pipe_wf_def pipe_list_def ring_ok_def)
  show "pipe_wf (pipe_put c p) \<and> pipe_list (pipe_put c p) = pipe_list p @ [c]"
    if "length (pipe_list p) < PIPESIZE"
    using that ring_push [of PIPESIZE "pi_data p" "pi_nread p" "pi_nwrite p" c] p
    by (simp add: pipe_wf_def pipe_list_def pipe_put_def PIPESIZE_def)
  show "pipe_wf (pipe_drop p) \<and> pipe_list p = pipe_first p # pipe_list (pipe_drop p)"
    if "pipe_list p \<noteq> []"
    using that ring_pop [of PIPESIZE "pi_data p" "pi_nread p" "pi_nwrite p"] p
    by (simp add: pipe_wf_def pipe_list_def pipe_drop_def pipe_first_def ring_empty)
qed

lemma pipe_full: "pi_nwrite p = pi_nread p + of_nat PIPESIZE \<longleftrightarrow> length (pipe_list p) = PIPESIZE"
  using ring_full [of PIPESIZE "pi_nwrite p" "pi_nread p"] by (simp add: pipe_list_def PIPESIZE_def)

lemma pipe_empty: "pi_nread p = pi_nwrite p \<longleftrightarrow> pipe_list p = []"
  by (simp add: pipe_list_def ring_empty)


section \<open>Writing\<close>

lemma killed_run [lockrun]:
  "settled s \<Longrightarrow> lock_free (ProcLock p) s \<Longrightarrow> killed p s = Inr (p_killed (procs s p), s)"
  by (simp add: killed_def Let_def lockrun)

lemma upd_pipe_put: "upd_pipe q (\<lambda>p. p\<lparr>pi_data := (pi_data p)[unat (pi_nwrite p) mod PIPESIZE := c], pi_nwrite := pi_nwrite p + 1\<rparr>) s =
    upd_pipe q (pipe_put c) s"
  by (simp add: pipe_put_def [abs_def])

lemma urange_Cons:
  assumes "urange m pt va (Suc n) = Some (c # cs)"
  shows "ubyte m pt va = Some c" and "urange m pt (va + 1) n = Some cs"
  using assms urange_append [of m pt va 1 n] by (auto simp: urange_def split: option.splits if_splits)

text \<open>The state of a call that writes to or reads from pipe \<open>q\<close>.\<close>

definition pipe_call :: "u64 \<Rightarrow> nat \<Rightarrow> u64 list \<Rightarrow> 'a ppst_scheme \<Rightarrow> bool" where
  "pipe_call q pr ps s \<longleftrightarrow> settled s \<and> curproc s = Some pr \<and> procs_free s \<and> lock_free (ProcLock pr) s \<and>
     lock_free (PipeLock q) s \<and> uspace s ps (p_pagetable (procs s pr)) \<and> pipe_wf (pipes s q)"

lemma uspace_upd_pipe: "uspace (upd_pipe q g s) ps pt \<longleftrightarrow> uspace s ps pt"
  by (simp add: uspace_def pt_ok_def kpool_def can_lock_def hart_ok_def lock_free_def upd_pipe_def spin_defs)

lemma procs_free_upd_pipe: "procs_free (upd_pipe q g s) \<longleftrightarrow> procs_free s"
  by (simp add: procs_free_def lockrun)

lemma pipe_call_upd:
  assumes "pipe_call q pr ps s" "pipe_wf (g (pipes s q))"
  shows "pipe_call q pr ps (upd_pipe q g s)"
  using assms by (simp add: pipe_call_def lockrun uspace_upd_pipe procs_free_upd_pipe) (simp add: upd_pipe_def)

lemma pipewrite_loop_run:
  assumes "pipe_call q pr ps s" and "p_killed (procs s pr) = 0" and "pi_readopen (pipes s q) \<noteq> 0"
    and "urange (mem s) (p_pagetable (procs s pr)) (addr + of_nat i) (length bs) = Some bs"
    and "length (pipe_list (pipes s q)) + length bs \<le> PIPESIZE"
  shows "pipewrite_loop ws q pr addr (i + length bs) i (acqd (PipeLock q) s) =
    pipewrite_done q (i + length bs) (acqd (PipeLock q) (upd_pipe q (fold pipe_put bs) s))"
  using assms
proof (induction bs arbitrary: i s)
  case Nil
  then show ?case by (simp add: pipewrite_loop.simps upd_pipe_def)
next
  case (Cons c cs)
  let ?pt = "p_pagetable (procs s pr)" and ?s' = "upd_pipe q (pipe_put c) s"
  note pc = Cons.prems(1) [unfolded pipe_call_def]
  have u: "ubyte (mem s) ?pt (addr + of_nat i) = Some c" "urange (mem s) ?pt (addr + of_nat (Suc i)) (length cs) = Some cs"
    using urange_Cons [of "mem s" ?pt "addr + of_nat i" "length cs" c cs] Cons.prems(4) by (simp_all add: algebra_simps)
  have cin: "copyinb ?pt (addr + of_nat i) 1 (acqd (PipeLock q) s) = Inr ((0, [c]), acqd (PipeLock q) s)"
    using copyinb_byte [OF uspace_acqd, of s "PipeLock q" ps ?pt "addr + of_nat i"] pc u(1) by (auto simp: lockrun)
  have room: "length (pipe_list (pipes s q)) < PIPESIZE" using Cons.prems(5) by simp
  have put: "pipe_wf (pipe_put c (pipes s q))" "pipe_list (pipe_put c (pipes s q)) = pipe_list (pipes s q) @ [c]"
    using pipe_q.put_law [of "pipes s q" c] room pc by simp_all
  have "pipewrite_loop ws q pr addr (Suc i + length cs) (Suc i) (acqd (PipeLock q) ?s') =
      pipewrite_done q (Suc i + length cs) (acqd (PipeLock q) (upd_pipe q (fold pipe_put cs) ?s'))"
    using Cons.prems u(2) put
    by (intro Cons.IH) (simp_all add: pipe_call_upd, simp_all add: upd_pipe_def pipe_put_def)
  moreover have "upd_pipe q (fold pipe_put cs) ?s' = upd_pipe q (fold pipe_put (c # cs)) s"
    by (simp add: upd_pipe_def)
  moreover have "pi_nwrite (pipes s q) \<noteq> pi_nread (pipes s q) + of_nat PIPESIZE"
    using room by (simp add: pipe_full)
  ultimately show ?case
    using pc Cons.prems(2,3) cin
    by (simp add: pipewrite_loop.simps [of _ _ _ _ _ i] lockrun Let_def upd_pipe_put o_def)
qed

lemma pipewrite_run:
  assumes "pipe_call q pr ps s" and "p_killed (procs s pr) = 0" and "pi_readopen (pipes s q) \<noteq> 0"
    and "urange (mem s) (p_pagetable (procs s pr)) addr (length bs) = Some bs"
    and "length (pipe_list (pipes s q)) + length bs \<le> PIPESIZE"
  shows "pipewrite ws q addr (of_nat (length bs)) s =
    Inr (of_nat (length bs), (upd_pipe q (fold pipe_put bs) s)
      \<lparr>procs := woken (Some (ChanPipeRead q)) (Some pr) {..<NPROC} (procs s)\<rparr>)"
proof -
  note pc = assms(1) [unfolded pipe_call_def]
  have n: "nat (sint (of_nat (length bs) :: u32)) = length bs"
    using assms(5) by (simp add: PIPESIZE_def sint_of_nat_small)
  have "pipewrite ws q addr (of_nat (length bs)) s = pipewrite_loop ws q pr addr (0 + length bs) 0 (acqd (PipeLock q) s)"
    using pc by (simp add: pipewrite_def lockrun n)
  also have "\<dots> = pipewrite_done q (length bs) (acqd (PipeLock q) (upd_pipe q (fold pipe_put bs) s))"
    using pipewrite_loop_run [OF assms(1-3), of addr 0 bs ws] assms(4,5) by simp
  also have "\<dots> = Inr (of_nat (length bs), (upd_pipe q (fold pipe_put bs) s)
      \<lparr>procs := woken (Some (ChanPipeRead q)) (Some pr) {..<NPROC} (procs s)\<rparr>)"
    using pc by (simp add: pipewrite_done_def lockrun procs_free_upd_pipe) (simp add: upd_pipe_def)
  finally show ?thesis .
qed

section \<open>Reading\<close>

lemma uputs_ok:
  assumes "uspace s ps pt" and "\<forall>i < length cs. ubyte (mem s) pt (va + of_nat i) \<noteq> None"
  shows "uspace (s\<lparr>mem := uputs pt va cs (mem s)\<rparr>) ps pt \<and>
    (length cs < 2 ^ 64 \<longrightarrow> (\<forall>x. ubyte (uputs pt va cs (mem s)) pt x =
      (if unat (x - va) < length cs then Some (cs ! unat (x - va)) else ubyte (mem s) pt x)))"
  using assms
proof (induction cs arbitrary: va s)
  case (Cons c cs)
  let ?s = "s\<lparr>mem := uput pt va c (mem s)\<rparr>"
  have "ubyte (mem s) pt va \<noteq> None" using Cons.prems(2) [rule_format, of 0] by simp
  note u = uput_ok [OF Cons.prems(1) this, of c]
  have "ubyte (mem ?s) pt (va + 1 + of_nat i) \<noteq> None" if "i < length cs" for i
    using Cons.prems(2) [rule_format, of "Suc i"] that by (simp add: u(2) add.assoc)
  then have IH: "uspace (?s\<lparr>mem := uputs pt (va + 1) cs (mem ?s)\<rparr>) ps pt"
    "length cs < 2 ^ 64 \<Longrightarrow> ubyte (uputs pt (va + 1) cs (mem ?s)) pt x =
      (if unat (x - (va + 1)) < length cs then Some (cs ! unat (x - (va + 1))) else ubyte (mem ?s) pt x)" for x
    using Cons.IH [OF u(1), of "va + 1"] by simp_all
  have last: "unat (va - (va + 1)) = 2 ^ 64 - 1" by (simp add: unsigned_minus_1_eq_mask mask_eq_exp_minus_1)
  have later: "unat (x - va) = Suc (unat (x - (va + 1)))" if "x \<noteq> va" for x
    using that by (intro unat_diff_Suc) simp
  show ?case
  proof (intro conjI impI allI)
    fix x assume "length (c # cs) < 2 ^ 64"
    then show "ubyte (uputs pt va (c # cs) (mem s)) pt x =
      (if unat (x - va) < length (c # cs) then Some ((c # cs) ! unat (x - va)) else ubyte (mem s) pt x)"
      using IH(2) [of x] later [of x] last by (cases "x = va") (simp_all add: u(2))
  qed (use IH(1) in simp)
qed simp

lemma pipe_call_mem:
  assumes "pipe_call q pr ps s" "uspace (s\<lparr>mem := m\<rparr>) ps (p_pagetable (procs s pr))"
  shows "pipe_call q pr ps (s\<lparr>mem := m\<rparr>)"
  using assms by (simp add: pipe_call_def lockrun procs_free_def)

lemma upd_pipe_sel [simp]: "mem (upd_pipe q g s) = mem s" "procs (upd_pipe q g s) = procs s"
    "pipes (upd_pipe q g s) q = g (pipes s q)"
  by (simp_all add: upd_pipe_def)

lemma upd_pipe_drop: "upd_pipe q (\<lambda>p. p\<lparr>pi_nread := pi_nread p + 1\<rparr>) s = upd_pipe q pipe_drop s"
  by (simp add: pipe_drop_def [abs_def])

lemma upd_pipe_comp: "upd_pipe q g (s\<lparr>mem := m\<rparr>) = (upd_pipe q g s)\<lparr>mem := m\<rparr>" "upd_pipe q g (upd_pipe q h s) = upd_pipe q (g \<circ> h) s"
  by (simp_all add: upd_pipe_def)

lemma piperead_copy_run:
  assumes "pipe_call q pr ps s"
    and "\<forall>j < min k (length (pipe_list (pipes s q))). ubyte (mem s) (p_pagetable (procs s pr)) (addr + of_nat (i + j)) \<noteq> None"
  shows "piperead_copy k q pr addr i (acqd (PipeLock q) s) =
    (let m = min k (length (pipe_list (pipes s q))) in
     Inr (i + m, acqd (PipeLock q) ((upd_pipe q (pipe_drop ^^ m) s)
      \<lparr>mem := uputs (p_pagetable (procs s pr)) (addr + of_nat i) (take m (pipe_list (pipes s q))) (mem s)\<rparr>)))"
  using assms
proof (induction k arbitrary: i s)
  case 0
  then show ?case by (simp add: upd_pipe_def)
next
  case (Suc k)
  let ?pt = "p_pagetable (procs s pr)"
  note pc = Suc.prems(1) [unfolded pipe_call_def]
  show ?case
  proof (cases "pipe_list (pipes s q) = []")
    case True
    then show ?thesis using pc by (simp add: lockrun pipe_empty) (simp add: upd_pipe_def)
  next
    case False
    define c where "c = pipe_first (pipes s q)"
    have get: "pipe_wf (pipe_drop (pipes s q))" "pipe_list (pipes s q) = c # pipe_list (pipe_drop (pipes s q))"
      using pipe_q.get_law [of "pipes s q"] False pc by (simp_all add: c_def)
    let ?s = "upd_pipe q pipe_drop s"
    let ?t = "?s\<lparr>mem := uput ?pt (addr + of_nat i) c (mem s)\<rparr>"
    have us: "uspace ?s ps ?pt" "uspace (acqd (PipeLock q) ?s) ps ?pt"
      using pc by (simp_all add: uspace_upd_pipe uspace_acqd lockrun)
    have ub: "ubyte (mem s) ?pt (addr + of_nat i) \<noteq> None" using Suc.prems(2) [rule_format, of 0] get(2) by simp
    have out: "copyoutb ?pt (addr + of_nat i) [c] (acqd (PipeLock q) ?s) = Inr (0, acqd (PipeLock q) ?t)"
      using copyoutb_byte [OF us(2), of "addr + of_nat i" c] ub by (simp add: lockrun)
    note up = uput_ok [OF us(1), of "addr + of_nat i" c]
    have "pipe_call q pr ps ?t"
      using Suc.prems(1) get(1) up(1) ub by (intro pipe_call_mem pipe_call_upd) simp_all
    moreover have "ubyte (mem ?t) ?pt (addr + of_nat (Suc i + j)) \<noteq> None"
      if "j < min k (length (pipe_list (pipes ?t q)))" for j
      using that up(2) ub Suc.prems(2) [rule_format, of "Suc j"] get(2) by simp
    ultimately have "piperead_copy k q pr addr (Suc i) (acqd (PipeLock q) ?t) =
      (let m = min k (length (pipe_list (pipes ?t q))) in Inr (Suc i + m, acqd (PipeLock q) ((upd_pipe q (pipe_drop ^^ m) ?t)
        \<lparr>mem := uputs ?pt (addr + of_nat (Suc i)) (take m (pipe_list (pipes ?t q))) (mem ?t)\<rparr>)))"
      using Suc.IH [of ?t "Suc i"] by simp
    moreover have "pi_data (pipes s q) ! (unat (pi_nread (pipes s q)) mod PIPESIZE) = c"
      by (simp add: c_def pipe_first_def)
    ultimately show ?thesis
      using False out get(2) pc
      by (simp add: lockrun pipe_empty Let_def upd_pipe_comp upd_pipe_drop funpow_Suc_right add.assoc
          add.commute [of "1 :: u64" "of_nat i"] del: funpow.simps)
  qed
qed

lemma piperead_run:
  assumes "pipe_call q pr ps s" and "pipe_list (pipes s q) \<noteq> []"
    and "k < 2 ^ 31"
  defines "m \<equiv> min k (length (pipe_list (pipes s q)))"
  assumes "\<forall>j < m. ubyte (mem s) (p_pagetable (procs s pr)) (addr + of_nat j) \<noteq> None"
  shows "piperead ws q addr (of_nat k) s =
    Inr (of_nat m, (upd_pipe q (pipe_drop ^^ m) s)
      \<lparr>mem := uputs (p_pagetable (procs s pr)) addr (take m (pipe_list (pipes s q))) (mem s),
       procs := woken (Some (ChanPipeWrite q)) (Some pr) {..<NPROC} (procs s)\<rparr>)"
proof -
  note pc = assms(1) [unfolded pipe_call_def]
  have wait: "piperead_wait ws q pr (acqd (PipeLock q) s) = Inr (None, acqd (PipeLock q) s)"
    using assms(2) by (simp add: lockrun pipe_empty)
  have copy: "piperead_copy k q pr addr 0 (acqd (PipeLock q) s) = Inr (m, acqd (PipeLock q) ((upd_pipe q (pipe_drop ^^ m) s)
      \<lparr>mem := uputs (p_pagetable (procs s pr)) addr (take m (pipe_list (pipes s q))) (mem s)\<rparr>))"
    using piperead_copy_run [OF assms(1), of k addr 0] assms(5) by (simp add: m_def Let_def)
  have n: "nat (sint (of_nat k :: u32)) = k" using assms(3) by (simp add: sint_of_nat_small)
  show ?thesis
    using pc by (simp add: piperead_def n wait copy lockrun procs_free_upd_pipe procs_free_def del: piperead_wait.simps piperead_copy.simps)
qed

section \<open>Properties\<close>

text \<open>
  (C23) \<open>pipewrite\<close> with room for all its bytes returns their number and appends exactly the bytes of
  the user's buffer to the queue the ring represents, also where the 32-bit indices wrap; memory
  and other pipes stay as they are, and exactly the processes asleep on \<open>&pi->nread\<close> become
  runnable.
\<close>

theorem pipewrite_appends:
  assumes "pipe_call q pr ps s" and "p_killed (procs s pr) = 0" and "pi_readopen (pipes s q) \<noteq> 0"
    and "urange (mem s) (p_pagetable (procs s pr)) addr (length bs) = Some bs"
    and "length (pipe_list (pipes s q)) + length bs \<le> PIPESIZE"
  shows "\<exists>s'. pipewrite ws q addr (of_nat (length bs)) s = Inr (of_nat (length bs), s') \<and>
    pipe_wf (pipes s' q) \<and> pipe_list (pipes s' q) = pipe_list (pipes s q) @ bs \<and>
    mem s' = mem s \<and> (\<forall>q'. q' \<noteq> q \<longrightarrow> pipes s' q' = pipes s q') \<and>
    procs s' = woken (Some (ChanPipeRead q)) (Some pr) {..<NPROC} (procs s)"
proof -
  have "pipe_wf (fold pipe_put bs (pipes s q)) \<and> pipe_list (fold pipe_put bs (pipes s q)) = pipe_list (pipes s q) @ bs"
    using pipe_q.put_all [of "pipes s q" bs] assms(1,5) by (simp add: pipe_call_def)
  then show ?thesis using pipewrite_run [OF assms, of ws] by (simp add: upd_pipe_def)
qed

text \<open>
  (C24) \<open>piperead\<close> on a pipe that holds something returns the smaller of the number asked for and the
  number there, leaves the oldest bytes of the queue in the user's buffer in order, takes exactly
  those off the queue, changes no other byte of the user, and makes exactly the processes asleep
  on \<open>&pi->nwrite\<close> runnable.
\<close>

theorem piperead_takes:
  assumes "pipe_call q pr ps s" and "pipe_list (pipes s q) \<noteq> []" and "k < 2 ^ 31"
    and "\<forall>j < min k (length (pipe_list (pipes s q))). ubyte (mem s) (p_pagetable (procs s pr)) (addr + of_nat j) \<noteq> None"
  shows "\<exists>s'. let pt = p_pagetable (procs s pr); m = min k (length (pipe_list (pipes s q))) in
    piperead ws q addr (of_nat k) s = Inr (of_nat m, s') \<and>
    pipe_wf (pipes s' q) \<and> pipe_list (pipes s' q) = drop m (pipe_list (pipes s q)) \<and>
    (\<forall>x. ubyte (mem s') pt x = (if unat (x - addr) < m then Some (pipe_list (pipes s q) ! unat (x - addr)) else ubyte (mem s) pt x)) \<and>
    procs s' = woken (Some (ChanPipeWrite q)) (Some pr) {..<NPROC} (procs s)"
proof -
  let ?pt = "p_pagetable (procs s pr)" and ?l = "pipe_list (pipes s q)"
  define m where "m = min k (length ?l)"
  have wf: "pipe_wf (pipes s q)" using assms(1) by (simp add: pipe_call_def)
  have len: "length (take m ?l) = m" "length (take m ?l) < 2 ^ 64"
    using pipe_q.cap_law [OF wf] by (simp_all add: m_def PIPESIZE_def)
  have "\<forall>x. ubyte (uputs ?pt addr (take m ?l) (mem s)) ?pt x =
      (if unat (x - addr) < m then Some (?l ! unat (x - addr)) else ubyte (mem s) ?pt x)"
    using uputs_ok [of s ps ?pt "take m ?l" addr] assms(1,4) len by (simp add: pipe_call_def m_def)
  moreover have "pipe_wf ((pipe_drop ^^ m) (pipes s q)) \<and> pipe_list ((pipe_drop ^^ m) (pipes s q)) = drop m ?l"
    using pipe_q.get_all [OF wf, of m] by (simp add: m_def)
  ultimately show ?thesis
    using piperead_run [OF assms(1-3), of addr ws] assms(4) by (simp add: m_def Let_def)
qed

text \<open>
  (C25) A byte is taken off the pipe before it is copied to the user: when the very first address is
  not mapped, \<open>piperead\<close> returns 0 and the oldest byte of the queue is gone.
\<close>

theorem piperead_fault_loses_byte:
  assumes "pipe_call q pr ps s" and "pipe_list (pipes s q) = c # cs" and "0 < k" "k < 2 ^ 31"
    and "ubyte (mem s) (p_pagetable (procs s pr)) addr = None"
  shows "\<exists>s'. piperead ws q addr (of_nat k) s = Inr (0, s') \<and> pipe_list (pipes s' q) = cs \<and> mem s' = mem s"
proof -
  note pc = assms(1) [unfolded pipe_call_def]
  obtain k' where k: "k = Suc k'" using assms(3) gr0_implies_Suc by blast
  let ?s = "upd_pipe q pipe_drop s"
  have get: "pipe_list (pipe_drop (pipes s q)) = cs"
    using pipe_q.get_law [of "pipes s q"] assms(2) pc by simp
  have us: "uspace (acqd (PipeLock q) ?s) ps (p_pagetable (procs s pr))"
    using pc by (simp add: uspace_upd_pipe uspace_acqd lockrun)
  have out: "copyoutb (p_pagetable (procs s pr)) addr [b] (acqd (PipeLock q) ?s) = Inr (- 1, acqd (PipeLock q) ?s)" for b
    using copyoutb_byte_bad [OF us] assms(5) by (simp add: lockrun)
  have "piperead_copy k q pr addr 0 (acqd (PipeLock q) s) = Inr (0, acqd (PipeLock q) ?s)"
    using assms(2) out by (simp add: k lockrun pipe_empty Let_def upd_pipe_drop)
  moreover have "piperead_wait ws q pr (acqd (PipeLock q) s) = Inr (None, acqd (PipeLock q) s)"
    using assms(2) by (simp add: lockrun pipe_empty)
  moreover have "nat (sint (of_nat k :: u32)) = k" using assms(4) by (simp add: sint_of_nat_small)
  ultimately show ?thesis
    using pc get by (simp add: piperead_def lockrun procs_free_upd_pipe del: piperead_wait.simps piperead_copy.simps)
qed

section \<open>Witnesses\<close>

lemma demo_pipe_wf: "pipe_wf (pipes demo_st q)" "pipe_list (pipes demo_st q) = []" "pi_readopen (pipes demo_st q) = 1"
  by (simp_all add: demo_st_def pipe_wf_def pipe_list_def ring_ok_def ring_list_def PIPESIZE_def)

lemma demo_pipe_call: "pipe_wf (g (pipes demo_st q)) \<Longrightarrow> pipe_call q 0 [0x80040000] (upd_pipe q g demo_st)"
  by (rule pipe_call_upd)
    (simp_all add: pipe_call_def procs_free_def demo_st_uspace demo_pipe_wf demo_init_def demo_proc_def)

lemma demo_pipe_put:
  "length cs \<le> PIPESIZE \<Longrightarrow> pipe_wf (fold pipe_put cs (pipes demo_st q)) \<and> pipe_list (fold pipe_put cs (pipes demo_st q)) = cs"
  using pipe_q.put_all [of "pipes demo_st q" cs] by (simp add: demo_pipe_wf)

lemma demo_mapped: "i < 100 \<Longrightarrow> ubyte demo_mem 0x80030000 (16 + of_nat i) \<noteq> None"
  using demo_umapped by (simp add: umapped_def)

theorem pipewrite_appends_witness:
  "\<exists>bs s'. length bs = 3 \<and> pipewrite [] 0x80060000 16 3 demo_st = Inr (3, s') \<and> pipe_list (pipes s' 0x80060000) = bs"
proof -
  let ?bs = "map (\<lambda>i. the (ubyte demo_mem 0x80030000 (16 + of_nat i))) [0..<3]"
  have u: "urange demo_mem 0x80030000 16 3 = Some ?bs" using demo_mapped by (simp add: urange_def)
  have "pipe_call 0x80060000 0 [0x80040000] (upd_pipe 0x80060000 (\<lambda>p. p) demo_st)"
    by (rule demo_pipe_call) (rule demo_pipe_wf)
  then have pc: "pipe_call 0x80060000 0 [0x80040000] demo_st" by (simp add: upd_pipe_def)
  from pipewrite_appends [OF pc, of 16 ?bs "[]"] u
  have "\<exists>s'. pipewrite [] 0x80060000 16 3 demo_st = Inr (3, s') \<and> pipe_list (pipes s' 0x80060000) = ?bs"
    by (auto simp: demo_init_def demo_proc_def demo_pipe_wf PIPESIZE_def)
  then show ?thesis by (intro exI [of _ ?bs]) simp
qed

definition demo_pipe :: trst where
  "demo_pipe = upd_pipe 0x80060000 (fold pipe_put [65, 66, 67]) demo_st"

lemma demo_pipe_facts:
  "pipe_call 0x80060000 0 [0x80040000] demo_pipe" "pipe_list (pipes demo_pipe 0x80060000) = [65, 66, 67]"
  "mem demo_pipe = demo_mem" "p_pagetable (procs demo_pipe 0) = 0x80030000"
  unfolding demo_pipe_def using demo_pipe_put [of "[65, 66, 67]" "0x80060000"]
  by (auto intro: demo_pipe_call simp: PIPESIZE_def demo_init_def)

theorem piperead_takes_witness:
  "\<exists>s'. piperead [] 0x80060000 16 2 demo_pipe = Inr (2, s') \<and> pipe_list (pipes s' 0x80060000) = [67] \<and>
     ubyte (mem s') 0x80030000 16 = Some 65 \<and> ubyte (mem s') 0x80030000 17 = Some 66"
proof -
  have "\<forall>j < 2. ubyte (mem demo_pipe) 0x80030000 (16 + of_nat j) \<noteq> None" using demo_mapped by (simp add: demo_pipe_facts)
  with piperead_takes [OF demo_pipe_facts(1), of 2 16 "[]"]
  obtain s' where "piperead [] 0x80060000 16 2 demo_pipe = Inr (2, s')" "pipe_list (pipes s' 0x80060000) = [67]"
    "\<forall>x. ubyte (mem s') 0x80030000 x = (if unat (x - 16) < 2 then Some ([65, 66, 67] ! unat (x - 16)) else ubyte demo_mem 0x80030000 x)"
    by (auto simp: demo_pipe_facts Let_def)
  then show ?thesis by (intro exI [of _ s']) simp
qed

theorem piperead_fault_loses_byte_witness:
  "\<exists>s'. piperead [] 0x80060000 0x10000 2 demo_pipe = Inr (0, s') \<and> pipe_list (pipes s' 0x80060000) = [66, 67]"
proof -
  have "ubyte (mem demo_pipe) 0x80030000 0x10000 = None"
    by (simp add: demo_pipe_facts ubyte_def pte_of_demo uaccess_def)
  with piperead_fault_loses_byte [OF demo_pipe_facts(1), of 65 "[66, 67]" 2 "0x10000" "[]"]
  show ?thesis by (auto simp: demo_pipe_facts)
qed

end
