(* ===== verification/Console_Correct.thy ===== *)
theory Console_Correct
  imports Pipe_Correct
begin

text \<open>
  The UART driver sends what it is given in order; the console is a line editor: its ring holds
  committed input, which readers get, followed by the line being edited.
\<close>

section \<open>The transmit ring\<close>

definition uart_wf :: "'a cnst_scheme \<Rightarrow> bool" where
  "uart_wf s \<longleftrightarrow> ring_ok UART_TX_BUF_SIZE (uart_tx_buf s) (uart_tx_r s) (uart_tx_w s)"

definition uart_list :: "'a cnst_scheme \<Rightarrow> u8 list" where
  "uart_list s = ring_list UART_TX_BUF_SIZE (uart_tx_buf s) (uart_tx_r s) (uart_tx_w s)"

definition uart_put :: "u8 \<Rightarrow> 'a cnst_scheme \<Rightarrow> 'a cnst_scheme" where
  "uart_put c s = s\<lparr>uart_tx_buf := (uart_tx_buf s)[unat (uart_tx_w s) mod UART_TX_BUF_SIZE := c], uart_tx_w := uart_tx_w s + 1\<rparr>"

definition uart_first :: "'a cnst_scheme \<Rightarrow> u8" where
  "uart_first s = uart_tx_buf s ! (unat (uart_tx_r s) mod UART_TX_BUF_SIZE)"

definition uart_drop :: "'a cnst_scheme \<Rightarrow> 'a cnst_scheme" where
  "uart_drop s = s\<lparr>uart_tx_r := uart_tx_r s + 1\<rparr>"

interpretation uart_q: fifo uart_wf uart_list UART_TX_BUF_SIZE uart_put uart_first uart_drop
proof
  fix s :: "'a cnst_scheme" and c
  assume p: "uart_wf s"
  show "length (uart_list s) \<le> UART_TX_BUF_SIZE"
    using p by (simp add: uart_wf_def uart_list_def ring_ok_def)
  show "uart_wf (uart_put c s) \<and> uart_list (uart_put c s) = uart_list s @ [c]"
    if "length (uart_list s) < UART_TX_BUF_SIZE"
    using that ring_push [of UART_TX_BUF_SIZE "uart_tx_buf s" "uart_tx_r s" "uart_tx_w s" c] p
    by (simp add: uart_wf_def uart_list_def uart_put_def UART_TX_BUF_SIZE_def)
  show "uart_wf (uart_drop s) \<and> uart_list s = uart_first s # uart_list (uart_drop s)"
    if "uart_list s \<noteq> []"
    using that ring_pop [of UART_TX_BUF_SIZE "uart_tx_buf s" "uart_tx_r s" "uart_tx_w s"] p
    by (simp add: uart_wf_def uart_list_def uart_drop_def uart_first_def ring_empty)
qed

lemma uart_full: "uart_tx_w s = uart_tx_r s + of_nat UART_TX_BUF_SIZE \<longleftrightarrow> length (uart_list s) = UART_TX_BUF_SIZE"
  using ring_full [of UART_TX_BUF_SIZE "uart_tx_w s" "uart_tx_r s"] by (simp add: uart_list_def UART_TX_BUF_SIZE_def)

lemma uart_empty: "uart_tx_w s = uart_tx_r s \<longleftrightarrow> uart_list s = []"
  by (auto simp: uart_list_def ring_empty)

lemma lsr_idle: "fst (ReadLSR s) AND LSR_TX_IDLE = 0 \<longleftrightarrow> \<not> (u_idle (uart s) \<noteq> [] \<and> hd (u_idle (uart s)))"
  by (simp add: ReadLSR_def Let_def LSR_RX_READY_def LSR_TX_IDLE_def)

lemma snd_ReadLSR: "snd (ReadLSR s) = s\<lparr>uart := (uart s)\<lparr>u_idle := tl (u_idle (uart s))\<rparr>\<rparr>"
  by (simp add: ReadLSR_def Let_def)

lemma woken_idem: "woken ch me A (woken ch me A ps) = woken ch me A ps"
  by (simp add: woken_union)

lemma uartstart_step:
  assumes "settled s" and "procs_free s"
  shows "uartstart s =
    (if uart_list s = [] then Inr ((), s)
     else if u_idle (uart s) = [] \<or> \<not> hd (u_idle (uart s)) then Inr ((), s\<lparr>uart := (uart s)\<lparr>u_idle := tl (u_idle (uart s))\<rparr>\<rparr>)
     else uartstart (s\<lparr>uart_tx_r := uart_tx_r s + 1, procs := woken (Some ChanUart) (curproc s) {..<NPROC} (procs s),
       uart := (uart s)\<lparr>u_idle := tl (u_idle (uart s)), u_sent := u_sent (uart s) @ [uart_first s]\<rparr>\<rparr>))"
proof -
  let ?s1 = "s\<lparr>uart := (uart s)\<lparr>u_idle := tl (u_idle (uart s))\<rparr>, uart_tx_r := uart_tx_r s + 1\<rparr>"
  have w: "wakeup (Some ChanUart) ?s1 = Inr ((), ?s1\<lparr>procs := woken (Some ChanUart) (curproc s) {..<NPROC} (procs s)\<rparr>)"
    using assms by (subst wakeup_run) (simp_all add: lockrun procs_free_def)
  obtain lsr s' where r: "ReadLSR s = (lsr, s')" by (cases "ReadLSR s")
  then have "lsr AND LSR_TX_IDLE = 0 \<longleftrightarrow> u_idle (uart s) = [] \<or> \<not> hd (u_idle (uart s))"
    "s' = s\<lparr>uart := (uart s)\<lparr>u_idle := tl (u_idle (uart s))\<rparr>\<rparr>"
    using lsr_idle [of s] snd_ReadLSR [of s] by auto
  then show ?thesis
    using w by (subst uartstart.simps) (simp add: r uart_empty Let_def WriteTHR_def uart_first_def)
qed

lemma uartstart_run:
  assumes "settled s" and "procs_free s" and "uart_wf s"
  shows "\<exists>u r ps. uartstart s = Inr ((), s\<lparr>uart_tx_r := r, procs := ps, uart := u\<rparr>) \<and>
    uart_wf (s\<lparr>uart_tx_r := r\<rparr>) \<and> u_sent u @ uart_list (s\<lparr>uart_tx_r := r\<rparr>) = u_sent (uart s) @ uart_list s \<and>
    ps \<in> {procs s, woken (Some ChanUart) (curproc s) {..<NPROC} (procs s)}"
  using assms
proof (induction "length (uart_list s)" arbitrary: s rule: less_induct)
  case less
  let ?ps = "woken (Some ChanUart) (curproc s) {..<NPROC} (procs s)"
  show ?case
  proof (cases "uart_list s = [] \<or> u_idle (uart s) = [] \<or> \<not> hd (u_idle (uart s))")
    case True
    define u where "u = (if uart_list s = [] then uart s else (uart s)\<lparr>u_idle := tl (u_idle (uart s))\<rparr>)"
    have "uartstart s = Inr ((), s\<lparr>uart := u\<rparr>)" "u_sent u = u_sent (uart s)"
      using True by (subst uartstart_step [OF less.prems(1,2)]) (auto simp: u_def)
    then show ?thesis
      using less.prems(3) by (intro exI [of _ u] exI [of _ "uart_tx_r s"] exI [of _ "procs s"]) simp
  next
    case False
    let ?u = "(uart s)\<lparr>u_idle := tl (u_idle (uart s)), u_sent := u_sent (uart s) @ [uart_first s]\<rparr>"
    let ?t = "s\<lparr>uart_tx_r := uart_tx_r s + 1, procs := ?ps, uart := ?u\<rparr>"
    have get: "uart_wf (uart_drop s)" "uart_list s = uart_first s # uart_list (uart_drop s)"
      using uart_q.get_law [OF less.prems(3)] False by auto
    have t: "uart_list ?t = uart_list (uart_drop s)" "uart_wf ?t"
      using get(1) by (simp_all add: uart_list_def uart_wf_def uart_drop_def)
    have "length (uart_list ?t) < length (uart_list s)" using get(2) t(1) by simp
    from less.hyps [OF this] less.prems t(2) obtain u r ps where
      *: "uartstart ?t = Inr ((), ?t\<lparr>uart_tx_r := r, procs := ps, uart := u\<rparr>)" "uart_wf (?t\<lparr>uart_tx_r := r\<rparr>)"
      "u_sent u @ uart_list (?t\<lparr>uart_tx_r := r\<rparr>) = u_sent ?u @ uart_list ?t" "ps = ?ps"
      by (auto simp: lockrun procs_free_def woken_idem)
    have "uartstart s = Inr ((), s\<lparr>uart_tx_r := r, procs := ps, uart := u\<rparr>)"
      using False *(1) by (subst uartstart_step [OF less.prems(1,2)]) simp
    then show ?thesis
      using *(2-4) get(2) t(1) by (intro exI [of _ u] exI [of _ r] exI [of _ ps])
        (simp_all add: uart_wf_def uart_list_def)
  qed
qed

lemma uartputc_run:
  assumes "settled s" and "procs_free s" and "lock_free UartTxLock s" and "\<not> panicked_flag s"
    and "uart_wf s" and "length (uart_list s) < UART_TX_BUF_SIZE"
  shows "\<exists>u r ps. let s' = (uart_put c s)\<lparr>uart_tx_r := r, procs := ps, uart := u\<rparr> in
    uartputc ws c s = Inr (ws, s') \<and> uart_wf s' \<and> u_sent u @ uart_list s' = u_sent (uart s) @ uart_list s @ [c] \<and>
    ps \<in> {procs s, woken (Some ChanUart) (curproc s) {..<NPROC} (procs s)}"
proof -
  let ?t = "acqd UartTxLock (uart_put c s)"
  have ok: "settled ?t" "procs_free ?t" using assms(1,2) by (simp_all add: uart_put_def lockrun procs_free_def)
  have acq: "uart_wf (acqd UartTxLock x) \<longleftrightarrow> uart_wf x" "uart_list (acqd UartTxLock x) = uart_list x" for x :: "'a cnst_scheme"
    by (simp_all add: uart_wf_def uart_list_def lockrun)
  have put: "uart_wf (uart_put c s)" "uart_list (uart_put c s) = uart_list s @ [c]" using uart_q.put_law assms(5,6) by auto
  from uartstart_run [OF ok] obtain u r ps where
    *: "uartstart ?t = Inr ((), ?t\<lparr>uart_tx_r := r, procs := ps, uart := u\<rparr>)"
    "uart_wf (?t\<lparr>uart_tx_r := r\<rparr>)" "u_sent u @ uart_list (?t\<lparr>uart_tx_r := r\<rparr>) = u_sent (uart ?t) @ uart_list ?t"
    "ps \<in> {procs ?t, woken (Some ChanUart) (curproc ?t) {..<NPROC} (procs ?t)}"
    using put(1) by (auto simp: acq)
  have full: "uart_tx_w s \<noteq> uart_tx_r s + of_nat UART_TX_BUF_SIZE" using assms(6) by (simp add: uart_full)
  have "uartputc ws c s = Inr (ws, (uart_put c s)\<lparr>uart_tx_r := r, procs := ps, uart := u\<rparr>)"
    using *(1) assms full by (simp add: uartputc_def lockrun uart_put_def)
  then show ?thesis
    using *(2-4) put(2) by (intro exI [of _ u] exI [of _ r] exI [of _ ps])
      (simp add: Let_def lockrun acq uart_put_def uart_wf_def uart_list_def)
qed

section \<open>Echo\<close>

lemma push_off_uart: "push_off (s\<lparr>uart := u\<rparr>) = (push_off s)\<lparr>uart := u\<rparr>"
  by (simp add: push_off_def Let_def spin_defs)

lemma push_off_cnst: "uart (push_off s) = uart s" "panicked_flag (push_off s) = panicked_flag s"
  by (simp_all add: push_off_def Let_def spin_defs)

lemma uartputc_sync_run:
  assumes "settled s" and "\<not> panicked_flag s" and "uart_spin (u_idle (uart s)) = Some bs"
  shows "uartputc_sync c s = Inr ((), s\<lparr>uart := (uart s)\<lparr>u_idle := bs, u_sent := u_sent (uart s) @ [ucast c]\<rparr>\<rparr>)"
proof -
  let ?u = "(uart s)\<lparr>u_idle := bs, u_sent := u_sent (uart s) @ [ucast c]\<rparr>"
  have "uartputc_sync c s = pop_off (push_off (s\<lparr>uart := ?u\<rparr>))"
    using assms(2,3) by (simp add: uartputc_sync_def Let_def push_off_cnst push_off_uart WriteTHR_def)
  then show ?thesis using assms(1) by (simp add: pop_push_off lockrun)
qed

text \<open>How often the transmitter will be found idle.\<close>

definition idles :: "uart_dev \<Rightarrow> nat" where
  "idles u = length (filter (\<lambda>b. b) (u_idle u))"

lemma uart_spin_idle:
  "0 < length (filter (\<lambda>b. b) l) \<Longrightarrow> \<exists>bs. uart_spin l = Some bs \<and> Suc (length (filter (\<lambda>b. b) bs)) = length (filter (\<lambda>b. b) l)"
  by (induction l) auto

definition rubout :: "u8 list" where "rubout = [0x08, 0x20, 0x08]"

lemma uartputc_sync_idle:
  assumes "settled s" and "\<not> panicked_flag s" and "0 < idles (uart s)"
  shows "\<exists>u. uartputc_sync c s = Inr ((), s\<lparr>uart := u\<rparr>) \<and> u_sent u = u_sent (uart s) @ [ucast c] \<and> Suc (idles u) = idles (uart s)"
  using uart_spin_idle [of "u_idle (uart s)"] uartputc_sync_run [OF assms(1,2)] assms(3) by (auto simp: idles_def)

lemma consputc_idle:
  assumes "settled s" and "\<not> panicked_flag s" and "3 \<le> idles (uart s)"
  shows "\<exists>u. consputc c s = Inr ((), s\<lparr>uart := u\<rparr>) \<and>
    u_sent u = u_sent (uart s) @ (if c = BACKSPACE then rubout else [ucast c]) \<and> idles (uart s) \<le> idles u + 3"
proof (cases "c = BACKSPACE")
  case True
  obtain u where u: "uartputc_sync 0x08 s = Inr ((), s\<lparr>uart := u\<rparr>)" "u_sent u = u_sent (uart s) @ [0x08]" "Suc (idles u) = idles (uart s)"
    using uartputc_sync_idle [OF assms(1,2), where c = "0x08"] assms(3) by auto
  obtain v where v: "uartputc_sync 0x20 (s\<lparr>uart := u\<rparr>) = Inr ((), s\<lparr>uart := v\<rparr>)" "u_sent v = u_sent u @ [0x20]" "Suc (idles v) = idles u"
    using uartputc_sync_idle [of "s\<lparr>uart := u\<rparr>" "0x20"] assms u(3) by (auto simp: lockrun)
  obtain w where w: "uartputc_sync 0x08 (s\<lparr>uart := v\<rparr>) = Inr ((), s\<lparr>uart := w\<rparr>)" "u_sent w = u_sent v @ [0x08]" "Suc (idles w) = idles v"
    using uartputc_sync_idle [of "s\<lparr>uart := v\<rparr>" "0x08"] assms u(3) v(3) by (auto simp: lockrun)
  show ?thesis using True u v w by (intro exI [of _ w]) (simp add: consputc_def rubout_def)
next
  case False
  then show ?thesis using uartputc_sync_idle [OF assms(1,2), where c = c] assms(3) by (auto simp: consputc_def)
qed

section \<open>The line editor\<close>

definition cons_ring :: "console \<Rightarrow> u8 list" where
  "cons_ring q = ring_list INPUT_BUF_SIZE (cons_buf q) (cons_r q) (cons_e q)"

definition cons_committed :: "console \<Rightarrow> u8 list" where
  "cons_committed q = take (unat (cons_w q - cons_r q)) (cons_ring q)"

definition cons_line :: "console \<Rightarrow> u8 list" where
  "cons_line q = drop (unat (cons_w q - cons_r q)) (cons_ring q)"

definition cons_wf :: "console \<Rightarrow> bool" where
  "cons_wf q \<longleftrightarrow> ring_ok INPUT_BUF_SIZE (cons_buf q) (cons_r q) (cons_e q) \<and>
     unat (cons_w q - cons_r q) \<le> unat (cons_e q - cons_r q) \<and> 0x0A \<notin> set (cons_line q)"

text \<open>What a typed character does to the committed input and the line being edited, and its echo.\<close>

definition typed :: "u8 \<Rightarrow> u8" where "typed b = (if b = 0x0D then 0x0A else b)"

definition edit :: "u8 \<Rightarrow> u8 list \<times> u8 list \<Rightarrow> u8 list \<times> u8 list" where
  "edit b st = (case st of (com, line) \<Rightarrow>
     if b = 0x15 then (com, [])
     else if b = 0x08 \<or> b = 0x7F then (com, butlast line)
     else if b = 0 \<or> INPUT_BUF_SIZE \<le> length com + length line then (com, line)
     else if typed b = 0x0A \<or> typed b = 0x04 \<or> Suc (length com + length line) = INPUT_BUF_SIZE
       then (com @ line @ [typed b], [])
     else (com, line @ [typed b]))"

definition echo :: "u8 \<Rightarrow> u8 list \<times> u8 list \<Rightarrow> u8 list" where
  "echo b st = (case st of (com, line) \<Rightarrow>
     if b = 0x15 then concat (replicate (length line) rubout)
     else if b = 0x08 \<or> b = 0x7F then (if line = [] then [] else rubout)
     else if b = 0 \<or> INPUT_BUF_SIZE \<le> length com + length line then []
     else [typed b])"

lemma cons_split: "cons_committed q @ cons_line q = cons_ring q"
  by (simp add: cons_committed_def cons_line_def)

lemma cons_lengths:
  assumes "cons_wf q"
  shows "length (cons_committed q) = unat (cons_w q - cons_r q)"
    "length (cons_committed q) + length (cons_line q) = unat (cons_e q - cons_r q)"
    "unat (cons_e q - cons_r q) \<le> INPUT_BUF_SIZE"
  using assms by (simp_all add: cons_wf_def cons_committed_def cons_line_def cons_ring_def ring_ok_def)

lemma cons_line_empty: "cons_wf q \<Longrightarrow> cons_line q = [] \<longleftrightarrow> cons_e q = cons_w q"
  using cons_lengths [of q] word_unat_eq_iff [of "cons_e q - cons_r q" "cons_w q - cons_r q"]
  by (auto simp: cons_line_def cons_ring_def cons_wf_def)

lemma ring_unpush:
  fixes r w :: "'w::len word"
  assumes ok: "ring_ok N d r w" and ne: "r \<noteq> w"
  shows "ring_ok N d r (w - 1)"
    and "ring_list N d r w = ring_list N d r (w - 1) @ [d ! (unat (w - 1) mod N)]"
proof -
  have "unat (w - r) = Suc (unat (w - (r + 1)))" using ne by (rule unat_diff_Suc)
  then have len: "unat (w - r) = Suc (unat (w - 1 - r))" by (simp add: diff_diff_eq add.commute)
  then show "ring_ok N d r (w - 1)" using ok by (simp add: ring_ok_def)
  have "(unat r + unat (w - 1 - r)) mod N = unat (w - 1) mod N" using ok by (intro ring_end) (simp add: ring_ok_def)
  then show "ring_list N d r w = ring_list N d r (w - 1) @ [d ! (unat (w - 1) mod N)]"
    by (simp add: ring_list_def len)
qed

lemma cons_erase:
  assumes "cons_wf q" and "cons_e q \<noteq> cons_w q"
  defines "q' \<equiv> q\<lparr>cons_e := cons_e q - 1\<rparr>"
  shows "cons_wf q' \<and> cons_committed q' = cons_committed q \<and>
    cons_line q = cons_line q' @ [cons_buf q ! (unat (cons_e q - 1) mod INPUT_BUF_SIZE)]"
proof -
  note l = cons_lengths [OF assms(1)]
  have ne: "cons_line q \<noteq> []" using assms(1,2) cons_line_empty by blast
  then have "cons_r q \<noteq> cons_e q" using l(2) by auto
  with assms(1) have u: "ring_ok INPUT_BUF_SIZE (cons_buf q) (cons_r q) (cons_e q - 1)"
    "cons_ring q = cons_ring q' @ [cons_buf q ! (unat (cons_e q - 1) mod INPUT_BUF_SIZE)]"
    using ring_unpush [of INPUT_BUF_SIZE "cons_buf q" "cons_r q" "cons_e q"] by (simp_all add: cons_wf_def cons_ring_def q'_def)
  have "length (cons_ring q) = unat (cons_e q - cons_r q)" "length (cons_ring q') = unat (cons_e q - 1 - cons_r q)"
    by (simp_all add: cons_ring_def q'_def)
  then have k: "unat (cons_w q - cons_r q) \<le> unat (cons_e q - 1 - cons_r q)" "unat (cons_w q - cons_r q) \<le> length (cons_ring q')"
    using l ne u(2) length_greater_0_conv [of "cons_line q"] by (auto simp del: length_greater_0_conv)
  have w: "cons_w q' = cons_w q" "cons_r q' = cons_r q" "cons_e q' = cons_e q - 1" "cons_buf q' = cons_buf q" by (simp_all add: q'_def)
  then have line: "cons_line q = cons_line q' @ [cons_buf q ! (unat (cons_e q - 1) mod INPUT_BUF_SIZE)]"
    "cons_committed q' = cons_committed q"
    using k(2) u(2) by (simp_all add: cons_line_def cons_committed_def)
  then show ?thesis using assms(1) u(1) k(1) w by (simp add: cons_wf_def)
qed

lemma kill_line_run:
  assumes "settled s" and "\<not> panicked_flag s" and "cons_wf (cons s)" and "3 * length (cons_line (cons s)) \<le> idles (uart s)"
  shows "\<exists>u q. kill_line s = Inr ((), s\<lparr>cons := q, uart := u\<rparr>) \<and> cons_wf q \<and> cons_committed q = cons_committed (cons s) \<and>
    cons_line q = [] \<and> u_sent u = u_sent (uart s) @ concat (replicate (length (cons_line (cons s))) rubout)"
  using assms
proof (induction "length (cons_line (cons s))" arbitrary: s)
  case 0
  then have "cons_e (cons s) = cons_w (cons s)" using cons_line_empty by auto
  then have "kill_line s = Inr ((), s\<lparr>cons := cons s, uart := uart s\<rparr>)" by (simp add: kill_line.simps [of s])
  then show ?case using 0 by (intro exI [of _ "uart s"] exI [of _ "cons s"]) simp
next
  case (Suc n)
  let ?q = "(cons s)\<lparr>cons_e := cons_e (cons s) - 1\<rparr>"
  have ne: "cons_e (cons s) \<noteq> cons_w (cons s)" using Suc.hyps(2) Suc.prems(3) cons_line_empty by fastforce
  note er = cons_erase [OF Suc.prems(3) ne]
  have nl: "cons_buf (cons s) ! (unat (cons_e (cons s) - 1) mod INPUT_BUF_SIZE) \<noteq> 0x0A"
    using er Suc.prems(3) by (auto simp: cons_wf_def)
  have len: "length (cons_line ?q) = n" "length (cons_line (cons s)) = Suc n" using er Suc.hyps(2) by simp_all
  obtain u where u: "consputc BACKSPACE (s\<lparr>cons := ?q\<rparr>) = Inr ((), s\<lparr>cons := ?q, uart := u\<rparr>)"
    "u_sent u = u_sent (uart s) @ rubout" "idles (uart s) \<le> idles u + 3"
    using consputc_idle [of "s\<lparr>cons := ?q\<rparr>" BACKSPACE] Suc.prems(1,2,4) Suc.hyps(2) by (auto simp: lockrun)
  let ?t = "s\<lparr>cons := ?q, uart := u\<rparr>"
  have "\<exists>u' q. kill_line ?t = Inr ((), ?t\<lparr>cons := q, uart := u'\<rparr>) \<and> cons_wf q \<and> cons_committed q = cons_committed (cons ?t) \<and>
    cons_line q = [] \<and> u_sent u' = u_sent (uart ?t) @ concat (replicate (length (cons_line (cons ?t))) rubout)"
    using Suc.prems(1,2,4) er len u(3) by (intro Suc.hyps(1)) (simp_all add: lockrun)
  then obtain u' q where *: "kill_line ?t = Inr ((), ?t\<lparr>cons := q, uart := u'\<rparr>)" "cons_wf q" "cons_committed q = cons_committed ?q"
    "cons_line q = []" "u_sent u' = u_sent (uart s) @ rubout @ concat (replicate n rubout)" using u(2) len by auto
  then have "kill_line s = Inr ((), s\<lparr>cons := q, uart := u'\<rparr>)"
    using ne nl u(1) by (subst kill_line.simps) (simp add: upd_cons_def)
  then show ?case
    using er len * by (intro exI [of _ u'] exI [of _ q]) simp
qed

lemma cons_store:
  fixes c :: u8
  assumes "cons_wf q" and "unat (cons_e q - cons_r q) < INPUT_BUF_SIZE"
  defines "q' \<equiv> q\<lparr>cons_buf := (cons_buf q)[unat (cons_e q) mod INPUT_BUF_SIZE := c], cons_e := cons_e q + 1\<rparr>"
  shows "cons_committed q' = cons_committed q" "cons_line q' = cons_line q @ [c]" "c \<noteq> 0x0A \<Longrightarrow> cons_wf q'"
    "cons_wf (q'\<lparr>cons_w := cons_e q'\<rparr>)" "cons_committed (q'\<lparr>cons_w := cons_e q'\<rparr>) = cons_committed q @ cons_line q @ [c]"
    "cons_line (q'\<lparr>cons_w := cons_e q'\<rparr>) = []" "unat (cons_e q' - cons_r q') = Suc (unat (cons_e q - cons_r q))"
proof -
  have r: "ring_ok INPUT_BUF_SIZE (cons_buf q') (cons_r q') (cons_e q')" "cons_ring q' = cons_ring q @ [c]"
    using ring_push [of INPUT_BUF_SIZE "cons_buf q" "cons_r q" "cons_e q" c] assms(1,2)
    by (simp_all add: cons_wf_def cons_ring_def q'_def INPUT_BUF_SIZE_def)
  have l: "length (cons_ring q') = unat (cons_e q' - cons_r q')" "length (cons_ring q) = unat (cons_e q - cons_r q)"
    by (simp_all add: cons_ring_def)
  then show e: "unat (cons_e q' - cons_r q') = Suc (unat (cons_e q - cons_r q))" using r(2) by simp
  have w: "cons_w q' = cons_w q" "cons_r q' = cons_r q" by (simp_all add: q'_def)
  have k: "unat (cons_w q - cons_r q) \<le> unat (cons_e q - cons_r q)" using assms(1) by (simp add: cons_wf_def)
  show com: "cons_committed q' = cons_committed q" and line: "cons_line q' = cons_line q @ [c]"
    using k r(2) l(2) w by (simp_all add: cons_committed_def cons_line_def)
  show "cons_wf q'" if "c \<noteq> 0x0A" using that assms(1) r(1) k e line w by (auto simp: cons_wf_def)
  have "cons_ring (q'\<lparr>cons_w := cons_e q'\<rparr>) = cons_ring q'" by (simp add: cons_ring_def)
  then show "cons_committed (q'\<lparr>cons_w := cons_e q'\<rparr>) = cons_committed q @ cons_line q @ [c]"
    and l0: "cons_line (q'\<lparr>cons_w := cons_e q'\<rparr>) = []"
    using l(1) cons_split [of q] by (simp_all add: cons_committed_def [of "q'\<lparr>cons_w := cons_e q'\<rparr>"] cons_line_def [of "q'\<lparr>cons_w := cons_e q'\<rparr>"] r(2))
  then show "cons_wf (q'\<lparr>cons_w := cons_e q'\<rparr>)" using r(1) by (simp add: cons_wf_def)
qed

lemma ring_room: "x < of_nat INPUT_BUF_SIZE \<longleftrightarrow> unat x < INPUT_BUF_SIZE" "x = of_nat INPUT_BUF_SIZE \<longleftrightarrow> unat x = INPUT_BUF_SIZE"
  for x :: u32
proof -
  have "unat (of_nat INPUT_BUF_SIZE :: u32) = INPUT_BUF_SIZE" by (simp add: INPUT_BUF_SIZE_def)
  then show "x < of_nat INPUT_BUF_SIZE \<longleftrightarrow> unat x < INPUT_BUF_SIZE" "x = of_nat INPUT_BUF_SIZE \<longleftrightarrow> unat x = INPUT_BUF_SIZE"
    by (simp_all only: word_less_nat_alt word_unat_eq_iff)
qed

lemma unat_u8: "unat (b :: u8) < 256"
  using unsigned_less [of b] by simp

lemma unat_key: "unat (ucast (b :: u8) :: u32) = unat b"
  using unat_u8 [of b] by (simp add: unsigned_ucast_eq take_bit_nat_eq_self)

lemma key_eq:
  "ucast (b :: u8) = (0x10 :: u32) \<longleftrightarrow> b = 0x10" "ucast b = (0x15 :: u32) \<longleftrightarrow> b = 0x15"
  "ucast b = (8 :: u32) \<longleftrightarrow> b = 8" "ucast b = (0x7F :: u32) \<longleftrightarrow> b = 0x7F" "ucast b = (0 :: u32) \<longleftrightarrow> b = 0"
  "ucast b = (0x0D :: u32) \<longleftrightarrow> b = 0x0D" "ucast b = (0x0A :: u32) \<longleftrightarrow> b = 0x0A" "ucast b = (4 :: u32) \<longleftrightarrow> b = 4"
  by (simp_all add: word_unat_eq_iff unat_key)

lemma ucast_ucast_b: "ucast (ucast (b :: u8) :: u32) = b"
  by (simp add: word_unat_eq_iff unsigned_ucast_eq take_bit_word_eq_self)

lemma key_not_backspace: "ucast (b :: u8) \<noteq> BACKSPACE"
  using unat_u8 [of b] by (auto simp: word_unat_eq_iff [where 'a = 32] unat_key BACKSPACE_def)

lemma cons_uart_swap: "s\<lparr>uart := u, cons := q\<rparr> = s\<lparr>cons := q, uart := u\<rparr>"
  by simp

text \<open>The console in a state that holds its lock.\<close>

definition cons_run :: "u8 \<Rightarrow> 'a cnst_scheme \<Rightarrow> (unit \<times> 'a cnst_scheme) res \<Rightarrow> bool" where
  "cons_run b s res \<longleftrightarrow> (\<exists>u q ps. res = Inr ((), s\<lparr>cons := q, uart := u, procs := ps\<rparr>) \<and> cons_wf q \<and>
     (cons_committed q, cons_line q) = edit b (cons_committed (cons s), cons_line (cons s)) \<and>
     u_sent u = u_sent (uart s) @ echo b (cons_committed (cons s), cons_line (cons s)) \<and>
     ps = (if cons_committed q = cons_committed (cons s) then procs s
       else woken (Some ChanCons) (curproc s) {..<NPROC} (procs s)))"

lemma consoleintr_erase_run:
  assumes "settled s" and "\<not> panicked_flag s" and "cons_wf (cons s)" and "3 \<le> idles (uart s)" and "b = 0x08 \<or> b = 0x7F"
  shows "cons_run b s (consoleintr_erase s)"
proof (cases "cons_e (cons s) = cons_w (cons s)")
  case True
  then have "cons_line (cons s) = []" using assms(3) cons_line_empty by blast
  then show ?thesis
    using True assms(3,5) unfolding cons_run_def consoleintr_erase_def
    by (intro exI [of _ "uart s"] exI [of _ "cons s"] exI [of _ "procs s"]) (auto simp: edit_def echo_def)
next
  case False
  let ?q = "(cons s)\<lparr>cons_e := cons_e (cons s) - 1\<rparr>"
  note er = cons_erase [OF assms(3) False]
  obtain u where "consputc BACKSPACE (s\<lparr>cons := ?q\<rparr>) = Inr ((), s\<lparr>cons := ?q, uart := u\<rparr>)" "u_sent u = u_sent (uart s) @ rubout"
    using consputc_idle [of "s\<lparr>cons := ?q\<rparr>" BACKSPACE] assms(1,2,4) by (auto simp: lockrun)
  then show ?thesis
    using False er assms(5) unfolding cons_run_def consoleintr_erase_def
    by (intro exI [of _ u] exI [of _ ?q] exI [of _ "procs s"]) (auto simp: edit_def echo_def upd_cons_def)
qed

lemma consoleintr_store_run:
  assumes "settled s" and "procs_free s" and "\<not> panicked_flag s" and "cons_wf (cons s)" and "3 \<le> idles (uart s)"
    and "b \<notin> {0x15, 0x08, 0x7F}"
  shows "cons_run b s (consoleintr_store (ucast b) s)"
proof (cases "b \<noteq> 0 \<and> unat (cons_e (cons s) - cons_r (cons s)) < INPUT_BUF_SIZE")
  case False
  note l = cons_lengths [OF assms(4)]
  have "consoleintr_store (ucast b) s = Inr ((), s)" using False by (auto simp: consoleintr_store_def key_eq ring_room)
  moreover have "b = 0 \<or> INPUT_BUF_SIZE \<le> length (cons_committed (cons s)) + length (cons_line (cons s))" using False l by auto
  ultimately show ?thesis
    using assms(4,6) unfolding cons_run_def
    by (intro exI [of _ "uart s"] exI [of _ "cons s"] exI [of _ "procs s"]) (auto simp: edit_def echo_def)
next
  case True
  note l = cons_lengths [OF assms(4)]
  let ?c = "typed b" and ?q = "(cons s)\<lparr>cons_buf := (cons_buf (cons s))[unat (cons_e (cons s)) mod INPUT_BUF_SIZE := typed b],
    cons_e := cons_e (cons s) + 1\<rparr>"
  note st = cons_store [OF assms(4) True [THEN conjunct2], of "typed b"]
  have c: "(if ucast b = (0x0D :: u32) then 0x0A else ucast b) = ucast (typed b)" by (simp add: typed_def key_eq)
  obtain u where u: "consputc (ucast ?c) s = Inr ((), s\<lparr>uart := u\<rparr>)" "u_sent u = u_sent (uart s) @ [?c]"
    using consputc_idle [OF assms(1,3,5), of "ucast ?c"] by (auto simp: key_not_backspace ucast_ucast_b)
  let ?commit = "?c = 0x0A \<or> ?c = 0x04 \<or> Suc (unat (cons_e (cons s) - cons_r (cons s))) = INPUT_BUF_SIZE"
  let ?q' = "if ?commit then ?q\<lparr>cons_w := cons_e ?q\<rparr> else ?q"
  have "consoleintr_store (ucast b) s = (if ?commit then wakeup (Some ChanCons) (s\<lparr>cons := ?q\<lparr>cons_w := cons_e ?q\<rparr>, uart := u\<rparr>)
    else Inr ((), s\<lparr>cons := ?q, uart := u\<rparr>))"
    using True u(1) st(7) unfolding consoleintr_store_def c by (simp add: key_eq ring_room upd_cons_def Let_def ucast_ucast_b cons_uart_swap)
  also have "\<dots> = Inr ((), s\<lparr>cons := ?q', uart := u, procs := if ?commit then woken (Some ChanCons) (curproc s) {..<NPROC} (procs s) else procs s\<rparr>)"
    using assms(1,2) by (simp add: lockrun procs_free_def)
  finally show ?thesis
    using st True assms(6) u(2) l unfolding cons_run_def
    by (intro exI [of _ u] exI [of _ ?q'] exI [of _ "if ?commit then woken (Some ChanCons) (curproc s) {..<NPROC} (procs s) else procs s"])
      (simp add: edit_def echo_def)
qed

lemma consoleintr_run:
  assumes "settled s" and "procs_free s" and "lock_free ConsLock s" and "\<not> panicked_flag s" and "cons_wf (cons s)"
    and "3 * INPUT_BUF_SIZE \<le> idles (uart s)" and "b \<noteq> 0x10"
  shows "cons_run b s (consoleintr (ucast b) s)"
proof -
  let ?t = "acqd ConsLock s"
  let ?f = "if ucast b = (0x15 :: u32) then kill_line else if ucast b = (0x08 :: u32) \<or> ucast b = (0x7f :: u32) then consoleintr_erase
    else consoleintr_store (ucast b)"
  have t: "settled ?t" "procs_free ?t" "\<not> panicked_flag ?t" "cons_wf (cons ?t)" "3 * INPUT_BUF_SIZE \<le> idles (uart ?t)"
    using assms by (simp_all add: lockrun)
  have e: "cons ?t = cons s" "uart ?t = uart s" "procs ?t = procs s" "curproc ?t = curproc s" by (simp_all add: lockrun)
  have "length (cons_line (cons ?t)) \<le> INPUT_BUF_SIZE" using cons_lengths [OF t(4)] by simp
  then have ids: "3 \<le> idles (uart ?t)" "3 * length (cons_line (cons ?t)) \<le> idles (uart ?t)"
    using t(5) by (auto simp: INPUT_BUF_SIZE_def)
  have "cons_run b ?t (?f ?t)"
  proof (cases "b = 0x15")
    case True
    obtain u q where *: "kill_line ?t = Inr ((), ?t\<lparr>cons := q, uart := u\<rparr>)" "cons_wf q" "cons_committed q = cons_committed (cons ?t)"
      "cons_line q = []" "u_sent u = u_sent (uart ?t) @ concat (replicate (length (cons_line (cons ?t))) rubout)"
      using kill_line_run [OF t(1,3,4) ids(2)] by blast
    then show ?thesis using True unfolding cons_run_def
      by (intro exI [of _ u] exI [of _ q] exI [of _ "procs ?t"]) (simp add: edit_def echo_def lockrun)
  next
    case False
    then show ?thesis
      using consoleintr_erase_run [OF t(1,3,4) ids(1), of b] consoleintr_store_run [OF t(1-4) ids(1), of b]
      by (auto simp: key_eq)
  qed
  then obtain u q ps where "?f ?t = Inr ((), ?t\<lparr>cons := q, uart := u, procs := ps\<rparr>)" "cons_wf q"
    "(cons_committed q, cons_line q) = edit b (cons_committed (cons s), cons_line (cons s))"
    "u_sent u = u_sent (uart s) @ echo b (cons_committed (cons s), cons_line (cons s))"
    "ps = (if cons_committed q = cons_committed (cons s) then procs s else woken (Some ChanCons) (curproc s) {..<NPROC} (procs s))"
    unfolding cons_run_def e by blast
  moreover from this(1) have "consoleintr (ucast b) s = Inr ((), s\<lparr>cons := q, uart := u, procs := ps\<rparr>)"
    using assms(1,3,7) by (simp add: consoleintr_def lockrun key_eq split: if_splits)
  ultimately show ?thesis unfolding cons_run_def by blast
qed

section \<open>Reading a line\<close>

text \<open>What a reader that asks for \<open>n\<close> bytes is given and what is left: up to the end of the line; a
  control-D ends the input and stays for the next read unless it comes first.\<close>

fun read_line :: "bool \<Rightarrow> nat \<Rightarrow> u8 list \<Rightarrow> (u8 list \<times> u8 list) option" where
  "read_line first 0 cs = Some ([], cs)"
| "read_line first (Suc n) [] = None"
| "read_line first (Suc n) (c # cs) =
     (if c = 0x04 then Some ([], if first then cs else c # cs)
      else if c = 0x0A then Some ([c], cs)
      else map_option (\<lambda>(out, rest). (c # out, rest)) (read_line False n cs))"

lemma read_line_length: "read_line first n cs = Some (out, rest) \<Longrightarrow> length out \<le> length cs"
  by (induction first n cs arbitrary: out rest rule: read_line.induct) (fastforce split: if_splits)+

lemma cons_take:
  assumes "cons_wf q" and "cons_committed q = c # cs"
  defines "q' \<equiv> q\<lparr>cons_r := cons_r q + 1\<rparr>"
  shows "cons_wf q'" "cons_committed q' = cs" "cons_line q' = cons_line q"
    "cons_buf q ! (unat (cons_r q) mod INPUT_BUF_SIZE) = c" "cons_r q \<noteq> cons_w q"
proof -
  note l = cons_lengths [OF assms(1)]
  show ne: "cons_r q \<noteq> cons_w q" using l(1) assms(2) by auto
  have "cons_r q \<noteq> cons_e q" using l(1,2) assms(2) by auto
  with assms(1) have p: "ring_ok INPUT_BUF_SIZE (cons_buf q) (cons_r q + 1) (cons_e q)"
    "cons_ring q = cons_buf q ! (unat (cons_r q) mod INPUT_BUF_SIZE) # cons_ring q'"
    using ring_pop [of INPUT_BUF_SIZE "cons_buf q" "cons_r q" "cons_e q"] by (simp_all add: cons_wf_def cons_ring_def q'_def)
  have k: "unat (cons_w q - cons_r q) = Suc (unat (cons_w q - (cons_r q + 1)))"
    "unat (cons_e q - cons_r q) = Suc (unat (cons_e q - (cons_r q + 1)))"
    using ne \<open>cons_r q \<noteq> cons_e q\<close> by (auto intro: unat_diff_Suc)
  show "cons_committed q' = cs" "cons_buf q ! (unat (cons_r q) mod INPUT_BUF_SIZE) = c"
    and line: "cons_line q' = cons_line q"
    using p(2) k assms(2) by (simp_all add: cons_committed_def cons_line_def q'_def)
  show "cons_wf q'" using assms(1) line p(1) k by (simp add: cons_wf_def) (simp add: q'_def)
qed

lemma mem_cons_swap: "(s\<lparr>mem := m\<rparr>)\<lparr>cons := q\<rparr> = s\<lparr>cons := q, mem := m\<rparr>"
  by (cases s) simp

text \<open>A call of \<open>consoleread\<close> by process \<open>pr\<close>.\<close>

definition cons_call :: "nat \<Rightarrow> u64 list \<Rightarrow> 'a cnst_scheme \<Rightarrow> bool" where
  "cons_call pr ps s \<longleftrightarrow> settled s \<and> lock_free ConsLock s \<and> curproc s = Some pr \<and>
     uspace s ps (p_pagetable (procs s pr)) \<and> cons_wf (cons s)"

lemma uspace_cons: "uspace (s\<lparr>cons := q\<rparr>) ps pt \<longleftrightarrow> uspace s ps pt"
  by (simp add: uspace_def pt_ok_def kpool_def can_lock_def hart_ok_def lock_free_def spin_defs)

lemma of_nat_Suc_u32: "of_nat (Suc n) - 1 = (of_nat n :: u32)"
  by simp

lemma pos_u32: "Suc n < 2 ^ 31 \<Longrightarrow> 0 <s (of_nat (Suc n) :: u32)"
  unfolding word_sless_alt by (simp only: sint_of_nat_small) simp

lemma less_u32: "n < 2 ^ 31 \<Longrightarrow> m < 2 ^ 31 \<Longrightarrow> (of_nat n :: u32) < of_nat m \<longleftrightarrow> n < m"
  by (simp add: word_less_nat_alt unsigned_of_nat take_bit_nat_eq_self)

lemma consoleread_loop_run:
  assumes "cons_call pr ps s" and "n \<le> t" and "t < 2 ^ 31"
    and "read_line (n = t) n (cons_committed (cons s)) = Some (out, rest)"
    and "\<forall>i < length out. ubyte (mem s) (p_pagetable (procs s pr)) (a + of_nat i) \<noteq> None"
  shows "\<exists>q. consoleread_loop ws (Some a) (of_nat n) (of_nat t) (acqd ConsLock s) =
      Inr (of_nat t - of_nat n + of_nat (length out), s\<lparr>cons := q, mem := uputs (p_pagetable (procs s pr)) a out (mem s)\<rparr>) \<and>
    cons_wf q \<and> cons_committed q = rest \<and> cons_line q = cons_line (cons s)"
  using assms
proof (induction n arbitrary: s a out)
  case 0
  then show ?case
    by (intro exI [of _ "cons s"]) (simp add: consoleread_loop.simps cons_call_def lockrun)
next
  case (Suc n)
  let ?pt = "p_pagetable (procs s pr)"
  note cc = Suc.prems(1) [unfolded cons_call_def]
  obtain c cs where com: "cons_committed (cons s) = c # cs"
    using Suc.prems(4) by (cases "cons_committed (cons s)") auto
  let ?q = "(cons s)\<lparr>cons_r := cons_r (cons s) + 1\<rparr>"
  have wf: "cons_wf (cons s)" using cc by simp
  note tk = cons_take [OF wf com]
  have n: "0 <s (of_nat (Suc n) :: u32)" using Suc.prems(2,3) by (intro pos_u32) simp
  have lt: "of_nat (Suc n) < (of_nat t :: u32) \<longleftrightarrow> Suc n \<noteq> t" using Suc.prems(2,3) less_u32 [of "Suc n" t] by auto
  have us: "uspace (s\<lparr>cons := ?q\<rparr>) ps ?pt" "uspace (acqd ConsLock (s\<lparr>cons := ?q\<rparr>)) ps ?pt"
    using cc by (simp_all add: uspace_cons uspace_acqd lockrun)
  show ?case
  proof (cases "c = 0x04")
    case True
    let ?q' = "if Suc n \<noteq> t then cons s else ?q"
    have "(cons s)\<lparr>cons_r := cons_r (cons s)\<rparr> = cons s" by simp
    then have "consoleread_loop ws (Some a) (of_nat (Suc n)) (of_nat t) (acqd ConsLock s) =
      Inr (of_nat t - of_nat (Suc n), s\<lparr>cons := ?q'\<rparr>)"
      using True cc n lt tk(4,5) by (subst consoleread_loop.simps) (simp add: lockrun upd_cons_def del: of_nat_Suc)
    moreover have "out = []" "rest = (if Suc n = t then cs else c # cs)" using Suc.prems(4) com True by (auto split: if_splits)
    ultimately show ?thesis using tk com wf by (intro exI [of _ ?q']) simp
  next
    case False
    have out: "\<exists>cs'. out = c # cs'" using Suc.prems(4) com False by (auto split: if_splits)
    have ub: "ubyte (mem s) ?pt a \<noteq> None" using Suc.prems(5) [rule_format, of 0] out by auto
    let ?m = "uput ?pt a c (mem s)"
    have cp: "copyoutb ?pt a [c] (acqd ConsLock (s\<lparr>cons := ?q\<rparr>)) = Inr (0, acqd ConsLock (s\<lparr>cons := ?q, mem := ?m\<rparr>))"
      using copyoutb_byte [OF us(2), of a c] ub by (simp add: lockrun)
    note up = uput_ok [OF us(1), of a c]
    have step: "consoleread_loop ws (Some a) (of_nat (Suc n)) (of_nat t) (acqd ConsLock s) =
      (if c = 0x0A then Inr (of_nat t - of_nat n, s\<lparr>cons := ?q, mem := ?m\<rparr>)
       else consoleread_loop ws (Some (a + 1)) (of_nat n) (of_nat t) (acqd ConsLock (s\<lparr>cons := ?q, mem := ?m\<rparr>)))"
      using False cc n cp tk(4,5)
      by (subst consoleread_loop.simps) (simp add: lockrun upd_cons_def either_copyout_def Let_def)
    show ?thesis
    proof (cases "c = 0x0A")
      case True
      then have "out = [c]" "rest = cs" using Suc.prems(4) com by auto
      then show ?thesis using True step tk by (intro exI [of _ ?q]) simp
    next
      case c: False
      obtain cs' where o: "out = c # cs'" "read_line False n cs = Some (cs', rest)"
        using Suc.prems(4) com False c by auto
      let ?t = "s\<lparr>cons := ?q, mem := ?m\<rparr>"
      have "ubyte (mem ?t) ?pt (a + 1 + of_nat i) \<noteq> None" if "i < length cs'" for i
        using Suc.prems(5) [rule_format, of "Suc i"] that o(1) up(2) ub by (simp add: add.assoc)
      moreover have "cons_call pr ps ?t" using cc up(1) ub tk(1) by (simp add: cons_call_def lockrun)
      ultimately obtain q where
        "consoleread_loop ws (Some (a + 1)) (of_nat n) (of_nat t) (acqd ConsLock ?t) =
          Inr (of_nat t - of_nat n + of_nat (length cs'), ?t\<lparr>cons := q, mem := uputs ?pt (a + 1) cs' (mem ?t)\<rparr>)"
        "cons_wf q" "cons_committed q = rest" "cons_line q = cons_line (cons s)"
        using Suc.IH [of ?t cs' "a + 1"] Suc.prems(2,3) o(2) tk(2,3) by auto
      then show ?thesis using step c o(1) by (intro exI [of _ q]) (simp add: mem_cons_swap)
    qed
  qed
qed

section \<open>Properties\<close>


text \<open>
  (C26) The console is a line editor.  For every character but control-P, \<open>consoleintr\<close> takes the
  committed input and the line being edited to what the editor \<open>edit\<close> says: control-U empties the
  line, backspace and delete drop its last character, a NUL or a full buffer changes nothing, and
  any other character (a carriage return as a newline) is added, committing the line when it is a
  newline or a control-D or fills the buffer.  It keeps the well-formedness of the console, sends the
  echo, and makes exactly the readers runnable when something was committed.
\<close>

theorem consoleintr_edits:
  assumes "settled s" and "procs_free s" and "lock_free ConsLock s" and "\<not> panicked_flag s" and "cons_wf (cons s)"
    and "3 * INPUT_BUF_SIZE \<le> idles (uart s)" and "b \<noteq> 0x10"
  shows "\<exists>u q ps. consoleintr (ucast b) s = Inr ((), s\<lparr>cons := q, uart := u, procs := ps\<rparr>) \<and> cons_wf q \<and>
     (cons_committed q, cons_line q) = edit b (cons_committed (cons s), cons_line (cons s)) \<and>
     u_sent u = u_sent (uart s) @ echo b (cons_committed (cons s), cons_line (cons s)) \<and>
     ps = (if cons_committed q = cons_committed (cons s) then procs s
       else woken (Some ChanCons) (curproc s) {..<NPROC} (procs s))"
  using consoleintr_run [OF assms] by (simp only: cons_run_def)

text \<open>
  (C27) \<open>consoleread\<close> gives its caller at most one line of the committed input: up to and with the first
  newline, at most as many bytes as asked for, and up to a control-D, which is consumed only when
  nothing comes before it.  The bytes reach the user's buffer in order, no other user byte changes,
  and what was not read stays, as does the line being edited.
\<close>

theorem consoleread_one_line:
  assumes "cons_call pr ps s" and "n < 2 ^ 31" and "read_line True n (cons_committed (cons s)) = Some (out, rest)"
    and "\<forall>i < length out. ubyte (mem s) (p_pagetable (procs s pr)) (a + of_nat i) \<noteq> None"
  shows "\<exists>s'. consoleread ws (Some a) (of_nat n) s = Inr (of_nat (length out), s') \<and>
    cons_wf (cons s') \<and> cons_committed (cons s') = rest \<and> cons_line (cons s') = cons_line (cons s) \<and>
    (\<forall>x. ubyte (mem s') (p_pagetable (procs s pr)) x =
      (if unat (x - a) < length out then Some (out ! unat (x - a)) else ubyte (mem s) (p_pagetable (procs s pr)) x))"
proof -
  have "length out \<le> length (cons_committed (cons s))" using read_line_length assms(3) by blast
  then have len: "length out < 2 ^ 64"
    using assms(1) cons_lengths [of "cons s"] by (simp add: cons_call_def INPUT_BUF_SIZE_def)
  have "uspace s ps (p_pagetable (procs s pr))" using assms(1) by (simp add: cons_call_def)
  then have u: "\<forall>x. ubyte (uputs (p_pagetable (procs s pr)) a out (mem s)) (p_pagetable (procs s pr)) x =
      (if unat (x - a) < length out then Some (out ! unat (x - a)) else ubyte (mem s) (p_pagetable (procs s pr)) x)"
    using uputs_ok [of s ps _ out a] assms(4) len by blast
  obtain q where "consoleread_loop ws (Some a) (of_nat n) (of_nat n) (acqd ConsLock s) =
      Inr (of_nat (length out), s\<lparr>cons := q, mem := uputs (p_pagetable (procs s pr)) a out (mem s)\<rparr>)"
    "cons_wf q" "cons_committed q = rest" "cons_line q = cons_line (cons s)"
    using consoleread_loop_run [OF assms(1), of n n out rest a ws] assms(2-4) by auto
  moreover from this(1) have "consoleread ws (Some a) (of_nat n) s =
      Inr (of_nat (length out), s\<lparr>cons := q, mem := uputs (p_pagetable (procs s pr)) a out (mem s)\<rparr>)"
    using assms(1) by (simp add: consoleread_def cons_call_def lockrun)
  ultimately show ?thesis using u by simp
qed

section \<open>Witnesses\<close>

lemma demo_cons: "cons_wf (cons demo_st)" "cons_committed (cons demo_st) = []" "cons_line (cons demo_st) = []"
  by (simp_all add: cons_wf_def cons_committed_def cons_line_def cons_ring_def demo_st_def ring_ok_def ring_list_def INPUT_BUF_SIZE_def)

lemma demo_uart: "uart_wf demo_st" "uart_list demo_st = []" "\<not> panicked_flag demo_st" "procs_free demo_st" "u_rx (uart demo_st) = []"
    "u_sent (uart demo_st) = []"
  by (simp_all add: uart_wf_def uart_list_def demo_st_def ring_ok_def ring_list_def UART_TX_BUF_SIZE_def procs_free_def lock_free_def demo_sys_def)


definition demo_idle :: trst where
  "demo_idle = demo_st\<lparr>uart := (uart demo_st)\<lparr>u_idle := replicate 400 True\<rparr>\<rparr>"

theorem consoleintr_edits_witness:
  "\<exists>s'. consoleintr 0x0D demo_idle = Inr ((), s') \<and> cons_committed (cons s') = [0x0A] \<and> u_sent (uart s') = [0x0A]"
proof -
  have "settled demo_idle" "procs_free demo_idle" "lock_free ConsLock demo_idle" "\<not> panicked_flag demo_idle"
    "cons_wf (cons demo_idle)" "3 * INPUT_BUF_SIZE \<le> idles (uart demo_idle)"
    using demo_uart demo_cons by (simp_all add: demo_idle_def lockrun procs_free_def idles_def INPUT_BUF_SIZE_def)
  from consoleintr_edits [OF this, of "0x0D"] show ?thesis
    by (auto simp: demo_idle_def demo_cons demo_uart edit_def echo_def typed_def INPUT_BUF_SIZE_def)
qed

definition demo_line :: trst where
  "demo_line = demo_st\<lparr>cons := \<lparr>cons_buf = [104, 105, 0x0A, 120] @ replicate 124 0, cons_r = 0, cons_w = 3, cons_e = 4\<rparr>\<rparr>"

theorem consoleread_one_line_witness:
  "\<exists>s'. consoleread [] (Some 16) 10 demo_line = Inr (3, s') \<and> ubyte (mem s') 0x80030000 17 = Some 105 \<and>
     cons_line (cons s') = [120]"
proof -
  have c: "cons_wf (cons demo_line)" "cons_committed (cons demo_line) = [104, 105, 0x0A]" "cons_line (cons demo_line) = [120]"
    by (simp_all add: cons_wf_def cons_committed_def cons_line_def cons_ring_def demo_line_def ring_ok_def ring_list_def INPUT_BUF_SIZE_def
        upt_rec)
  have d: "settled demo_line" "lock_free ConsLock demo_line" "curproc demo_line = Some 0" "procs demo_line = procs demo_st" "mem demo_line = demo_mem"
    by (simp_all add: demo_line_def lockrun)
  have "uspace demo_line [0x80040000] 0x80030000" using demo_st_uspace by (simp add: demo_line_def uspace_cons)
  with c d have "cons_call 0 [0x80040000] demo_line" by (simp add: cons_call_def demo_init_def)
  moreover have "read_line True 10 [104, 105, 0x0A] = Some ([104, 105, 0x0A], [])" by code_simp
  moreover have "\<forall>i < length [104, 105, 0x0A :: u8]. ubyte demo_mem 0x80030000 (16 + of_nat i) \<noteq> None" using demo_mapped by simp
  ultimately obtain s' where "consoleread [] (Some 16) 10 demo_line = Inr (3, s')" "cons_line (cons s') = [120]"
    "\<forall>x. ubyte (mem s') 0x80030000 x = (if unat (x - 16) < 3 then Some ([104, 105, 0x0A] ! unat (x - 16)) else ubyte demo_mem 0x80030000 x)"
    using consoleread_one_line [of 0 "[0x80040000]" demo_line 10 "[104, 105, 0x0A]" "[]" 16 "[]"] by (auto simp: c d demo_init_def)
  then show ?thesis by (intro exI [of _ s']) simp
qed

end
