(* ===== verification/Trapvec.thy ===== *)
theory Trapvec
  imports Proc
begin

text \<open>
  The assembly entry points: \<open>uservec\<close> and \<open>userret\<close> of \<open>kernel/trampoline.S\<close>, \<open>kernelvec\<close>
  and \<open>timervec\<close> of \<open>kernel/kernelvec.S\<close>, and \<open>kernel/entry.S\<close>, as lists of instructions run
  on the registers of a hart.  How the hart translates addresses under a value of \<open>satp\<close> is a
  field of the state; machine mode does not translate.  A \<open>call\<close> runs what the C function does
  to the hart.
\<close>

section \<open>The machine\<close>

datatype reg = X0 | RA | SP | GP | TP | T0 | T1 | T2 | S0 | S1 | A0 | A1 | A2 | A3 | A4 | A5 | A6 | A7
  | S2 | S3 | S4 | S5 | S6 | S7 | S8 | S9 | S10 | S11 | T3 | T4 | T5 | T6

datatype csrname = SSCRATCH | SATP | SEPC | SSTATUS | SIP | MSCRATCH | MEPC | MSTATUS | MHARTID

datatype priv = PUser | PSupervisor | PMachine

record amach =
  xreg :: "reg \<Rightarrow> u64"
  xcsr :: "csrname \<Rightarrow> u64"
  xpc :: u64
  xpriv :: priv
  xmem :: mem
  xlate :: "u64 \<Rightarrow> u64 \<Rightarrow> u64"
  xfences :: nat

datatype instr =
    LD reg u64 reg | SD reg u64 reg | LI reg u64 | ADDI reg reg u64 | ADD reg reg reg | MUL reg reg reg
  | CSRR reg csrname | CSRW csrname reg | CSRRW reg csrname reg | SFENCE_VMA
  | JR reg | CALL "amach \<Rightarrow> amach" | SRET | MRET

definition rget :: "amach \<Rightarrow> reg \<Rightarrow> u64" where
  "rget s r = (if r = X0 then 0 else xreg s r)"

definition rset :: "reg \<Rightarrow> u64 \<Rightarrow> amach \<Rightarrow> amach" where
  "rset r v s = (if r = X0 then s else s\<lparr>xreg := (xreg s)(r := v)\<rparr>)"

definition cset :: "csrname \<Rightarrow> u64 \<Rightarrow> amach \<Rightarrow> amach" where
  "cset c v s = s\<lparr>xcsr := (xcsr s)(c := v)\<rparr>"

definition paddr :: "amach \<Rightarrow> u64 \<Rightarrow> u64" where
  "paddr s va = (if xpriv s = PMachine then va else xlate s (xcsr s SATP) va)"

text \<open>\<open>sret\<close> and \<open>mret\<close>: the privilege and the interrupt enable bit saved by the trap come back.\<close>

definition sret :: "amach \<Rightarrow> amach" where
  "sret s = (let st = xcsr s SSTATUS in
     cset SSTATUS (unset_bit 8 (set_bit 5 (if bit st 5 then set_bit 1 st else unset_bit 1 st)))
       (s\<lparr>xpc := xcsr s SEPC, xpriv := (if bit st 8 then PSupervisor else PUser)\<rparr>))"

definition mret :: "amach \<Rightarrow> amach" where
  "mret s = (let st = xcsr s MSTATUS; mpp = drop_bit 11 st AND 3 in
     cset MSTATUS (unset_bit 11 (unset_bit 12 (set_bit 7 (if bit st 7 then set_bit 3 st else unset_bit 3 st))))
       (s\<lparr>xpc := xcsr s MEPC, xpriv := (if mpp = 0 then PUser else if mpp = 1 then PSupervisor else PMachine)\<rparr>))"

fun exec_instr :: "instr \<Rightarrow> amach \<Rightarrow> amach" where
  "exec_instr (LD rd off rs) s = rset rd (ld64 (xmem s) (paddr s (rget s rs + off))) s"
| "exec_instr (SD rs off rb) s = s\<lparr>xmem := st64 (xmem s) (paddr s (rget s rb + off)) (rget s rs)\<rparr>"
| "exec_instr (LI rd v) s = rset rd v s"
| "exec_instr (ADDI rd rs v) s = rset rd (rget s rs + v) s"
| "exec_instr (ADD rd a b) s = rset rd (rget s a + rget s b) s"
| "exec_instr (MUL rd a b) s = rset rd (rget s a * rget s b) s"
| "exec_instr (CSRR rd c) s = rset rd (xcsr s c) s"
| "exec_instr (CSRW c rs) s = cset c (rget s rs) s"
| "exec_instr (CSRRW rd c rs) s = rset rd (xcsr s c) (cset c (rget s rs) s)"
| "exec_instr SFENCE_VMA s = s\<lparr>xfences := xfences s + 1\<rparr>"
| "exec_instr (JR rs) s = s\<lparr>xpc := rget s rs\<rparr>"
| "exec_instr (CALL f) s = f s"
| "exec_instr SRET s = sret s"
| "exec_instr MRET s = mret s"

definition run :: "instr list \<Rightarrow> amach \<Rightarrow> amach" where
  "run is s = fold exec_instr is s"

section \<open>The code\<close>

definition entry :: "u64 \<Rightarrow> (amach \<Rightarrow> amach) \<Rightarrow> instr list" where
  "entry stack0 start_c =
    [LI SP stack0, LI A0 (1024*4), CSRR A1 MHARTID, ADDI A1 A1 1, MUL A0 A0 A1, ADD SP SP A0,
     CALL start_c]"

definition uservec :: "instr list" where
  "uservec =
    [CSRW SSCRATCH A0, LI A0 TRAPFRAME, SD RA 40 A0, SD SP 48 A0, SD GP 56 A0, SD TP 64 A0,
     SD T0 72 A0, SD T1 80 A0, SD T2 88 A0, SD S0 96 A0, SD S1 104 A0, SD A1 120 A0,
     SD A2 128 A0, SD A3 136 A0, SD A4 144 A0, SD A5 152 A0, SD A6 160 A0, SD A7 168 A0,
     SD S2 176 A0, SD S3 184 A0, SD S4 192 A0, SD S5 200 A0, SD S6 208 A0, SD S7 216 A0,
     SD S8 224 A0, SD S9 232 A0, SD S10 240 A0, SD S11 248 A0, SD T3 256 A0, SD T4 264 A0,
     SD T5 272 A0, SD T6 280 A0, CSRR T0 SSCRATCH, SD T0 112 A0, LD SP 8 A0, LD TP 32 A0,
     LD T0 16 A0, LD T1 0 A0, SFENCE_VMA, CSRW SATP T1, SFENCE_VMA, JR T0]"

definition userret :: "instr list" where
  "userret =
    [SFENCE_VMA, CSRW SATP A0, SFENCE_VMA, LI A0 TRAPFRAME, LD RA 40 A0, LD SP 48 A0,
     LD GP 56 A0, LD TP 64 A0, LD T0 72 A0, LD T1 80 A0, LD T2 88 A0, LD S0 96 A0,
     LD S1 104 A0, LD A1 120 A0, LD A2 128 A0, LD A3 136 A0, LD A4 144 A0, LD A5 152 A0,
     LD A6 160 A0, LD A7 168 A0, LD S2 176 A0, LD S3 184 A0, LD S4 192 A0, LD S5 200 A0,
     LD S6 208 A0, LD S7 216 A0, LD S8 224 A0, LD S9 232 A0, LD S10 240 A0, LD S11 248 A0,
     LD T3 256 A0, LD T4 264 A0, LD T5 272 A0, LD T6 280 A0, LD A0 112 A0, SRET]"

definition kernelvec :: "(amach \<Rightarrow> amach) \<Rightarrow> instr list" where
  "kernelvec kerneltrap =
    [ADDI SP SP (- 256), SD RA 0 SP, SD SP 8 SP, SD GP 16 SP, SD TP 24 SP, SD T0 32 SP,
     SD T1 40 SP, SD T2 48 SP, SD S0 56 SP, SD S1 64 SP, SD A0 72 SP, SD A1 80 SP,
     SD A2 88 SP, SD A3 96 SP, SD A4 104 SP, SD A5 112 SP, SD A6 120 SP, SD A7 128 SP,
     SD S2 136 SP, SD S3 144 SP, SD S4 152 SP, SD S5 160 SP, SD S6 168 SP, SD S7 176 SP,
     SD S8 184 SP, SD S9 192 SP, SD S10 200 SP, SD S11 208 SP, SD T3 216 SP, SD T4 224 SP,
     SD T5 232 SP, SD T6 240 SP, CALL kerneltrap, LD RA 0 SP, LD SP 8 SP, LD GP 16 SP,
     LD T0 32 SP, LD T1 40 SP, LD T2 48 SP, LD S0 56 SP, LD S1 64 SP, LD A0 72 SP,
     LD A1 80 SP, LD A2 88 SP, LD A3 96 SP, LD A4 104 SP, LD A5 112 SP, LD A6 120 SP,
     LD A7 128 SP, LD S2 136 SP, LD S3 144 SP, LD S4 152 SP, LD S5 160 SP, LD S6 168 SP,
     LD S7 176 SP, LD S8 184 SP, LD S9 192 SP, LD S10 200 SP, LD S11 208 SP, LD T3 216 SP,
     LD T4 224 SP, LD T5 232 SP, LD T6 240 SP, ADDI SP SP 256, SRET]"

definition timervec :: "instr list" where
  "timervec =
    [CSRRW A0 MSCRATCH A0, SD A1 0 A0, SD A2 8 A0, SD A3 16 A0, LD A1 24 A0, LD A2 32 A0,
     LD A3 0 A1, ADD A3 A3 A2, SD A3 0 A1, LI A1 2, CSRW SIP A1, LD A3 16 A0,
     LD A2 8 A0, LD A1 0 A0, CSRRW A0 MSCRATCH A0, MRET]"

section \<open>Saving and restoring registers\<close>

lemma run_simps [simp]: "run [] s = s" "run (i # is) s = run is (exec_instr i s)" "run (is @ js) s = run js (run is s)"
  by (simp_all add: run_def)

text \<open>Eight-byte slots of a block of memory: a list of stores to distinct slots, and the loads.\<close>

definition save :: "(reg \<Rightarrow> nat) \<Rightarrow> reg \<Rightarrow> reg list \<Rightarrow> instr list" where
  "save slot b rs = map (\<lambda>r. SD r (of_nat (8 * slot r)) b) rs"

definition restore :: "(reg \<Rightarrow> nat) \<Rightarrow> reg \<Rightarrow> reg list \<Rightarrow> instr list" where
  "restore slot b rs = map (\<lambda>r. LD r (of_nat (8 * slot r)) b) rs"

text \<open>The block of \<open>n\<close> words at \<open>base\<close> appears at the virtual address \<open>va\<close>.\<close>

definition block_at :: "nat \<Rightarrow> amach \<Rightarrow> u64 \<Rightarrow> u64 \<Rightarrow> bool" where
  "block_at n s va base \<longleftrightarrow> (\<forall>i < n. paddr s (va + of_nat (8 * i)) = base + of_nat (8 * i))"

lemma save_slots_apart:
  assumes "i \<noteq> j" "i < 36" "j < 36"
  shows "apart (b + of_nat (8 * i)) 8 (b + of_nat (8 * j)) 8"
proof -
  have "8 \<le> unat (of_nat (8 * x) - of_nat (8 * y) :: u64)" if "x \<noteq> y" "x < 36" "y < 36" for x y
    using that by (simp add: unat_sub_if' unsigned_of_nat take_bit_nat_eq_self del: of_nat_mult) linarith
  then show ?thesis using assms by (simp add: apart_def del: of_nat_mult)
qed

lemma block_at_mem [simp]: "block_at n (s\<lparr>xmem := m\<rparr>) va base \<longleftrightarrow> block_at n s va base"
  by (simp add: block_at_def paddr_def)

lemma paddr_xreg [simp]: "paddr (s\<lparr>xreg := f\<rparr>) va = paddr s va"
  by (simp add: paddr_def)

lemma rget_mem [simp]: "rget (s\<lparr>xmem := m\<rparr>) r = rget s r"
  by (simp add: rget_def)

lemma run_save:
  assumes "\<forall>r\<in>set rs. slot r < n" and "n \<le> 36" and "inj_on slot (set rs)" and "distinct rs" and "X0 \<notin> set rs"
    and "block_at n s (rget s b) base"
  shows "\<exists>m. run (save slot b rs) s = s\<lparr>xmem := m\<rparr> \<and>
    (\<forall>r\<in>set rs. ld64 m (base + of_nat (8 * slot r)) = xreg s r) \<and>
    (\<forall>i < n. i \<notin> slot ` set rs \<longrightarrow> ld64 m (base + of_nat (8 * i)) = ld64 (xmem s) (base + of_nat (8 * i)))"
  using assms
proof (induction rs arbitrary: s)
  case Nil
  then show ?case by (intro exI [of _ "xmem s"]) (simp add: save_def)
next
  case (Cons r rs)
  let ?t = "s\<lparr>xmem := st64 (xmem s) (base + of_nat (8 * slot r)) (xreg s r)\<rparr>"
  have "paddr s (rget s b + of_nat (8 * slot r)) = base + of_nat (8 * slot r)" using Cons.prems(1,6) by (simp add: block_at_def)
  then have step: "exec_instr (SD r (of_nat (8 * slot r)) b) s = ?t" using Cons.prems(5) by (auto simp: rget_def [of _ r] simp del: of_nat_mult)
  obtain m where m: "run (save slot b rs) ?t = s\<lparr>xmem := m\<rparr>"
    "\<forall>r\<in>set rs. ld64 m (base + of_nat (8 * slot r)) = xreg s r"
    "\<forall>i < n. i \<notin> slot ` set rs \<longrightarrow> ld64 m (base + of_nat (8 * i)) = ld64 (xmem ?t) (base + of_nat (8 * i))"
    using Cons.IH [of ?t] Cons.prems by (auto simp: inj_on_insert)
  have "slot r \<notin> slot ` set rs" using Cons.prems(3,4) by (auto simp: inj_on_insert)
  then have "ld64 m (base + of_nat (8 * slot r)) = xreg s r" using m(3) Cons.prems(1) by simp
  moreover have "ld64 m (base + of_nat (8 * i)) = ld64 (xmem s) (base + of_nat (8 * i))" if "i < n" "i \<notin> slot ` set (r # rs)" for i
    using that m(3) save_slots_apart [of i "slot r" base] Cons.prems(1,2) by (simp add: ld64_st64_apart del: of_nat_mult)
  ultimately show ?case using m(1,2) step by (intro exI [of _ m]) (simp add: save_def del: of_nat_mult exec_instr.simps)
qed

lemma run_restore:
  assumes "\<forall>r\<in>set rs. slot r < n" and "n \<le> 36" and "X0 \<notin> set rs" and "b \<notin> set rs" and "block_at n s (rget s b) base"
  shows "run (restore slot b rs) s = s\<lparr>xreg := (\<lambda>r. if r \<in> set rs then ld64 (xmem s) (base + of_nat (8 * slot r)) else xreg s r)\<rparr>"
  using assms
proof (induction rs arbitrary: s)
  case (Cons r rs)
  let ?t = "s\<lparr>xreg := (xreg s)(r := ld64 (xmem s) (base + of_nat (8 * slot r)))\<rparr>"
  have "paddr s (rget s b + of_nat (8 * slot r)) = base + of_nat (8 * slot r)" using Cons.prems(1,5) by (simp add: block_at_def)
  then have step: "exec_instr (LD r (of_nat (8 * slot r)) b) s = ?t" using Cons.prems(3) by (auto simp: rset_def simp del: of_nat_mult)
  have "rget ?t b = rget s b" "block_at n ?t va base = block_at n s va base" for va
    using Cons.prems(4) by (auto simp: rget_def block_at_def paddr_def)
  then have "run (restore slot b rs) ?t = ?t\<lparr>xreg := (\<lambda>r. if r \<in> set rs then ld64 (xmem ?t) (base + of_nat (8 * slot r)) else xreg ?t r)\<rparr>"
    using Cons.prems by (intro Cons.IH) simp_all
  then show ?case using step by (simp add: restore_def del: of_nat_mult exec_instr.simps) (auto simp: fun_eq_iff)
qed (simp add: restore_def)

section \<open>Register numbers and slots\<close>

fun regno :: "reg \<Rightarrow> nat" where
  "regno X0 = 0" | "regno RA = 1" | "regno SP = 2" | "regno GP = 3" | "regno TP = 4" | "regno T0 = 5"
| "regno T1 = 6" | "regno T2 = 7" | "regno S0 = 8" | "regno S1 = 9" | "regno A0 = 10" | "regno A1 = 11"
| "regno A2 = 12" | "regno A3 = 13" | "regno A4 = 14" | "regno A5 = 15" | "regno A6 = 16" | "regno A7 = 17"
| "regno S2 = 18" | "regno S3 = 19" | "regno S4 = 20" | "regno S5 = 21" | "regno S6 = 22" | "regno S7 = 23"
| "regno S8 = 24" | "regno S9 = 25" | "regno S10 = 26" | "regno S11 = 27" | "regno T3 = 28" | "regno T4 = 29"
| "regno T5 = 30" | "regno T6 = 31"

definition regs :: "reg list" where
  "regs = [X0, RA, SP, GP, TP, T0, T1, T2, S0, S1, A0, A1, A2, A3, A4, A5, A6, A7,
    S2, S3, S4, S5, S6, S7, S8, S9, S10, S11, T3, T4, T5, T6]"

lemma regs_regno: "regs ! regno r = r" "regno r < 32"
  by (cases r; simp add: regs_def)+

lemma regno_inj: "inj_on regno A"
  by (rule inj_on_inverseI [of _ "\<lambda>n. regs ! n"]) (rule regs_regno)

lemma regno_pos: "r \<noteq> X0 \<Longrightarrow> 0 < regno r"
  by (cases r) simp_all

lemma in_regs: "r \<in> set regs"
  by (cases r) (simp_all add: regs_def)

definition saved_regs :: "reg list" where
  "saved_regs = filter (\<lambda>r. r \<notin> {X0, A0}) regs"

lemma saved_regs_eq: "saved_regs = [RA, SP, GP, TP, T0, T1, T2, S0, S1, A1, A2, A3, A4, A5, A6, A7,
    S2, S3, S4, S5, S6, S7, S8, S9, S10, S11, T3, T4, T5, T6]"
  by (simp add: saved_regs_def regs_def)

lemma saved_regs_facts: "distinct saved_regs" "r \<in> set saved_regs \<longleftrightarrow> r \<noteq> X0 \<and> r \<noteq> A0"
  by (simp add: saved_regs_eq) (simp add: saved_regs_def in_regs)

text \<open>The word of the trapframe a register is kept in.\<close>

definition tf_slot :: "reg \<Rightarrow> nat" where
  "tf_slot r = regno r + 4"

lemma tf_slot_facts: "tf_slot r < 36" "inj_on tf_slot A"
  using regs_regno(2) [of r] inj_onD [OF regno_inj] by (auto simp: tf_slot_def inj_on_def)

lemma uservec_split: "uservec = [CSRW SSCRATCH A0, LI A0 TRAPFRAME] @ save tf_slot A0 saved_regs @
    [CSRR T0 SSCRATCH, SD T0 112 A0, LD SP 8 A0, LD TP 32 A0, LD T0 16 A0, LD T1 0 A0, SFENCE_VMA, CSRW SATP T1, SFENCE_VMA, JR T0]"
  by (simp add: uservec_def save_def saved_regs_eq tf_slot_def)

lemma userret_split: "userret = [SFENCE_VMA, CSRW SATP A0, SFENCE_VMA, LI A0 TRAPFRAME] @ restore tf_slot A0 saved_regs @ [LD A0 112 A0, SRET]"
  by (simp add: userret_def restore_def saved_regs_eq tf_slot_def)

lemmas asm_simps = rget_def rset_def cset_def

text \<open>The trapframe at physical address \<open>tf\<close> is mapped at \<open>TRAPFRAME\<close> under \<open>satp\<close>.\<close>

definition tf_mapped :: "amach \<Rightarrow> u64 \<Rightarrow> u64 \<Rightarrow> bool" where
  "tf_mapped s satp tf \<longleftrightarrow> (\<forall>i < 36. xlate s satp (TRAPFRAME + of_nat (8 * i)) = tf + of_nat (8 * i))"

lemma uservec_run:
  assumes "xpriv s = PSupervisor" and "tf_mapped s (xcsr s SATP) tf"
  defines "s' \<equiv> run uservec s"
  shows "r \<noteq> X0 \<Longrightarrow> ld64 (xmem s') (tf + of_nat (8 * tf_slot r)) = xreg s r"
    and "xreg s' SP = ld64 (xmem s) (tf + tf_kernel_sp)" and "xreg s' TP = ld64 (xmem s) (tf + tf_kernel_hartid)"
    and "xpc s' = ld64 (xmem s) (tf + tf_kernel_trap)" and "xcsr s' SATP = ld64 (xmem s) (tf + tf_kernel_satp)"
    and "xpriv s' = PSupervisor" and "xlate s' = xlate s" and "xcsr s' SSTATUS = xcsr s SSTATUS"
proof -
  let ?s1 = "rset A0 TRAPFRAME (cset SSCRATCH (xreg s A0) s)"
  have b: "block_at 36 ?s1 (rget ?s1 A0) tf"
    using assms(1,2) by (simp add: block_at_def paddr_def tf_mapped_def asm_simps)
  have low: "i \<notin> tf_slot ` set saved_regs" if "i < 5" for i
    using that regno_pos by (force simp: tf_slot_def saved_regs_facts)
  from run_save [of saved_regs tf_slot, OF _ order_refl tf_slot_facts(2) saved_regs_facts(1) _ b]
  obtain m where m: "run (save tf_slot A0 saved_regs) ?s1 = ?s1\<lparr>xmem := m\<rparr>"
    "\<And>r. r \<in> set saved_regs \<Longrightarrow> ld64 m (tf + of_nat (8 * tf_slot r)) = xreg ?s1 r"
    "\<And>i. i < 36 \<Longrightarrow> i \<notin> tf_slot ` set saved_regs \<Longrightarrow> ld64 m (tf + of_nat (8 * i)) = ld64 (xmem ?s1) (tf + of_nat (8 * i))"
    by (auto simp: saved_regs_facts tf_slot_facts)
  let ?m = "st64 m (tf + 112) (xreg s A0)"
  have k: "ld64 ?m (tf + of_nat (8 * i)) = ld64 (xmem s) (tf + of_nat (8 * i))" if "i < 5" for i
    using that save_slots_apart [of i 14 tf] m(3) [of i] low by (simp add: ld64_st64_apart asm_simps)
  have pa: "xlate s (xcsr s SATP) (TRAPFRAME + of_nat (8 * i)) = tf + of_nat (8 * i)" if "i < 36" for i
    using that assms(2) by (simp add: tf_mapped_def)
  note num = pa [of 14] pa [of 0] pa [of 1] pa [of 2] pa [of 4] k [of 0] k [of 1] k [of 2] k [of 4]
  have s': "s' = run [CSRR T0 SSCRATCH, SD T0 112 A0, LD SP 8 A0, LD TP 32 A0, LD T0 16 A0, LD T1 0 A0, SFENCE_VMA, CSRW SATP T1, SFENCE_VMA, JR T0]
      (?s1\<lparr>xmem := m\<rparr>)"
    using m(1) by (simp add: s'_def uservec_split rget_def [of s])
  have mem: "xmem s' = ?m" using assms(1) num by (simp add: s' asm_simps paddr_def)
  show "ld64 (xmem s') (tf + of_nat (8 * tf_slot r)) = xreg s r" if "r \<noteq> X0"
  proof (cases "r = A0")
    case True
    then show ?thesis by (simp add: mem tf_slot_def)
  next
    case False
    then have "tf_slot r \<noteq> 14" using inj_onD [OF tf_slot_facts(2) [of UNIV], of r A0] by (auto simp: tf_slot_def)
    then show ?thesis
      using save_slots_apart [of "tf_slot r" 14 tf] m(2) [of r] that False
      by (simp add: mem ld64_st64_apart tf_slot_facts saved_regs_facts asm_simps)
  qed
  show "xreg s' SP = ld64 (xmem s) (tf + tf_kernel_sp)" "xreg s' TP = ld64 (xmem s) (tf + tf_kernel_hartid)"
    "xpc s' = ld64 (xmem s) (tf + tf_kernel_trap)" "xcsr s' SATP = ld64 (xmem s) (tf + tf_kernel_satp)"
    "xpriv s' = PSupervisor" "xlate s' = xlate s" "xcsr s' SSTATUS = xcsr s SSTATUS"
    using assms(1) num by (simp_all add: s' asm_simps paddr_def tf_kernel_sp_def tf_kernel_hartid_def tf_kernel_trap_def tf_kernel_satp_def)
qed

lemma userret_run:
  assumes "xpriv s = PSupervisor" and "tf_mapped s (xreg s A0) tf"
  defines "s' \<equiv> run userret s"
  shows "r \<noteq> X0 \<Longrightarrow> xreg s' r = ld64 (xmem s) (tf + of_nat (8 * tf_slot r))"
    and "xmem s' = xmem s" and "xpc s' = xcsr s SEPC" and "xcsr s' SATP = xreg s A0"
    and "xpriv s' = (if bit (xcsr s SSTATUS) 8 then PSupervisor else PUser)"
    and "bit (xcsr s' SSTATUS) 1 \<longleftrightarrow> bit (xcsr s SSTATUS) 5"
proof -
  let ?s1 = "rset A0 TRAPFRAME (cset SATP (xreg s A0) (s\<lparr>xfences := xfences s + 2\<rparr>))"
  have b: "block_at 36 ?s1 (rget ?s1 A0) tf"
    using assms(1,2) by (simp add: block_at_def paddr_def tf_mapped_def asm_simps)
  have x: "xmem ?s1 = xmem s" by (simp add: asm_simps)
  have r: "run (restore tf_slot A0 saved_regs) ?s1 =
    ?s1\<lparr>xreg := (\<lambda>r. if r \<in> set saved_regs then ld64 (xmem s) (tf + of_nat (8 * tf_slot r)) else xreg ?s1 r)\<rparr>"
    using run_restore [OF _ order_refl _ _ b, of saved_regs tf_slot] unfolding x by (simp add: saved_regs_facts tf_slot_facts)
  have s1: "run [SFENCE_VMA, CSRW SATP A0, SFENCE_VMA, LI A0 TRAPFRAME] s = ?s1" by (simp add: asm_simps)
  have "xlate s (xreg s A0) (TRAPFRAME + 112) = tf + 112" using assms(2) [unfolded tf_mapped_def, rule_format, of 14] by simp
  then have s': "s' = sret (?s1\<lparr>xreg := (\<lambda>r. if r \<in> set saved_regs then ld64 (xmem s) (tf + of_nat (8 * tf_slot r))
      else if r = A0 then ld64 (xmem s) (tf + 112) else xreg s r)\<rparr>)"
    using assms(1) unfolding s'_def userret_split run_simps(3) s1 r
    by (simp add: saved_regs_facts paddr_def) (auto simp: asm_simps fun_eq_iff saved_regs_facts intro!: arg_cong [of _ _ sret])
  show "r \<noteq> X0 \<Longrightarrow> xreg s' r = ld64 (xmem s) (tf + of_nat (8 * tf_slot r))"
    by (auto simp: s' sret_def Let_def asm_simps saved_regs_facts tf_slot_def)
  show "xmem s' = xmem s" and "xpc s' = xcsr s SEPC" and "xcsr s' SATP = xreg s A0"
    and "xpriv s' = (if bit (xcsr s SSTATUS) 8 then PSupervisor else PUser)"
    and "bit (xcsr s' SSTATUS) 1 \<longleftrightarrow> bit (xcsr s SSTATUS) 5"
    by (simp_all add: s' sret_def Let_def asm_simps bit_simps)
qed

section \<open>Traps from the kernel\<close>

definition kv_slot :: "reg \<Rightarrow> nat" where
  "kv_slot r = regno r - 1"

definition kernel_regs :: "reg list" where
  "kernel_regs = tl regs"

lemma kernel_regs_facts: "distinct kernel_regs" "r \<in> set kernel_regs \<longleftrightarrow> r \<noteq> X0"
  using in_regs [of r] by (auto simp: kernel_regs_def regs_def)

lemma kv_slot_facts: "r \<noteq> X0 \<Longrightarrow> kv_slot r < 31" "inj_on kv_slot (set kernel_regs)"
proof -
  show "r \<noteq> X0 \<Longrightarrow> kv_slot r < 31" using regs_regno(2) [of r] regno_pos [of r] by (simp add: kv_slot_def)
  show "inj_on kv_slot (set kernel_regs)"
    using inj_onD [OF regno_inj [of UNIV]] regno_pos
    by (auto simp: inj_on_def kv_slot_def kernel_regs_facts) (metis Suc_pred)
qed

lemma kernelvec_split: "kernelvec kt = [ADDI SP SP (- 256)] @ save kv_slot SP kernel_regs @ [CALL kt] @
    restore kv_slot SP [RA] @ [LD SP 8 SP] @ restore kv_slot SP (filter (\<lambda>r. r \<notin> {RA, SP, TP}) kernel_regs) @ [ADDI SP SP 256, SRET]"
  by (simp add: kernelvec_def save_def restore_def kernel_regs_def regs_def kv_slot_def)

lemma kernelvec_run:
  assumes "xpriv s = PSupervisor" and "block_at 31 s (xreg s SP - 256) base"
    and kt: "\<And>t. xreg (kt t) SP = xreg t SP" "\<And>t va. paddr (kt t) va = paddr t va"
      "\<And>t i. i < 31 \<Longrightarrow> ld64 (xmem (kt t)) (base + of_nat (8 * i)) = ld64 (xmem t) (base + of_nat (8 * i))"
  shows "\<exists>t. xcsr t = xcsr s \<and> xreg t SP = xreg s SP - 256 \<and> (let u = run (kernelvec kt) s in
    (\<forall>r. r \<noteq> X0 \<and> r \<noteq> TP \<longrightarrow> xreg u r = xreg s r) \<and> xreg u TP = xreg (kt t) TP \<and> xpc u = xcsr (kt t) SEPC)"
proof -
  let ?s1 = "rset SP (xreg s SP - 256) s"
  have b: "block_at 31 ?s1 (rget ?s1 SP) base" using assms(1,2) by (simp add: asm_simps block_at_def paddr_def)
  from run_save [OF _ _ kv_slot_facts(2) kernel_regs_facts(1) _ b]
  obtain m where m: "run (save kv_slot SP kernel_regs) ?s1 = ?s1\<lparr>xmem := m\<rparr>"
    "\<And>r. r \<noteq> X0 \<Longrightarrow> ld64 m (base + of_nat (8 * kv_slot r)) = xreg ?s1 r"
    by (auto simp: kernel_regs_facts kv_slot_facts)
  define t where "t = ?s1\<lparr>xmem := m\<rparr>"
  define u where "u = kt t"
  have t: "xreg t SP = xreg s SP - 256" "xcsr t = xcsr s" "block_at 31 t (xreg s SP - 256) base"
    using b by (simp_all add: t_def asm_simps)
  have ub: "block_at 31 u (rget u SP) base" using t kt(1,2) by (simp add: u_def rget_def block_at_def)
  have word: "ld64 (xmem u) (base + of_nat (8 * kv_slot r)) = xreg ?s1 r" if "r \<noteq> X0" for r
    using m(2) [OF that] kt(3) [OF kv_slot_facts(1) [OF that]] by (simp add: u_def t_def)
  let ?rest = "filter (\<lambda>r. r \<notin> {RA, SP, TP}) kernel_regs"
  define u1 where "u1 = u\<lparr>xreg := (xreg u)(RA := xreg s RA)\<rparr>"
  have sp: "xreg u1 SP = xreg s SP - 256" using t(1) kt(1) by (simp add: u1_def u_def)
  have u1b: "block_at 31 u1 (rget u1 SP) base" using ub by (simp add: u1_def rget_def block_at_def)
  have r1: "run (restore kv_slot SP [RA]) u = u1"
    using run_restore [OF _ _ _ _ ub, of "[RA]" kv_slot] word [of RA] unfolding u1_def
    by (simp add: kv_slot_facts asm_simps fun_upd_def if_distrib cong: if_cong)
  have "ld64 (xmem u1) (paddr u1 (rget u1 SP + 8)) = xreg u1 SP"
    using u1b [unfolded block_at_def, rule_format, of 1] word [of SP] sp by (simp add: u1_def kv_slot_def asm_simps)
  then have r2: "exec_instr (LD SP 8 SP) u1 = u1" by (simp add: asm_simps)
  have r3: "run (restore kv_slot SP ?rest) u1 =
      u1\<lparr>xreg := (\<lambda>r. if r \<in> set ?rest then ld64 (xmem u1) (base + of_nat (8 * kv_slot r)) else xreg u1 r)\<rparr>"
    using u1b by (intro run_restore) (auto simp: kernel_regs_facts kv_slot_facts)
  let ?v = "u1\<lparr>xreg := (\<lambda>r. if r \<in> set ?rest then ld64 (xmem u1) (base + of_nat (8 * kv_slot r)) else xreg u1 r)\<rparr>"
  have "run (kernelvec kt) s = sret (rset SP (xreg s SP) ?v)"
    using m(1) r1 r2 r3 sp unfolding kernelvec_split run_simps(3)
    by (simp add: rget_def u_def t_def del: exec_instr.simps(1))
  moreover have "xreg ?v r = xreg s r" if "r \<noteq> X0" "r \<noteq> TP" "r \<noteq> SP" for r
    using that word [of r] by (auto simp: kernel_regs_facts u1_def asm_simps)
  moreover have "xreg ?v TP = xreg u TP" "xcsr ?v = xcsr u" by (simp_all add: u1_def)
  ultimately show ?thesis
    using t(1,2) by (intro exI [of _ t]) (auto simp: sret_def Let_def asm_simps u_def)
qed

section \<open>The timer interrupt\<close>

lemma timervec_run:
  assumes "xpriv s = PMachine"
  defines "sc \<equiv> xcsr s MSCRATCH"
  defines "cmp \<equiv> ld64 (xmem s) (sc + 24)"
  assumes ap: "\<forall>i < 5. apart (sc + of_nat (8 * i)) 8 cmp 8"
  defines "s' \<equiv> run timervec s"
  shows "xreg s' r = xreg s r" and "xcsr s' MSCRATCH = sc" and "xcsr s' SIP = 2" and "xpc s' = xcsr s MEPC"
    and "ld64 (xmem s') cmp = ld64 (xmem s) cmp + ld64 (xmem s) (sc + 32)"
    and "ld64 (xmem s') (sc + 24) = cmp" and "ld64 (xmem s') (sc + 32) = ld64 (xmem s) (sc + 32)"
proof -
  have a: "apart (sc + 8 * of_nat i) 8 cmp 8" "apart cmp 8 (sc + 8 * of_nat i) 8" if "i < 5" for i
    using ap that by (auto simp: apart_sym [of cmp])
  have d: "apart (sc + 8 * of_nat i) 8 (sc + 8 * of_nat j) 8" if "i < 5" "j < 5" "i \<noteq> j" for i j
    using save_slots_apart [of i j sc] that by simp
  note nums = a [of 0] a [of 1] a [of 2] a [of 3] a [of 4]
    d [of 0 1] d [of 0 2] d [of 1 0] d [of 1 2] d [of 2 0] d [of 2 1]
    d [of 3 0] d [of 3 1] d [of 3 2] d [of 4 0] d [of 4 1] d [of 4 2]
  note r = ld64_st64_apart nums [simplified]
  show "xreg s' r = xreg s r" and "xcsr s' MSCRATCH = sc" and "xcsr s' SIP = 2" and "xpc s' = xcsr s MEPC"
    and "ld64 (xmem s') cmp = ld64 (xmem s) cmp + ld64 (xmem s) (sc + 32)"
    and "ld64 (xmem s') (sc + 24) = cmp" and "ld64 (xmem s') (sc + 32) = ld64 (xmem s) (sc + 32)"
    using assms(1) r cmp_def unfolding s'_def timervec_def
    by (simp_all add: asm_simps paddr_def mret_def Let_def flip: sc_def)
qed

section \<open>The first instructions\<close>

text \<open>Each hart starts with the top of its own 4096 bytes of \<open>stack0\<close>.\<close>

lemma entry_stack: "\<exists>t. run (entry stack0 start_c) s = start_c t \<and> xreg t SP = stack0 + 4096 * (xcsr s MHARTID + 1)"
  by (intro exI conjI) (simp_all add: entry_def asm_simps, simp add: algebra_simps)

section \<open>Properties\<close>

text \<open>
  (C29) A trap from user space and the return to it keep the user's registers.  \<open>uservec\<close> leaves every
  register in its slot of the trapframe and enters the kernel with the stack, hart number, trap
  handler and page table that the trapframe names; when \<open>userret\<close> runs later, on any hart, with those
  slots unchanged but possibly \<open>a0\<close>, every register comes back as it was, \<open>a0\<close> as the kernel left it,
  in user mode at \<open>sepc\<close>.
\<close>

theorem user_trap_roundtrip:
  assumes "xpriv s = PSupervisor" and "tf_mapped s (xcsr s SATP) tf"
    and "xpriv t = PSupervisor" and "tf_mapped t (xreg t A0) tf" and "\<not> bit (xcsr t SSTATUS) 8"
    and "\<forall>r. r \<notin> {X0, A0} \<longrightarrow> ld64 (xmem t) (tf + of_nat (8 * tf_slot r)) = ld64 (xmem (run uservec s)) (tf + of_nat (8 * tf_slot r))"
  shows "(let k = run uservec s in xreg k SP = ld64 (xmem s) (tf + tf_kernel_sp) \<and> xreg k TP = ld64 (xmem s) (tf + tf_kernel_hartid) \<and>
      xpc k = ld64 (xmem s) (tf + tf_kernel_trap) \<and> xcsr k SATP = ld64 (xmem s) (tf + tf_kernel_satp) \<and>
      ld64 (xmem k) (tf + tf_a0) = xreg s A0) \<and>
    (let u = run userret t in (\<forall>r. r \<notin> {X0, A0} \<longrightarrow> xreg u r = xreg s r) \<and>
      xreg u A0 = ld64 (xmem t) (tf + tf_a0) \<and> xpriv u = PUser \<and> xpc u = xcsr t SEPC)"
proof -
  have a0: "of_nat (8 * tf_slot A0) = tf_a0" by (simp add: tf_slot_def tf_a0_def)
  have "xreg (run userret t) r = xreg s r" if "r \<notin> {X0, A0}" for r
    using that assms(6) uservec_run(1) [OF assms(1,2), of r] userret_run(1) [OF assms(3,4), of r] by simp
  then show ?thesis
    using uservec_run(2-5) [OF assms(1,2)] uservec_run(1) [OF assms(1,2), of A0, unfolded a0]
      userret_run(1) [OF assms(3,4), of A0, unfolded a0] userret_run(3,5) [OF assms(3,4)] assms(5)
    by (simp add: Let_def)
qed

text \<open>
  (C30) A trap inside the kernel is invisible to the code it interrupts: if \<open>kerneltrap\<close> keeps the stack
  pointer, the address translation and the saved frame, as compiled C code does, then after
  \<open>kernelvec\<close> every register is what it was but \<open>tp\<close>, which names the hart the code now runs on, and
  execution goes on at \<open>sepc\<close>.
\<close>

theorem kernelvec_transparent:
  assumes "xpriv s = PSupervisor" and "block_at 31 s (xreg s SP - 256) base"
    and "\<forall>t. xreg (kerneltrap t) SP = xreg t SP \<and> (\<forall>va. paddr (kerneltrap t) va = paddr t va) \<and>
      (\<forall>i < 31. ld64 (xmem (kerneltrap t)) (base + of_nat (8 * i)) = ld64 (xmem t) (base + of_nat (8 * i)))"
  shows "\<exists>t. xcsr t = xcsr s \<and> xreg t SP = xreg s SP - 256 \<and> (let u = run (kernelvec kerneltrap) s in
    (\<forall>r. r \<noteq> X0 \<and> r \<noteq> TP \<longrightarrow> xreg u r = xreg s r) \<and>
    xreg u TP = xreg (kerneltrap t) TP \<and> xpc u = xcsr (kerneltrap t) SEPC)"
  by (rule kernelvec_run [OF assms(1,2)]) (use assms(3) in auto)

text \<open>
  (C31) The machine-mode timer handler keeps every register and its own scratch area, moves the hart's
  \<open>MTIMECMP\<close> one interval ahead, and raises a software interrupt for the supervisor.
\<close>

theorem timervec_rearms:
  assumes "xpriv s = PMachine" and "sc = xcsr s MSCRATCH" and "cmp = ld64 (xmem s) (sc + 24)"
    and "\<forall>i < 5. apart (sc + of_nat (8 * i)) 8 cmp 8"
  shows "let u = run timervec s in (\<forall>r. xreg u r = xreg s r) \<and> xcsr u MSCRATCH = sc \<and> xcsr u SIP = 2 \<and> xpc u = xcsr s MEPC \<and>
    ld64 (xmem u) cmp = ld64 (xmem s) cmp + ld64 (xmem s) (sc + 32) \<and>
    ld64 (xmem u) (sc + 24) = cmp \<and> ld64 (xmem u) (sc + 32) = ld64 (xmem s) (sc + 32)"
  using timervec_run [OF assms(1)] assms(2-4) by (simp add: Let_def)

section \<open>Witnesses\<close>

definition demo_mach :: "priv \<Rightarrow> amach" where
  "demo_mach p = \<lparr>xreg = (\<lambda>r. of_nat (regno r)), xcsr = (\<lambda>_. 0), xpc = 0, xpriv = p, xmem = (\<lambda>_. 0),
     xlate = (\<lambda>_ va. va), xfences = 0\<rparr>"

lemma demo_mach_sel: "xreg (demo_mach p) r = of_nat (regno r)" "xpriv (demo_mach p) = p" "xlate (demo_mach p) a va = va" "xcsr (demo_mach p) c = 0"
  by (simp_all add: demo_mach_def)

theorem user_trap_roundtrip_witness:
  "xreg (run userret ((run uservec (demo_mach PSupervisor))\<lparr>xreg := (\<lambda>_. 0)\<rparr>)) S5 = 21"
proof -
  let ?s = "demo_mach PSupervisor" and ?t = "(run uservec (demo_mach PSupervisor))\<lparr>xreg := (\<lambda>_. 0)\<rparr>"
  have m: "tf_mapped ?s (xcsr ?s SATP) TRAPFRAME" by (simp add: tf_mapped_def demo_mach_sel)
  note t = uservec_run(6-8) [OF demo_mach_sel(2) m]
  have "xreg (run userret ?t) S5 = xreg ?s S5"
    using user_trap_roundtrip [OF demo_mach_sel(2) m, of ?t] by (simp add: t tf_mapped_def demo_mach_sel Let_def)
  then show ?thesis by (simp add: demo_mach_sel)
qed

definition demo_trap :: "amach \<Rightarrow> amach" where
  "demo_trap t = t\<lparr>xreg := (\<lambda>r. if r = SP then xreg t SP else 7)\<rparr>"

theorem kernelvec_transparent_witness:
  "xreg (run (kernelvec demo_trap) (demo_mach PSupervisor)) A3 = 13"
proof -
  have b: "block_at 31 (demo_mach PSupervisor) (xreg (demo_mach PSupervisor) SP - 256) (- 254)"
    by (simp add: block_at_def paddr_def demo_mach_sel)
  have k: "\<forall>t. xreg (demo_trap t) SP = xreg t SP \<and> (\<forall>va. paddr (demo_trap t) va = paddr t va) \<and>
      (\<forall>i < 31. ld64 (xmem (demo_trap t)) (- 254 + of_nat (8 * i)) = ld64 (xmem t) (- 254 + of_nat (8 * i)))"
    by (simp add: demo_trap_def)
  obtain t where "let u = run (kernelvec demo_trap) (demo_mach PSupervisor) in
    (\<forall>r. r \<noteq> X0 \<and> r \<noteq> TP \<longrightarrow> xreg u r = xreg (demo_mach PSupervisor) r) \<and>
    xreg u TP = xreg (demo_trap t) TP \<and> xpc u = xcsr (demo_trap t) SEPC"
    using kernelvec_transparent [OF demo_mach_sel(2) b k] by blast
  then have "xreg (run (kernelvec demo_trap) (demo_mach PSupervisor)) A3 = xreg (demo_mach PSupervisor) A3"
    unfolding Let_def by blast
  then show ?thesis by (simp add: demo_mach_sel)
qed

theorem timervec_rearms_witness:
  "let s = (demo_mach PMachine)\<lparr>xmem := st64 (\<lambda>_. 0) 0x1018 0x2000, xcsr := (\<lambda>_. 0x1000)\<rparr>
   in xreg (run timervec s) A2 = 12 \<and> xcsr (run timervec s) SIP = 2"
proof -
  let ?s = "(demo_mach PMachine)\<lparr>xmem := st64 (\<lambda>_. 0) 0x1018 0x2000, xcsr := (\<lambda>_. 0x1000)\<rparr>"
  have "apart (0x1000 + of_nat (8 * i)) 8 0x2000 8" if "i < 5" for i
  proof -
    from that have "i = 0 \<or> i = 1 \<or> i = 2 \<or> i = 3 \<or> i = 4" by arith
    then show ?thesis by (auto simp: apart_def)
  qed
  with timervec_rearms [of ?s "0x1000" "0x2000"] show ?thesis
    by (simp add: Let_def demo_mach_sel)
qed

end
