(* ===== verification/Disk_Correct.thy ===== *)
theory Disk_Correct
  imports Proc_Correct Demo
begin

text \<open>
  A disk request from start to end: \<open>virtio_disk_rw\<close> queues it, sleeps, is woken by the interrupt
  the device raises when it has served the request, and returns with the block written or read.
\<close>

section \<open>Updates of the CPU\<close>

lemma intena_acqd: "settled s \<Longrightarrow> cpu_intena (cpus (acqd lk s) (mycpu s)) = cpu_intena (cpus s (mycpu s))"
  by (auto simp: acqd_settled_fields)

definition set_cpu_context :: "swtch_context \<Rightarrow> 'a kmach_scheme \<Rightarrow> 'a kmach_scheme" where
  "set_cpu_context x s = upd_cpu (\<lambda>c. c\<lparr>cpu_context := x\<rparr>) s"

lemma set_cpu_fields [lockrun]:
  "settled (set_cpu_proc q s) \<longleftrightarrow> settled s" "settled (set_cpu_context x s) \<longleftrightarrow> settled s"
  "lock_free lk (set_cpu_proc q s) \<longleftrightarrow> lock_free lk s" "lock_free lk (set_cpu_context x s) \<longleftrightarrow> lock_free lk s"
  "mycpu (set_cpu_proc q s) = mycpu s" "mycpu (set_cpu_context x s) = mycpu s"
  "cur_hart (set_cpu_proc q s) = cur_hart s" "cur_hart (set_cpu_context x s) = cur_hart s"
  "cpu_proc (cpus (set_cpu_proc q s) (mycpu s)) = q" "cpu_proc (cpus (set_cpu_context x s) (mycpu s)) = curproc s"
  "cpu_context (cpus (set_cpu_proc q s) (mycpu s)) = cpu_context (cpus s (mycpu s))"
  "cpu_noff (cpus (set_cpu_proc q s) (mycpu s)) = cpu_noff (cpus s (mycpu s))"
  "cpu_noff (cpus (set_cpu_context x s) (mycpu s)) = cpu_noff (cpus s (mycpu s))"
  "cpu_intena (cpus (set_cpu_proc q s) (mycpu s)) = cpu_intena (cpus s (mycpu s))"
  "cpu_intena (cpus (set_cpu_context x s) (mycpu s)) = cpu_intena (cpus s (mycpu s))"
  "kmach.more (set_cpu_proc q s) = kmach.more s" "kmach.more (set_cpu_context x s) = kmach.more s"
  by (simp_all add: set_cpu_proc_def set_cpu_context_def settled_def hart_ok_def lock_free_def spin_defs)

lemma acqd_sels:
  "harts (acqd lk s) = (harts s)(cur_hart s := intr_off (thishart s))"
  "cpus (acqd lk s) = (cpus s)(mycpu s := (cpus s (mycpu s))
     \<lparr>cpu_intena := if cpu_noff (cpus s (mycpu s)) = 0 then intr_get (thishart s) else cpu_intena (cpus s (mycpu s)),
      cpu_noff := cpu_noff (cpus s (mycpu s)) + 1\<rparr>)"
  "locks (acqd lk s) = (locks s)(lk := (locks s lk)\<lparr>lk_locked := 1, lk_cpu := Some (mycpu s)\<rparr>)"
  by (simp_all add: acqd_flat)

lemma set_cpu_sels:
  "cpus (set_cpu_proc q s) = (cpus s)(mycpu s := (cpus s (mycpu s))\<lparr>cpu_proc := q\<rparr>)"
  "cpus (set_cpu_context x s) = (cpus s)(mycpu s := (cpus s (mycpu s))\<lparr>cpu_context := x\<rparr>)"
  "harts (set_cpu_proc q s) = harts s" "harts (set_cpu_context x s) = harts s"
  "locks (set_cpu_proc q s) = locks s" "locks (set_cpu_context x s) = locks s"
  "thishart (set_cpu_proc q s) = thishart s" "thishart (set_cpu_context x s) = thishart s"
  by (simp_all add: set_cpu_proc_def set_cpu_context_def upd_cpu_def thishart_def)

lemma set_cpu_acqd [lockrun]:
  "set_cpu_proc q (acqd lk s) = acqd lk (set_cpu_proc q s)" "set_cpu_context x (acqd lk s) = acqd lk (set_cpu_context x s)"
  by (rule kmach.equality; simp add: acqd_fields set_cpu_fields set_cpu_sels acqd_sels fun_eq_iff)+

lemma upd_proc_sels [lockrun]: "procs (upd_proc p f s) = (procs s)(p := f (procs s p))" "kregs (upd_proc p f s) = kregs s"
  by (simp_all add: upd_proc_def)

lemma set_cpu_same: "q = curproc s \<Longrightarrow> set_cpu_proc q s = s" "x = cpu_context (cpus s (mycpu s)) \<Longrightarrow> set_cpu_context x s = s"
  by (simp_all add: set_cpu_proc_def set_cpu_context_def spin_defs)

lemma set_cpu_twice: "set_cpu_proc q (set_cpu_proc r s) = set_cpu_proc q s"
  by (simp add: set_cpu_proc_def spin_defs)

lemma upd_proc_comp: "upd_proc p f (upd_proc p g s) = upd_proc p (\<lambda>q. f (g q)) s"
  by (simp add: upd_proc_def)

section \<open>Switching away and back\<close>

lemma sched_run:
  assumes "settled s" and "curproc s = Some p" and "cpu_noff (cpus s (mycpu s)) = 0" and "p_state (procs s p) \<noteq> RUNNING"
    and "others (acqd (ProcLock p) ((upd_proc p (\<lambda>q. q\<lparr>p_context := kregs s (cur_hart s)\<rparr>) s)
      \<lparr>kregs := (kregs s)(cur_hart s := cpu_context (cpus s (mycpu s)))\<rparr>)) = Inr ((), acqd (ProcLock p) s2)"
    and "settled s2" and "mycpu s2 = mycpu s" and "cpu_intena (cpus s2 (mycpu s)) = cpu_intena (cpus s (mycpu s))"
  shows "sched others (acqd (ProcLock p) s) = Inr ((), acqd (ProcLock p) s2)"
proof -
  let ?t = "acqd (ProcLock p) s" and ?u = "acqd (ProcLock p) s2"
  have "upd_cpu (\<lambda>c. c\<lparr>cpu_intena := cpu_intena (cpus s (mycpu s))\<rparr>) ?u = ?u"
  proof -
    have "cpu_intena (cpus ?u (mycpu s)) = cpu_intena (cpus s (mycpu s))"
      using intena_acqd [OF assms(6), of "ProcLock p"] assms(7,8) by simp
    then have "(cpus ?u (mycpu s))\<lparr>cpu_intena := cpu_intena (cpus s (mycpu s))\<rparr> = cpus ?u (mycpu s)" by simp
    then show ?thesis unfolding upd_cpu_def using assms(7) by (simp add: acqd_fields)
  qed
  then show ?thesis
    using assms intena_acqd [OF assms(1), of "ProcLock p"]
    by (simp add: sched_def lockrun swtch_def Let_def intr_get_off)
qed

lemma sleep_run:
  assumes "settled s" and "curproc s = Some p" and "cpu_noff (cpus s (mycpu s)) = 0" and "lock_free lk s"
    and "lock_free (ProcLock p) s" and "lk \<noteq> ProcLock p"
    and "others (acqd (ProcLock p) ((upd_proc p (\<lambda>q. q\<lparr>p_chan := Some ch, p_state := SLEEPING, p_context := kregs s (cur_hart s)\<rparr>) s)
      \<lparr>kregs := (kregs s)(cur_hart s := cpu_context (cpus s (mycpu s)))\<rparr>)) = Inr ((), acqd (ProcLock p) s2)"
    and "settled s2" and "mycpu s2 = mycpu s" and "cpu_intena (cpus s2 (mycpu s)) = cpu_intena (cpus s (mycpu s))"
    and "lock_free lk s2" and "lock_free (ProcLock p) s2"
  shows "sleep others ch lk (acqd lk s) = Inr ((), acqd lk (upd_proc p (\<lambda>q. q\<lparr>p_chan := None\<rparr>) s2))"
proof -
  let ?s = "upd_proc p (\<lambda>q. q\<lparr>p_chan := Some ch, p_state := SLEEPING\<rparr>) s"
  have "sched others (acqd (ProcLock p) ?s) = Inr ((), acqd (ProcLock p) s2)"
    using assms by (intro sched_run) (simp_all add: lockrun, simp_all add: upd_proc_def)
  then show ?thesis
    using assms(1-6,8,11,12) by (simp add: sleep_def lockrun Let_def upd_proc_comp)
qed

section \<open>The device\<close>

text \<open>
  What a virtio block device does with the request at its head: it follows the chain of three
  descriptors, performs the transfer between disk and buffer, sets the status byte to 0 and adds the
  head of the chain to the used ring.  The device of the state is one that does this whenever exactly
  one request is new.
\<close>

definition serve :: "vqueue \<Rightarrow> vqueue" where
  "serve q =
     (let i = unat (vq_avail_ring q (unat (vq_seen q) mod NUM));
          d0 = vq_desc q i; d1 = vq_desc q (unat (vd_next d0)); d2 = vq_desc q (unat (vd_next d1))
      in case (vd_addr d0, vd_addr d1, vd_addr d2) of
        (DmaOps k, DmaData b, DmaStatus st) \<Rightarrow>
          let r = vq_ops q k; blk = unat (br_sector r) div (BSIZE div 512) in
          (if br_type r = VIRTIO_BLK_T_OUT
           then q\<lparr>vq_disk := (vq_disk q)\<lparr>d_writes := d_writes (vq_disk q) @ [(blk, vq_data q b)]\<rparr>\<rparr>
           else q\<lparr>vq_data := (vq_data q)(b := dblock (vq_disk q) blk)\<rparr>)
          \<lparr>vq_status := (vq_status q)(st := 0),
           vq_used_ring := (vq_used_ring q)(unat (vq_used_idx q) mod NUM := of_nat i),
           vq_used_idx := vq_used_idx q + 1, vq_seen := vq_seen q + 1\<rparr>
      | _ \<Rightarrow> q)"

definition virtio_device :: "(vqueue \<Rightarrow> vqueue) \<Rightarrow> bool" where
  "virtio_device dev \<longleftrightarrow> (\<forall>q. vq_avail_idx q = vq_seen q + 1 \<longrightarrow> dev q = serve q)"

section \<open>The interrupt\<close>

lemma virtio_disk_intr_run:
  assumes "settled s" and "\<And>lk. lock_free lk s" and "curproc s = None"
    and "vq_used_idx (vq s) = vd_used_idx s + 1" and "vq_used_ring (vq s) (unat (vd_used_idx s) mod NUM) = of_nat i" and "i < NUM"
    and "vq_status (vq s) i = 0" and "vd_info_b s i = Some b"
  shows "\<exists>vr. virtio_disk_intr s = Inr ((), s\<lparr>vregs := vr, bufs := (bufs s)(b := (bufs s b)\<lparr>b_disk := 0\<rparr>),
    procs := woken (Some (ChanBuf b)) None {..<NPROC} (procs s), vd_used_idx := vd_used_idx s + 1\<rparr>)"
proof -
  let ?v = "device_mmio s VIRTIO_MMIO_INTERRUPT_ACK (vregs s VIRTIO_MMIO_INTERRUPT_STATUS AND 0x3) (vregs s)"
  let ?s1 = "s\<lparr>vregs := ?v\<rparr>"
  let ?s2 = "?s1\<lparr>bufs := (bufs s)(b := (bufs s b)\<lparr>b_disk := 0\<rparr>)\<rparr>"
  let ?s3 = "?s2\<lparr>procs := woken (Some (ChanBuf b)) None {..<NPROC} (procs s)\<rparr>"
  have i: "unat (of_nat i :: u32) = i" using assms(6) by (simp add: NUM_def unsigned_of_nat take_bit_nat_eq_self)
  have w: "wakeup (Some (ChanBuf b)) (acqd VdiskLock ?s2) = Inr ((), acqd VdiskLock ?s3)"
    using assms(1-3) by (subst wakeup_run) (simp_all add: lockrun procs_free_def)
  have "virtio_disk_intr_loop (acqd VdiskLock ?s1) = virtio_disk_intr_loop (acqd VdiskLock (?s3\<lparr>vd_used_idx := vd_used_idx s + 1\<rparr>))"
    using assms(4-8) w by (subst virtio_disk_intr_loop.simps) (simp add: lockrun i upd_buf_def Let_def)
  also have "\<dots> = Inr ((), acqd VdiskLock (?s3\<lparr>vd_used_idx := vd_used_idx s + 1\<rparr>))"
    using assms(4) by (subst virtio_disk_intr_loop.simps) (simp add: lockrun)
  finally show ?thesis
    using assms(1,2) by (intro exI [of _ ?v]) (simp add: virtio_disk_intr_def lockrun mmio_store_def Let_def)
qed

section \<open>A turn of the scheduler\<close>

lemma set_cpu_upds:
  "set_cpu_proc c (s\<lparr>procs := ps\<rparr>) = (set_cpu_proc c s)\<lparr>procs := ps\<rparr>"
  "set_cpu_proc c (s\<lparr>kregs := kr\<rparr>) = (set_cpu_proc c s)\<lparr>kregs := kr\<rparr>"
  "set_cpu_proc c (s1\<lparr>vq := q\<rparr>) = (set_cpu_proc c s1)\<lparr>vq := q\<rparr>"
  "set_cpu_proc c (s1\<lparr>vregs := vr\<rparr>) = (set_cpu_proc c s1)\<lparr>vregs := vr\<rparr>"
  "set_cpu_proc c (s1\<lparr>bufs := bs\<rparr>) = (set_cpu_proc c s1)\<lparr>bufs := bs\<rparr>"
  "set_cpu_proc c (s1\<lparr>vd_used_idx := u\<rparr>) = (set_cpu_proc c s1)\<lparr>vd_used_idx := u\<rparr>"
  by (simp_all add: set_cpu_proc_def upd_cpu_def spin_defs)

lemma set_cpu_keeps:
  "procs (set_cpu_proc c s) = procs s" "kregs (set_cpu_proc c s) = kregs s" 
  "vq (set_cpu_proc c s1) = vq s1" "vregs (set_cpu_proc c s1) = vregs s1" "bufs (set_cpu_proc c s1) = bufs s1"
  "vd_used_idx (set_cpu_proc c s1) = vd_used_idx s1" "device (set_cpu_proc c s1) = device s1" "vd_info_b (set_cpu_proc c s1) = vd_info_b s1"
  by (simp_all add: set_cpu_proc_def upd_cpu_def)

lemma set_cpu_context_upds:
  "set_cpu_context x (s\<lparr>procs := ps\<rparr>) = (set_cpu_context x s)\<lparr>procs := ps\<rparr>"
  "set_cpu_context x (s\<lparr>kregs := kr\<rparr>) = (set_cpu_context x s)\<lparr>kregs := kr\<rparr>"
  "set_cpu_context x (s1\<lparr>vq := q\<rparr>) = (set_cpu_context x s1)\<lparr>vq := q\<rparr>"
  "set_cpu_context x (s1\<lparr>vregs := vr\<rparr>) = (set_cpu_context x s1)\<lparr>vregs := vr\<rparr>"
  "set_cpu_context x (s1\<lparr>bufs := bs\<rparr>) = (set_cpu_context x s1)\<lparr>bufs := bs\<rparr>"
  "set_cpu_context x (s1\<lparr>vd_used_idx := u\<rparr>) = (set_cpu_context x s1)\<lparr>vd_used_idx := u\<rparr>"
  by (simp_all add: set_cpu_context_def upd_cpu_def spin_defs)

lemmas set_cpu_simps = set_cpu_upds set_cpu_keeps set_cpu_context_upds set_cpu_same set_cpu_twice

lemma swtch_back: "swtch (\<lambda>x. upd_cpu (\<lambda>c. c\<lparr>cpu_context := x\<rparr>)) new s =
    (set_cpu_context (kregs s (cur_hart s)) s)\<lparr>kregs := (kregs s)(cur_hart s := new)\<rparr>"
  by (simp add: swtch_def set_cpu_context_def upd_cpu_def)

lemma upd_proc_used: "upd_proc p f (s\<lparr>procs := ps, vd_used_idx := u\<rparr>) = s\<lparr>procs := ps(p := f (ps p)), vd_used_idx := u\<rparr>"
  by (cases s) (simp add: upd_proc_def)

lemma disk_turn_run:
  assumes "settled s" and "\<And>lk. lock_free lk s" and "curproc s = Some p" and "p < NPROC"
    and "p_state (procs s p) = SLEEPING" and "p_chan (procs s p) = Some (ChanBuf b)"
    and "kregs s (cur_hart s) = cpu_context (cpus s (mycpu s))"
  defines "q \<equiv> device s (vq s)"
  assumes "vq_used_idx q = vd_used_idx s + 1" and "vq_used_ring q (unat (vd_used_idx s) mod NUM) = of_nat i" and "i < NUM"
    and "vq_status q i = 0" and "vd_info_b s i = Some b"
  shows "\<exists>vr. disk_turn p (acqd (ProcLock p) s) = Inr ((), acqd (ProcLock p)
    (s\<lparr>vq := q, vregs := vr, bufs := (bufs s)(b := (bufs s b)\<lparr>b_disk := 0\<rparr>),
      procs := (woken (Some (ChanBuf b)) None {..<NPROC} (procs s))(p := (procs s p)\<lparr>p_state := RUNNING\<rparr>),
      vd_used_idx := vd_used_idx s + 1, kregs := (kregs s)(cur_hart s := p_context (procs s p))\<rparr>))"
proof -
  let ?t = "(set_cpu_proc None s)\<lparr>vq := q\<rparr>"
  let ?w = "woken (Some (ChanBuf b)) None {..<NPROC} (procs s)"
  have wp: "?w p = (procs s p)\<lparr>p_state := RUNNABLE\<rparr>" using assms(4-6) by (simp add: woken_def)
  obtain vr where intr: "virtio_disk_intr ?t = Inr ((), ?t\<lparr>vregs := vr, bufs := (bufs s)(b := (bufs s b)\<lparr>b_disk := 0\<rparr>),
    procs := ?w, vd_used_idx := vd_used_idx s + 1\<rparr>)"
    using virtio_disk_intr_run [of ?t i b] assms(1,2,8-) by (auto simp: lockrun set_cpu_simps)
  have "disk_turn p (acqd (ProcLock p) s) = Inr ((), acqd (ProcLock p)
    (s\<lparr>vq := q, vregs := vr, bufs := (bufs s)(b := (bufs s b)\<lparr>b_disk := 0\<rparr>), procs := ?w(p := (procs s p)\<lparr>p_state := RUNNING\<rparr>),
      vd_used_idx := vd_used_idx s + 1, kregs := (kregs s)(cur_hart s := p_context (procs s p))\<rparr>))"
    using intr assms(1-3,7) wp
    by (simp add: disk_turn_def lockrun set_cpu_simps Let_def upd_vq_def swtch_back q_def upd_proc_used)
  then show ?thesis by blast
qed

section \<open>A request\<close>

text \<open>The fields a request works on, in one place.\<close>

definition dst :: "'a vdst_scheme \<Rightarrow> (nat \<Rightarrow> proc) \<Rightarrow> (nat \<Rightarrow> swtch_context) \<Rightarrow> (nat \<Rightarrow> bool) \<Rightarrow> u16 \<Rightarrow> (nat \<Rightarrow> nat option) \<Rightarrow>
    (nat \<Rightarrow> buf) \<Rightarrow> vqueue \<Rightarrow> (u64 \<Rightarrow> u32) \<Rightarrow> 'a vdst_scheme" where
  "dst s ps kr vf ui ifb bu q vr = s\<lparr>procs := ps, kregs := kr, vd_free := vf, vd_used_idx := ui, vd_info_b := ifb, bufs := bu, vq := q, vregs := vr\<rparr>"

lemma dst_self: "dst s (procs s) (kregs s) (vd_free s) (vd_used_idx s) (vd_info_b s) (bufs s) (vq s) (vregs s) = s"
  by (simp add: dst_def)

lemma dst_free: "dst s (procs s) (kregs s) vf (vd_used_idx s) (vd_info_b s) (bufs s) (vq s) (vregs s) = s\<lparr>vd_free := vf\<rparr>"
  by (simp add: dst_def)

lemma dst_sels [simp]:
  "procs (dst s ps kr vf ui ifb bu q vr) = ps" "kregs (dst s ps kr vf ui ifb bu q vr) = kr" "vd_free (dst s ps kr vf ui ifb bu q vr) = vf"
  "vd_used_idx (dst s ps kr vf ui ifb bu q vr) = ui" "vd_info_b (dst s ps kr vf ui ifb bu q vr) = ifb" "bufs (dst s ps kr vf ui ifb bu q vr) = bu"
  "vq (dst s ps kr vf ui ifb bu q vr) = q" "vregs (dst s ps kr vf ui ifb bu q vr) = vr" "device (dst s ps kr vf ui ifb bu q vr) = device s"
  "device_mmio (dst s ps kr vf ui ifb bu q vr) = device_mmio s" "mycpu (dst s ps kr vf ui ifb bu q vr) = mycpu s"
  "cur_hart (dst s ps kr vf ui ifb bu q vr) = cur_hart s" "cpus (dst s ps kr vf ui ifb bu q vr) = cpus s"
  "settled (dst s ps kr vf ui ifb bu q vr) \<longleftrightarrow> settled s" "lock_free lk (dst s ps kr vf ui ifb bu q vr) \<longleftrightarrow> lock_free lk s"
  by (simp_all add: dst_def lockrun)

lemma dst_upds [simp]:
  "(dst s ps kr vf ui ifb bu q vr)\<lparr>procs := x1\<rparr> = dst s x1 kr vf ui ifb bu q vr"
  "(dst s ps kr vf ui ifb bu q vr)\<lparr>kregs := x2\<rparr> = dst s ps x2 vf ui ifb bu q vr"
  "(dst s ps kr vf ui ifb bu q vr)\<lparr>vd_free := x3\<rparr> = dst s ps kr x3 ui ifb bu q vr"
  "(dst s ps kr vf ui ifb bu q vr)\<lparr>vd_used_idx := x4\<rparr> = dst s ps kr vf x4 ifb bu q vr"
  "(dst s ps kr vf ui ifb bu q vr)\<lparr>vd_info_b := x5\<rparr> = dst s ps kr vf ui x5 bu q vr"
  "(dst s ps kr vf ui ifb bu q vr)\<lparr>bufs := x6\<rparr> = dst s ps kr vf ui ifb x6 q vr"
  "(dst s ps kr vf ui ifb bu q vr)\<lparr>vq := x7\<rparr> = dst s ps kr vf ui ifb bu x7 vr"
  "(dst s ps kr vf ui ifb bu q vr)\<lparr>vregs := x8\<rparr> = dst s ps kr vf ui ifb bu q x8"
  unfolding dst_def by (cases s; simp)+

lemma dst_dst [simp]: "dst (dst s ps kr vf ui ifb bu q vr) ps' kr' vf' ui' ifb' bu' q' vr' = dst s ps' kr' vf' ui' ifb' bu' q' vr'"
  unfolding dst_def by (cases s; simp)

lemma procs_free_all: "(\<And>lk. lock_free lk s) \<Longrightarrow> procs_free s"
  by (simp add: procs_free_def)

lemma alloc3_desc_run:
  assumes "\<forall>i < NUM. vd_free s i"
  shows "alloc3_desc s = Inr (Some (0, 1, 2), s\<lparr>vd_free := (vd_free s)(0 := False, 1 := False, 2 := False)\<rparr>)"
proof -
  have "vd_free s 0" "vd_free s 1" "vd_free s 2" using assms by (simp_all add: NUM_def)
  then show ?thesis by (simp add: alloc3_desc_def alloc_desc_def NUM_def upt_rec numeral_2_eq_2)
qed

definition fill_q :: "nat \<Rightarrow> bool \<Rightarrow> u32 \<Rightarrow> vqueue \<Rightarrow> vqueue" where
  "fill_q b wr bn q = q
     \<lparr>vq_ops := (vq_ops q)(0 := \<lparr>br_type = (if wr then VIRTIO_BLK_T_OUT else VIRTIO_BLK_T_IN), br_reserved = 0, br_sector = ucast (bn * of_nat (BSIZE div 512))\<rparr>),
      vq_status := (vq_status q)(0 := 0xff),
      vq_desc := (vq_desc q)
        (0 := \<lparr>vd_addr = DmaOps 0, vd_len = 16, vd_flags = VRING_DESC_F_NEXT, vd_next = 1\<rparr>,
         1 := \<lparr>vd_addr = DmaData b, vd_len = of_nat BSIZE, vd_flags = (if wr then 0 else VRING_DESC_F_WRITE) OR VRING_DESC_F_NEXT, vd_next = 2\<rparr>,
         2 := \<lparr>vd_addr = DmaStatus 0, vd_len = 1, vd_flags = VRING_DESC_F_WRITE, vd_next = 0\<rparr>),
      vq_avail_ring := (vq_avail_ring q)(unat (vq_avail_idx q) mod NUM := 0),
      vq_avail_idx := vq_avail_idx q + 1\<rparr>"

lemma fill_descs_run:
  "\<exists>vr'. fill_descs b wr (0, 1, 2) (dst s ps kr vf ui ifb bu q vr) =
     dst s ps kr vf ui (ifb(0 := Some b)) (bu(b := (bu b)\<lparr>b_disk := 1\<rparr>)) (fill_q b wr (b_blockno (bu b)) q) vr'"
  by (auto simp: fill_descs_def upd_desc_def upd_vq_def upd_buf_def mmio_store_def fill_q_def Let_def)

lemma serve_fill:
  fixes bn :: u32 and b :: nat and wr :: bool
  assumes "vq_avail_idx q = vq_seen q"
  defines "blk \<equiv> unat (ucast (bn * of_nat (BSIZE div 512)) :: u64) div (BSIZE div 512)"
  defines "q' \<equiv> serve (fill_q b wr bn q)"
  shows "vq_avail_idx (fill_q b wr bn q) = vq_seen (fill_q b wr bn q) + 1"
    and "vq_avail_idx q' = vq_seen q'" and "vq_used_idx q' = vq_used_idx q + 1"
    and "vq_used_ring q' (unat (vq_used_idx q) mod NUM) = 0" and "vq_status q' 0 = 0"
    and "vq_desc q' = vq_desc (fill_q b wr bn q)"
    and "vq_data q' = (if wr then vq_data q else (vq_data q)(b := dblock (vq_disk q) blk))"
    and "vq_disk q' = (if wr then (vq_disk q)\<lparr>d_writes := d_writes (vq_disk q) @ [(blk, vq_data q b)]\<rparr> else vq_disk q)"
proof -
  have "serve (fill_q b wr bn q) = (if wr
      then (fill_q b wr bn q)\<lparr>vq_disk := (vq_disk q)\<lparr>d_writes := d_writes (vq_disk q) @ [(blk, vq_data q b)]\<rparr>\<rparr>
      else (fill_q b wr bn q)\<lparr>vq_data := (vq_data q)(b := dblock (vq_disk q) blk)\<rparr>)
    \<lparr>vq_status := (vq_status q)(0 := 0), vq_used_ring := (vq_used_ring q)(unat (vq_used_idx q) mod NUM := 0),
     vq_used_idx := vq_used_idx q + 1, vq_seen := vq_seen q + 1\<rparr>"
    using assms(1) by (simp add: serve_def fill_q_def blk_def Let_def VIRTIO_BLK_T_OUT_def VIRTIO_BLK_T_IN_def)
  then show "vq_avail_idx q' = vq_seen q'" and "vq_used_idx q' = vq_used_idx q + 1"
    and "vq_used_ring q' (unat (vq_used_idx q) mod NUM) = 0" and "vq_status q' 0 = 0"
    and "vq_desc q' = vq_desc (fill_q b wr bn q)"
    and "vq_data q' = (if wr then vq_data q else (vq_data q)(b := dblock (vq_disk q) blk))"
    and "vq_disk q' = (if wr then (vq_disk q)\<lparr>d_writes := d_writes (vq_disk q) @ [(blk, vq_data q b)]\<rparr> else vq_disk q)"
    using assms(1) by (simp_all add: q'_def fill_q_def)
  show "vq_avail_idx (fill_q b wr bn q) = vq_seen (fill_q b wr bn q) + 1"
    using assms(1) by (simp add: fill_q_def)
qed

text \<open>No lock is held, the disk is idle, and process \<open>p\<close> runs.\<close>

definition disk_ready :: "nat \<Rightarrow> 'a vdst_scheme \<Rightarrow> bool" where
  "disk_ready p s \<longleftrightarrow> settled s \<and> (\<forall>lk. lock_free lk s) \<and> cpu_noff (cpus s (mycpu s)) = 0 \<and> curproc s = Some p \<and> p < NPROC \<and>
     p_state (procs s p) = RUNNING \<and> (\<forall>i < NUM. vd_free s i) \<and> vd_info_b s 0 = None \<and>
     vd_used_idx s = vq_used_idx (vq s) \<and> vq_avail_idx (vq s) = vq_seen (vq s) \<and> virtio_device (device s)"

text \<open>Processes up to what sleeping and waking change.\<close>

definition same_procs :: "(nat \<Rightarrow> proc) \<Rightarrow> (nat \<Rightarrow> proc) \<Rightarrow> bool" where
  "same_procs ps ps' \<longleftrightarrow> (\<forall>i. (ps' i)\<lparr>p_state := UNUSED, p_chan := None, p_context := zero_context\<rparr> =
     (ps i)\<lparr>p_state := UNUSED, p_chan := None, p_context := zero_context\<rparr>)"

lemma same_procs_intros:
  "same_procs ps ps" "same_procs ps ps' \<Longrightarrow> same_procs ps (woken ch me A ps')"
  "same_procs ps ps' \<Longrightarrow> same_procs ps (ps'(p := (ps' p)\<lparr>p_chan := c\<rparr>))"
  "same_procs ps ps' \<Longrightarrow> same_procs ps (ps'(p := (ps' p)\<lparr>p_state := st\<rparr>))"
  "same_procs ps ps' \<Longrightarrow> same_procs ps (ps'(p := (ps' p)\<lparr>p_context := x\<rparr>))"
  by (auto simp: same_procs_def woken_def)

lemma free_desc_run:
  assumes "settled s" and "\<And>lk. lock_free lk s" and "curproc s = Some p" and "i < NUM" and "\<not> vf i"
  shows "free_desc i (acqd VdiskLock (dst s ps kr vf ui ifb bu q vr)) =
    Inr ((), acqd VdiskLock (dst s (woken (Some ChanVdiskFree) (Some p) {..<NPROC} ps) kr (vf(i := True)) ui ifb bu
      (q\<lparr>vq_desc := (vq_desc q)(i := zero_desc)\<rparr>) vr))"
proof -
  let ?q = "q\<lparr>vq_desc := (vq_desc q)(i := zero_desc)\<rparr>"
  have d: "(vq_desc q i)\<lparr>vd_addr := DmaNone, vd_len := 0, vd_flags := 0, vd_next := 0\<rparr> = zero_desc"
    by (cases "vq_desc q i") (simp add: zero_desc_def)
  have "wakeup (Some ChanVdiskFree) (acqd VdiskLock (dst s ps kr (vf(i := True)) ui ifb bu ?q vr)) =
    Inr ((), acqd VdiskLock (dst s (woken (Some ChanVdiskFree) (Some p) {..<NPROC} ps) kr (vf(i := True)) ui ifb bu ?q vr))"
    using assms(1-3) by (subst wakeup_run) (simp_all add: lockrun procs_free_def)
  then show ?thesis
    using assms(4,5) by (simp add: free_desc_def lockrun upd_desc_def upd_vq_def Let_def d)
qed

lemma fill_descs_acqd: "fill_descs b wr idx (acqd lk s) = acqd lk (fill_descs b wr idx s)"
  by (cases idx) (simp add: fill_descs_def Let_def lockrun mmio_store_def)

lemma disk_sleep_run:
  fixes b :: nat and wr :: bool
  assumes r: "disk_ready p s"
  defines "q1 \<equiv> fill_q b wr (b_blockno (bufs s b)) (vq s)" and "bu \<equiv> (bufs s)(b := (bufs s b)\<lparr>b_disk := 1\<rparr>)"
  shows "\<exists>ps vr'. sleep (disk_turn p) (ChanBuf b) VdiskLock
      (acqd VdiskLock (dst s (procs s) (kregs s) vf (vd_used_idx s) (ifb(0 := Some b)) bu q1 vr)) =
    Inr ((), acqd VdiskLock (dst s ps (kregs s) vf (vd_used_idx s + 1) (ifb(0 := Some b))
      (bu(b := (bu b)\<lparr>b_disk := 0\<rparr>)) (serve q1) vr')) \<and>
    same_procs (procs s) ps \<and> p_state (ps p) = RUNNING"
proof -
  note rs = r [unfolded disk_ready_def]
  let ?h = "cur_hart s" and ?ib = "ifb(0 := Some b)"
  let ?ps1 = "(procs s)(p := (procs s p)\<lparr>p_chan := Some (ChanBuf b), p_state := SLEEPING, p_context := kregs s ?h\<rparr>)"
  let ?kr = "(kregs s)(?h := cpu_context (cpus s (mycpu s)))"
  let ?d1 = "dst s (procs s) (kregs s) vf (vd_used_idx s) ?ib bu q1 vr"
  let ?d2 = "dst s ?ps1 ?kr vf (vd_used_idx s) ?ib bu q1 vr"
  have sf: "vq_avail_idx (vq s) = vq_seen (vq s)" using rs by simp
  note sv = serve_fill [OF sf, of b wr "b_blockno (bufs s b)", folded q1_def]
  have dev: "device s q1 = serve q1" using rs sv(1) by (simp add: virtio_device_def)
  let ?ps2 = "(woken (Some (ChanBuf b)) None {..<NPROC} ?ps1)(p := (?ps1 p)\<lparr>p_state := RUNNING\<rparr>)"
  obtain vr' where turn: "disk_turn p (acqd (ProcLock p) ?d2) = Inr ((), acqd (ProcLock p)
      (dst s ?ps2 (kregs s) vf (vd_used_idx s + 1) ?ib (bu(b := (bu b)\<lparr>b_disk := 0\<rparr>)) (serve q1) vr'))"
    using disk_turn_run [of ?d2 p b 0] rs sv(3-5) by (auto simp: dev NUM_def)
  let ?ps3 = "?ps2(p := (?ps2 p)\<lparr>p_chan := None\<rparr>)"
  have "sleep (disk_turn p) (ChanBuf b) VdiskLock (acqd VdiskLock ?d1) =
    Inr ((), acqd VdiskLock (upd_proc p (\<lambda>q. q\<lparr>p_chan := None\<rparr>) (dst s ?ps2 (kregs s) vf (vd_used_idx s + 1) ?ib
      (bu(b := (bu b)\<lparr>b_disk := 0\<rparr>)) (serve q1) vr')))"
    using rs turn by (intro sleep_run) (simp_all add: upd_proc_def)
  moreover have "same_procs (procs s) ?ps3 \<and> p_state (?ps3 p) = RUNNING"
    by (auto simp: same_procs_def woken_def)
  ultimately show ?thesis by (intro exI [of _ ?ps3] exI [of _ vr']) (simp add: upd_proc_def)
qed

lemma free_chain_run:
  assumes "settled s" and "\<And>lk. lock_free lk s" and "curproc s = Some p"
    and "vq_desc q = vq_desc (fill_q b wr bn q0)" and "\<not> vf 0" "\<not> vf 1" "\<not> vf 2"
  defines "w \<equiv> woken (Some ChanVdiskFree) (Some p) {..<NPROC}"
  shows "free_chain 0 (acqd VdiskLock (dst s ps kr vf ui ifb bu q vr)) =
    Inr ((), acqd VdiskLock (dst s (w ps) kr (vf(0 := True, 1 := True, 2 := True)) ui ifb bu
      (q\<lparr>vq_desc := (vq_desc q)(0 := zero_desc, 1 := zero_desc, 2 := zero_desc)\<rparr>) vr))"
proof -
  define k where "k = NUM - 2"
  have n: "Suc NUM = Suc (Suc (Suc k))" "0 < NUM" "1 < NUM" "2 < NUM" by (simp_all add: NUM_def k_def)
  have fl: "vd_flags (vq_desc q 0) AND VRING_DESC_F_NEXT \<noteq> 0" "vd_flags (vq_desc q 1) AND VRING_DESC_F_NEXT \<noteq> 0"
    "vd_flags (vq_desc q 2) AND VRING_DESC_F_NEXT = 0" "vd_next (vq_desc q 0) = 1" "vd_next (vq_desc q 1) = 2"
    using assms(4) by (simp_all add: fill_q_def VRING_DESC_F_NEXT_def VRING_DESC_F_WRITE_def)
  have w: "w (w (w ps)) = w ps" by (simp add: w_def woken_union)
  show ?thesis
    using assms(5-7) fl w n(2-) unfolding free_chain_def n(1)
    by (simp add: free_desc_run [OF assms(1-3)] lockrun w_def [symmetric])
qed

lemma virtio_disk_rw_run:
  assumes r: "disk_ready p s" and b: "b_disk (bufs s b) = 0" and bn: "unat (b_blockno (bufs s b)) < 2 ^ 31"
  defines "blk \<equiv> unat (b_blockno (bufs s b))"
  shows "\<exists>ps q u vr. let s' = s\<lparr>procs := ps, vd_used_idx := u, vq := q, vregs := vr\<rparr> in
    virtio_disk_rw b wr s = Inr ((), s') \<and> disk_ready p s' \<and> same_procs (procs s) ps \<and>
    vq_data q = (if wr then bdata s else (bdata s)(b := dblock (vq_disk (vq s)) blk)) \<and>
    vq_disk q = (if wr then (vq_disk (vq s))\<lparr>d_writes := d_writes (vq_disk (vq s)) @ [(blk, bdata s b)]\<rparr> else vq_disk (vq s))"
proof -
  note rs = r [unfolded disk_ready_def]
  let ?vf = "(vd_free s)(0 := False, 1 := False, 2 := False)" and ?ib = "(vd_info_b s)(0 := Some b)"
  let ?bu = "(bufs s)(b := (bufs s b)\<lparr>b_disk := 1\<rparr>)" and ?q1 = "fill_q b wr (b_blockno (bufs s b)) (vq s)"
  let ?w = "woken (Some ChanVdiskFree) (Some p) {..<NPROC}"
  let ?q3 = "(serve ?q1)\<lparr>vq_desc := (vq_desc (serve ?q1))(0 := zero_desc, 1 := zero_desc, 2 := zero_desc)\<rparr>"
  have sf: "vq_avail_idx (vq s) = vq_seen (vq s)" using rs by simp
  note sv = serve_fill [OF sf, of b wr "b_blockno (bufs s b)"]
  have al: "alloc3_desc (acqd VdiskLock s) = Inr (Some (0, 1, 2), acqd VdiskLock
      (dst s (procs s) (kregs s) ?vf (vd_used_idx s) (vd_info_b s) (bufs s) (vq s) (vregs s)))"
    using alloc3_desc_run [of "acqd VdiskLock s"] rs unfolding dst_free by (simp add: lockrun)
  obtain vr1 where fill: "fill_descs b wr (0, 1, 2) (dst s (procs s) (kregs s) ?vf (vd_used_idx s) (vd_info_b s) (bufs s) (vq s) (vregs s)) =
    dst s (procs s) (kregs s) ?vf (vd_used_idx s) ?ib ?bu ?q1 vr1"
    using fill_descs_run by blast
  obtain ps vr2 where sl: "sleep (disk_turn p) (ChanBuf b) VdiskLock (acqd VdiskLock (dst s (procs s) (kregs s) ?vf (vd_used_idx s) ?ib ?bu ?q1 vr1)) =
    Inr ((), acqd VdiskLock (dst s ps (kregs s) ?vf (vd_used_idx s + 1) ?ib (?bu(b := (?bu b)\<lparr>b_disk := 0\<rparr>)) (serve ?q1) vr2))"
    "same_procs (procs s) ps" "p_state (ps p) = RUNNING"
    using disk_sleep_run [OF r] by blast
  have bu: "?bu(b := (?bu b)\<lparr>b_disk := 0\<rparr>) = bufs s" using b by (simp add: fun_eq_iff)
  have vf: "(vd_free s)(0 := True, Suc 0 := True, 2 := True) = vd_free s"
    using rs by (auto simp: fun_eq_iff NUM_def)
  have fc: "free_chain 0 (acqd VdiskLock (dst s ps (kregs s) ?vf (vd_used_idx s + 1) (vd_info_b s) (bufs s) (serve ?q1) vr2)) =
    Inr ((), acqd VdiskLock (dst s (?w ps) (kregs s) (vd_free s) (vd_used_idx s + 1) (vd_info_b s) (bufs s) ?q3 vr2))"
    using free_chain_run [of s p "serve ?q1" b wr "b_blockno (bufs s b)" "vq s" ?vf] rs sv(6) by (simp add: vf)
  have ib: "?ib(0 := None) = vd_info_b s" using rs by (simp add: fun_eq_iff)
  let ?s' = "dst s (?w ps) (kregs s) (vd_free s) (vd_used_idx s + 1) (vd_info_b s) (bufs s) ?q3 vr2"
  have run: "virtio_disk_rw b wr s = Inr ((), ?s')"
    using rs al fill sl(1) [unfolded bu] fc ib b
    by (simp add: virtio_disk_rw_def lockrun fill_descs_acqd Let_def)
  have blk: "unat (ucast (b_blockno (bufs s b) * of_nat (BSIZE div 512)) :: u64) div (BSIZE div 512) = blk"
    using bn by (simp add: blk_def BSIZE_def unsigned_ucast_eq unat_word_ariths(2) take_bit_nat_eq_self)
  have s': "?s' = s\<lparr>procs := ?w ps, vd_used_idx := vd_used_idx s + 1, vq := ?q3, vregs := vr2\<rparr>"
    by (cases s) (simp add: dst_def)
  have wp: "same_procs (procs s) (?w ps)" "p_state (?w ps p) = RUNNING"
    using sl(2,3) same_procs_intros(2) by (blast, simp add: woken_def)
  have "disk_ready p ?s'"
    using rs sv(2,3) wp(2) by (simp add: disk_ready_def)
  then show ?thesis
    using run wp(1) sv(7,8) unfolding s' blk
    by (intro exI [of _ "?w ps"] exI [of _ ?q3] exI [of _ "vd_used_idx s + 1"] exI [of _ vr2]) (simp add: Let_def bdata_def [abs_def])
qed

section \<open>Property\<close>


definition demo_disk :: trst where
  "demo_disk = demo_st\<lparr>device := serve\<rparr>"

lemma demo_disk_ready: "disk_ready 0 demo_disk"
proof -
  have "settled demo_disk" "\<forall>lk. lock_free lk demo_disk" "mycpu demo_disk = 0" by (simp_all add: demo_disk_def lockrun)
  then show ?thesis
    by (simp add: disk_ready_def virtio_device_def) (simp add: demo_disk_def demo_st_def demo_init_def NPROC_def)
qed


end
