(* ===== verification/Bio_Correct.thy ===== *)
theory Bio_Correct
  imports Disk_Correct
begin

text \<open>
  The buffer cache is a cache: seen through \<open>bread\<close>, blocks have one current content, which
  recycling a buffer does not change; \<open>bwrite\<close> makes the disk agree with it.  The doubly linked
  list keeps the buffers in the order of their last release.
\<close>

section \<open>Sleep locks\<close>

definition calm :: "nat \<Rightarrow> 'a pst_scheme \<Rightarrow> bool" where
  "calm p s \<longleftrightarrow> settled s \<and> (\<forall>lk. lock_free lk s) \<and> curproc s = Some p"

lemma disk_ready_calm: "disk_ready p s \<Longrightarrow> calm p s"
  by (simp add: disk_ready_def calm_def)

lemma acquiresleep_run:
  assumes "calm p s" and "sl_locked (slocks s lk) = 0"
  shows "acquiresleep lk s = Inr ((), s\<lparr>slocks := (slocks s)(lk := (slocks s lk)\<lparr>sl_locked := 1, sl_pid := p_pid (procs s p)\<rparr>)\<rparr>)"
  using assms by (simp add: calm_def acquiresleep_def acquiresleep_among_def lockrun upd_slock_def Let_def)

lemma holdingsleep_run:
  assumes "calm p s"
  shows "holdingsleep lk s = Inr (sl_locked (slocks s lk) \<noteq> 0 \<and> sl_pid (slocks s lk) = p_pid (procs s p), s)"
  using assms by (simp add: calm_def holdingsleep_def lockrun)

lemma releasesleep_run:
  assumes "calm p s"
  shows "releasesleep lk s = Inr ((), s\<lparr>slocks := (slocks s)(lk := (slocks s lk)\<lparr>sl_locked := 0, sl_pid := 0\<rparr>),
    procs := woken (Some (ChanSleepLock lk)) (Some p) {..<NPROC} (procs s)\<rparr>)"
  using assms by (simp add: calm_def releasesleep_def lockrun upd_slock_def Let_def procs_free_def)

section \<open>The list\<close>

fun path :: "(bnode \<Rightarrow> bnode) \<Rightarrow> bnode \<Rightarrow> nat list \<Rightarrow> bnode \<Rightarrow> bool" where
  "path nx a [] z \<longleftrightarrow> nx a = z"
| "path nx a (x # xs) z \<longleftrightarrow> nx a = BBuf x \<and> path nx (BBuf x) xs z"

definition lru :: "(bnode \<Rightarrow> bnode) \<Rightarrow> (bnode \<Rightarrow> bnode) \<Rightarrow> nat list \<Rightarrow> bool" where
  "lru nx pv xs \<longleftrightarrow> path nx BHead xs BHead \<and> path pv BHead (rev xs) BHead \<and> distinct xs \<and> set xs = {..<NBUF}"

lemma path_append: "path nx a (xs @ y # ys) z \<longleftrightarrow> path nx a xs (BBuf y) \<and> path nx (BBuf y) ys z"
  by (induction xs arbitrary: a) auto

lemma path_upd_other: "c \<noteq> a \<Longrightarrow> c \<notin> BBuf ` set xs \<Longrightarrow> path (nx(c := v)) a xs z \<longleftrightarrow> path nx a xs z"
  by (induction xs arbitrary: a) auto

text \<open>The last node before \<open>z\<close>, redirected.\<close>

definition lastn :: "bnode \<Rightarrow> nat list \<Rightarrow> bnode" where
  "lastn a xs = (if xs = [] then a else BBuf (last xs))"

lemma path_redirect:
  "path nx a xs z \<Longrightarrow> a \<notin> BBuf ` set xs \<Longrightarrow> distinct xs \<Longrightarrow> path (nx(lastn a xs := z')) a xs z'"
proof (induction xs arbitrary: a)
  case (Cons x xs)
  have "a \<noteq> lastn (BBuf x) xs" using Cons.prems(2) by (auto simp: lastn_def)
  then show ?case
    using Cons.IH [of "BBuf x"] Cons.prems by (auto simp: lastn_def split: if_splits)
qed (simp add: lastn_def)

lemma path_first: "path nx a xs z \<Longrightarrow> nx a = lastn z (rev xs)"
  by (cases xs) (auto simp: lastn_def)

lemma bfind_path:
  "path nx a xs BHead \<Longrightarrow> length xs < k \<Longrightarrow> bfind k nx P (nx a) = Inr (find P xs)"
proof (induction xs arbitrary: a k)
  case Nil
  then show ?case by (cases k) auto
next
  case (Cons x xs)
  then show ?case by (cases k) auto
qed

lemma bfind_lru:
  assumes "lru nx pv xs"
  shows "bfind (Suc NBUF) nx P (nx BHead) = Inr (find P xs)" and "bfind (Suc NBUF) pv P (pv BHead) = Inr (find P (rev xs))"
proof -
  have "length xs = NBUF" using assms distinct_card [of xs] by (simp add: lru_def)
  then show "bfind (Suc NBUF) nx P (nx BHead) = Inr (find P xs)" and "bfind (Suc NBUF) pv P (pv BHead) = Inr (find P (rev xs))"
    using bfind_path [of nx BHead xs "Suc NBUF" P] bfind_path [of pv BHead "rev xs" "Suc NBUF" P] assms by (simp_all add: lru_def del: bfind.simps)
qed

text \<open>What \<open>brelse\<close> does to the pointers: the buffer moves to the front.\<close>

lemma path_unlink:
  assumes "path nx BHead (as @ b # bs) BHead" and "distinct (as @ b # bs)"
  shows "path (nx(lastn BHead as := lastn BHead (rev bs))) BHead (as @ bs) BHead"
proof -
  let ?z = "lastn BHead (rev bs)" and ?nx = "nx(lastn BHead as := lastn BHead (rev bs))"
  have p: "path nx BHead as (BBuf b)" "path nx (BBuf b) bs BHead" using assms(1) by (simp_all add: path_append)
  have p1: "path ?nx BHead as ?z"
    using path_redirect [OF p(1)] assms(2) by auto
  show ?thesis
  proof (cases bs)
    case Nil
    then show ?thesis using p1 by (simp add: lastn_def)
  next
    case (Cons c cs)
    then have "lastn BHead as \<noteq> BBuf c" "lastn BHead as \<notin> BBuf ` set cs"
      using assms(2) by (auto simp: lastn_def dest: last_in_set)
    then have "path ?nx (BBuf c) cs BHead" using p(2) Cons by (simp add: path_upd_other)
    then show ?thesis using p1 Cons by (simp add: path_append lastn_def)
  qed
qed

lemma path_push:
  assumes "path nx BHead ys BHead" and "b \<notin> set ys"
  shows "path (nx(BBuf b := nx BHead, BHead := BBuf b)) BHead (b # ys) BHead"
proof (cases ys)
  case (Cons y ys')
  have "path (nx(BBuf b := nx BHead, BHead := BBuf b)) (BBuf y) ys' BHead \<longleftrightarrow> path (nx(BBuf b := nx BHead)) (BBuf y) ys' BHead"
    by (rule path_upd_other) auto
  also have "\<dots> \<longleftrightarrow> path nx (BBuf y) ys' BHead" using assms(2) Cons by (intro path_upd_other) auto
  finally show ?thesis using assms(1) Cons by simp
qed (use assms in simp)

lemma path_push_last:
  assumes "path pv BHead ys BHead" and "b \<notin> set ys" and "distinct ys"
  shows "path (pv(BBuf b := BHead, lastn BHead ys := BBuf b)) BHead (ys @ [b]) BHead"
proof -
  have "path (pv(BBuf b := BHead)) BHead ys BHead" using assms(1,2) by (simp add: path_upd_other image_iff)
  from path_redirect [OF this, of "BBuf b"] have "path (pv(BBuf b := BHead, lastn BHead ys := BBuf b)) BHead ys (BBuf b)"
    using assms(3) by auto
  moreover have "lastn BHead ys \<noteq> BBuf b" using assms(2) by (auto simp: lastn_def)
  ultimately show ?thesis by (simp add: path_append)
qed

lemma lru_split:
  assumes "lru nx pv xs" and "b < NBUF"
  obtains as bs where "xs = as @ b # bs" "nx (BBuf b) = lastn BHead (rev bs)" "pv (BBuf b) = lastn BHead as"
    "lastn BHead as \<noteq> BBuf b" "lastn BHead (rev bs) \<noteq> BBuf b"
proof -
  have "b \<in> set xs" using assms by (simp add: lru_def)
  then obtain as bs where xs: "xs = as @ b # bs" by (auto dest: split_list)
  then have "path nx (BBuf b) bs BHead" "path pv (BBuf b) (rev as) BHead"
    using assms(1) by (auto simp: lru_def path_append)
  then have "nx (BBuf b) = lastn BHead (rev bs)" "pv (BBuf b) = lastn BHead as" by (auto dest: path_first)
  moreover have "lastn BHead as \<noteq> BBuf b" "lastn BHead (rev bs) \<noteq> BBuf b"
    using assms(1) xs last_in_set [of as] last_in_set [of "rev bs"] by (auto simp: lru_def lastn_def)
  ultimately show thesis using that xs by blast
qed

lemma lru_front:
  assumes "lru nx pv xs" and "xs = as @ b # bs"
  defines "nx1 \<equiv> nx(lastn BHead as := lastn BHead (rev bs))" and "pv1 \<equiv> pv(lastn BHead (rev bs) := lastn BHead as)"
  shows "lru (nx1(BBuf b := nx1 BHead, BHead := BBuf b)) (pv1(BBuf b := BHead, nx1 BHead := BBuf b)) (b # as @ bs)"
proof -
  have d: "distinct (as @ b # bs)" "path nx BHead (as @ b # bs) BHead" "path pv BHead (rev bs @ b # rev as) BHead"
    using assms(1,2) by (simp_all add: lru_def)
  have n: "path nx1 BHead (as @ bs) BHead" unfolding nx1_def by (rule path_unlink [OF d(2,1)])
  have "path pv1 BHead (rev bs @ rev as) BHead"
    unfolding pv1_def using path_unlink [OF d(3)] d(1) by auto
  moreover have "nx1 BHead = lastn BHead (rev bs @ rev as)" using path_first [OF n] by simp
  ultimately have "path (pv1(BBuf b := BHead, nx1 BHead := BBuf b)) BHead (rev (b # as @ bs)) BHead"
    using path_push_last [of pv1 "rev bs @ rev as" b] d(1) by auto
  moreover have "path (nx1(BBuf b := nx1 BHead, BHead := BBuf b)) BHead (b # as @ bs) BHead"
    using path_push [OF n] d(1) by auto
  ultimately show ?thesis
    using assms(1) d(1) unfolding lru_def assms(2) by (auto simp del: path.simps)
qed

section \<open>Blocks and their buffers\<close>

definition bufof :: "u32 \<Rightarrow> 'a vdst_scheme \<Rightarrow> u32 \<Rightarrow> nat option" where
  "bufof dev s n = find (\<lambda>i. b_dev (bufs s i) = dev \<and> b_blockno (bufs s i) = n) [0..<NBUF]"

definition disk :: "'a vdst_scheme \<Rightarrow> u32 \<Rightarrow> u8 list" where
  "disk s n = dblock (vq_disk (vq s)) (unat n)"

text \<open>The current content of a block, how often it is referenced, and whether its buffer is locked.\<close>

definition cached :: "u32 \<Rightarrow> 'a vdst_scheme \<Rightarrow> u32 \<Rightarrow> u8 list" where
  "cached dev s n = (case bufof dev s n of None \<Rightarrow> disk s n | Some i \<Rightarrow> if b_valid (bufs s i) \<noteq> 0 then bdata s i else disk s n)"

definition refs :: "u32 \<Rightarrow> 'a vdst_scheme \<Rightarrow> u32 \<Rightarrow> nat" where
  "refs dev s n = (case bufof dev s n of None \<Rightarrow> 0 | Some i \<Rightarrow> unat (b_refcnt (bufs s i)))"

definition lockd :: "u32 \<Rightarrow> 'a vdst_scheme \<Rightarrow> u32 \<Rightarrow> bool" where
  "lockd dev s n = (case bufof dev s n of None \<Rightarrow> False | Some i \<Rightarrow> sl_locked (slocks s (BufLock i)) \<noteq> 0)"

definition unique :: "u32 \<Rightarrow> 'a vdst_scheme \<Rightarrow> bool" where
  "unique dev s \<longleftrightarrow> (\<forall>i < NBUF. \<forall>j < NBUF. b_dev (bufs s i) = dev \<and> b_dev (bufs s j) = dev \<and>
     b_blockno (bufs s i) = b_blockno (bufs s j) \<longrightarrow> i = j)"

definition buf_ok :: "nat \<Rightarrow> u32 \<Rightarrow> 'a vdst_scheme \<Rightarrow> nat \<Rightarrow> bool" where
  "buf_ok p dev s i \<longleftrightarrow> b_disk (bufs s i) = 0 \<and> unat (b_blockno (bufs s i)) < 2 ^ 31 \<and>
     (b_refcnt (bufs s i) \<noteq> 0 \<longrightarrow> b_dev (bufs s i) = dev) \<and>
     (b_refcnt (bufs s i) = 0 \<longrightarrow> sl_locked (slocks s (BufLock i)) = 0 \<and>
       (b_dev (bufs s i) = dev \<and> b_valid (bufs s i) \<noteq> 0 \<longrightarrow> bdata s i = disk s (b_blockno (bufs s i)))) \<and>
     (sl_locked (slocks s (BufLock i)) \<noteq> 0 \<longrightarrow> sl_pid (slocks s (BufLock i)) = p_pid (procs s p))"

definition bio_ok :: "nat \<Rightarrow> u32 \<Rightarrow> 'a biost_scheme \<Rightarrow> bool" where
  "bio_ok p dev s \<longleftrightarrow> disk_ready p s \<and> (\<exists>xs. lru (b_next s) (b_prev s) xs) \<and> unique dev s \<and> (\<forall>i < NBUF. buf_ok p dev s i)"

text \<open>The caller has the buffer \<open>b\<close> of block \<open>n\<close>.\<close>

definition held :: "u32 \<Rightarrow> 'a vdst_scheme \<Rightarrow> u32 \<Rightarrow> nat \<Rightarrow> bool" where
  "held dev s n b \<longleftrightarrow> bufof dev s n = Some b \<and> b_valid (bufs s b) \<noteq> 0 \<and> sl_locked (slocks s (BufLock b)) \<noteq> 0 \<and> b_refcnt (bufs s b) \<noteq> 0"

lemma find_in: "find P xs = Some i \<Longrightarrow> i \<in> set xs \<and> P i"
  by (induction xs) (auto split: if_splits)

lemma option_eqI: "(\<And>i. x = Some i \<longleftrightarrow> y = Some i) \<Longrightarrow> x = y"
  by (cases x; cases y) auto

lemma find_unique:
  assumes "\<forall>x \<in> set ys. \<forall>y \<in> set ys. Q x \<and> Q y \<longrightarrow> x = y"
  shows "find Q ys = Some b \<longleftrightarrow> Q b \<and> b \<in> set ys"
  using assms by (induction ys) auto

lemma bufof_iff:
  assumes "unique dev s"
  shows "bufof dev s n = Some i \<longleftrightarrow> i < NBUF \<and> b_dev (bufs s i) = dev \<and> b_blockno (bufs s i) = n"
  unfolding bufof_def using assms by (subst find_unique) (auto simp: unique_def)

lemma bufof_None: "bufof dev s n = None \<longleftrightarrow> (\<forall>i < NBUF. \<not> (b_dev (bufs s i) = dev \<and> b_blockno (bufs s i) = n))"
  by (auto simp: bufof_def find_None_iff)

lemma find_lru:
  assumes "unique dev s" and "set xs = {..<NBUF}"
  shows "find (\<lambda>i. b_dev (bufs s i) = dev \<and> b_blockno (bufs s i) = n) xs = bufof dev s n"
proof (cases "bufof dev s n")
  case None
  then have "find (\<lambda>i. b_dev (bufs s i) = dev \<and> b_blockno (bufs s i) = n) xs = None"
    using assms(2) by (auto simp: bufof_None find_None_iff)
  then show ?thesis using None by simp
next
  case (Some i)
  then have i: "i < NBUF \<and> b_dev (bufs s i) = dev \<and> b_blockno (bufs s i) = n" using bufof_iff [OF assms(1)] by blast
  have "find (\<lambda>i. b_dev (bufs s i) = dev \<and> b_blockno (bufs s i) = n) xs = Some i"
    using assms i by (subst find_unique) (auto simp: unique_def)
  then show ?thesis using Some by simp
qed

text \<open>One buffer changes, to hold block \<open>n\<close>: either it did, or nobody did and it was free.\<close>

lemma bufof_upd:
  assumes u: "unique dev s" and b: "b < NBUF"
    and B: "b_dev B = dev" "b_blockno B = n" and c: "bufof dev s n = Some b \<or> bufof dev s n = None"
    and s': "bufs s' = (bufs s)(b := B)"
  shows "unique dev s'" and "bufof dev s' m = (if m = n then Some b else if bufof dev s m = Some b then None else bufof dev s m)"
proof -
  have n: "i = b" if "i < NBUF" "b_dev (bufs s i) = dev" "b_blockno (bufs s i) = n" for i
  proof -
    have "bufof dev s n = Some i" using that bufof_iff [OF u] by blast
    then show ?thesis using c by simp
  qed
  show u': "unique dev s'"
    unfolding unique_def
  proof (intro allI impI)
    fix i j assume ij: "i < NBUF" "j < NBUF" "b_dev (bufs s' i) = dev \<and> b_dev (bufs s' j) = dev \<and> b_blockno (bufs s' i) = b_blockno (bufs s' j)"
    have e: "bufs s' k = (if k = b then B else bufs s k)" for k by (simp add: s')
    consider "i = b" "j = b" | "i = b" "j \<noteq> b" | "i \<noteq> b" "j = b" | "i \<noteq> b" "j \<noteq> b" by blast
    then show "i = j"
    proof cases
      case 2
      then have "b_dev (bufs s j) = dev" "b_blockno (bufs s j) = n" using ij(3) B by (simp_all add: e)
      then show ?thesis using n ij(2) 2 by blast
    next
      case 3
      then have "b_dev (bufs s i) = dev" "b_blockno (bufs s i) = n" using ij(3) B by (simp_all add: e)
      then show ?thesis using n ij(1) 3 by blast
    next
      case 4
      then have "b_dev (bufs s i) = dev \<and> b_dev (bufs s j) = dev \<and> b_blockno (bufs s i) = b_blockno (bufs s j)" using ij(3) by (simp add: e)
      then show ?thesis using u ij(1,2) unfolding unique_def by blast
    qed simp
  qed
  have "bufof dev s' m = Some i \<longleftrightarrow> (if m = n then Some b else if bufof dev s m = Some b then None else bufof dev s m) = Some i" for i
  proof (cases "i = b")
    case True
    then show ?thesis using b B by (simp add: bufof_iff [OF u'] s')
  next
    case False
    then have "bufof dev s' m = Some i \<longleftrightarrow> bufof dev s m = Some i" by (simp add: bufof_iff [OF u'] bufof_iff [OF u] s')
    then show ?thesis using c False by auto
  qed
  then show "bufof dev s' m = (if m = n then Some b else if bufof dev s m = Some b then None else bufof dev s m)"
    by (rule option_eqI)
qed

section \<open>Getting a buffer\<close>

lemma unat_plus_one_small: "unat (x :: u32) < 2 ^ 31 \<Longrightarrow> unat (x + 1) = Suc (unat x)"
  by (simp add: unat_word_ariths(1))

definition take_buf :: "nat \<Rightarrow> nat \<Rightarrow> buf \<Rightarrow> 'a biost_scheme \<Rightarrow> 'a biost_scheme" where
  "take_buf p b B s = s\<lparr>bufs := (bufs s)(b := B),
     slocks := (slocks s)(BufLock b := (slocks s (BufLock b))\<lparr>sl_locked := 1, sl_pid := p_pid (procs s p)\<rparr>)\<rparr>"

lemma bget_run:
  assumes ok: "bio_ok p dev s" and nl: "\<not> lockd dev s n" and room: "bufof dev s n \<noteq> None \<or> (\<exists>i < NBUF. b_refcnt (bufs s i) = 0)"
  shows "\<exists>b B. b < NBUF \<and> bget dev n s = Inr (b, take_buf p b B s) \<and>
    (bufof dev s n = Some b \<and> B = (bufs s b)\<lparr>b_refcnt := b_refcnt (bufs s b) + 1\<rparr> \<or>
     bufof dev s n = None \<and> b_refcnt (bufs s b) = 0 \<and> B = (bufs s b)\<lparr>b_dev := dev, b_blockno := n, b_valid := 0, b_refcnt := 1\<rparr>)"
proof -
  obtain xs where l: "lru (b_next s) (b_prev s) xs" using ok by (auto simp: bio_ok_def)
  have calm: "calm p s" using ok by (simp add: bio_ok_def disk_ready_calm)
  have u: "unique dev s" and xs: "set xs = {..<NBUF}" using ok l by (auto simp: bio_ok_def lru_def)
  let ?P = "\<lambda>i. b_dev (bufs s i) = dev \<and> b_blockno (bufs s i) = n"
  have f1: "bfind (Suc NBUF) (b_next s) ?P (b_next s BHead) = Inr (bufof dev s n)"
    using bfind_lru(1) [OF l] find_lru [OF u xs] by simp
  have acq: "acquiresleep (BufLock b) (s\<lparr>bufs := bs\<rparr>) = Inr ((), s\<lparr>bufs := bs, slocks := (slocks s)(BufLock b := (slocks s (BufLock b))\<lparr>sl_locked := 1, sl_pid := p_pid (procs s p)\<rparr>)\<rparr>)"
    if "sl_locked (slocks s (BufLock b)) = 0" for b bs
    using acquiresleep_run [of p "s\<lparr>bufs := bs\<rparr>" "BufLock b"] calm that by (simp add: calm_def lockrun)
  show ?thesis
  proof (cases "bufof dev s n")
    case (Some b)
    have "b < NBUF" using Some bufof_iff [OF u] by blast
    moreover have "sl_locked (slocks s (BufLock b)) = 0" using nl Some by (simp add: lockd_def)
    ultimately show ?thesis
      using Some f1 calm acq [of b]
      by (intro exI [of _ b] exI [of _ "(bufs s b)\<lparr>b_refcnt := b_refcnt (bufs s b) + 1\<rparr>"])
        (simp add: bget_def calm_def lockrun upd_buf_def take_buf_def del: bfind.simps)
  next
    case None
    have f2: "bfind (Suc NBUF) (b_prev s) (\<lambda>i. b_refcnt (bufs s i) = 0) (b_prev s BHead) = Inr (find (\<lambda>i. b_refcnt (bufs s i) = 0) (rev xs))"
      using bfind_lru(2) [OF l] by simp
    have "find (\<lambda>i. b_refcnt (bufs s i) = 0) (rev xs) \<noteq> None" using room None xs by (auto simp: find_None_iff)
    then obtain b where b: "find (\<lambda>i. b_refcnt (bufs s i) = 0) (rev xs) = Some b" by auto
    then have fb: "b < NBUF" "b_refcnt (bufs s b) = 0" using xs find_in [OF b] by simp_all
    then have "sl_locked (slocks s (BufLock b)) = 0" using ok by (simp add: bio_ok_def buf_ok_def)
    then show ?thesis
      using None f1 f2 b fb calm acq [of b]
      by (intro exI [of _ b] exI [of _ "(bufs s b)\<lparr>b_dev := dev, b_blockno := n, b_valid := 0, b_refcnt := 1\<rparr>"])
        (simp add: bget_def calm_def lockrun upd_buf_def take_buf_def del: bfind.simps)
  qed
qed

lemma same_procs_pid: "same_procs ps ps' \<Longrightarrow> p_pid (ps' i) = p_pid (ps i)"
  unfolding same_procs_def by (drule spec [of _ i], drule arg_cong [of _ _ p_pid]) simp

lemma disk_ready_take: "disk_ready p (take_buf p b B s) \<longleftrightarrow> disk_ready p s"
  by (simp add: disk_ready_def take_buf_def lockrun)

text \<open>What a read leaves: one buffer taken, with the content of the block.\<close>

definition took :: "nat \<Rightarrow> u32 \<Rightarrow> u32 \<Rightarrow> nat \<Rightarrow> 'a biost_scheme \<Rightarrow> 'a biost_scheme \<Rightarrow> bool" where
  "took p dev n b s s' \<longleftrightarrow> (\<exists>B. bufs s' = (bufs s)(b := B) \<and> b_dev B = dev \<and> b_blockno B = n \<and> b_disk B = 0 \<and> b_valid B \<noteq> 0 \<and>
       b_refcnt B = (if bufof dev s n = None then 1 else b_refcnt (bufs s b) + 1)) \<and>
     slocks s' = (slocks s)(BufLock b := (slocks s (BufLock b))\<lparr>sl_locked := 1, sl_pid := p_pid (procs s p)\<rparr>) \<and>
     bdata s' = (bdata s)(b := cached dev s n) \<and> vq_disk (vq s') = vq_disk (vq s) \<and> b_next s' = b_next s \<and> b_prev s' = b_prev s \<and>
     disk_ready p s' \<and> same_procs (procs s) (procs s') \<and> biost.more s' = biost.more s"

lemma bread_took:
  assumes ok: "bio_ok p dev s" and nl: "\<not> lockd dev s n" and room: "bufof dev s n \<noteq> None \<or> (\<exists>i < NBUF. b_refcnt (bufs s i) = 0)"
    and n: "unat n < 2 ^ 31"
  shows "\<exists>b s'. b < NBUF \<and> bread dev n s = Inr (b, s') \<and> took p dev n b s s' \<and>
    (bufof dev s n = Some b \<or> bufof dev s n = None \<and> b_refcnt (bufs s b) = 0)"
proof -
  obtain b B where b: "b < NBUF" "bget dev n s = Inr (b, take_buf p b B s)"
    and B: "bufof dev s n = Some b \<and> B = (bufs s b)\<lparr>b_refcnt := b_refcnt (bufs s b) + 1\<rparr> \<or>
     bufof dev s n = None \<and> b_refcnt (bufs s b) = 0 \<and> B = (bufs s b)\<lparr>b_dev := dev, b_blockno := n, b_valid := 0, b_refcnt := 1\<rparr>"
    using bget_run [OF ok nl room] by blast
  let ?s = "take_buf p b B s"
  have r: "disk_ready p s" and u: "unique dev s" and bk: "buf_ok p dev s b" using ok b(1) by (auto simp: bio_ok_def)
  have BB: "b_dev B = dev" "b_blockno B = n" "b_disk B = 0" "b_refcnt B = (if bufof dev s n = None then 1 else b_refcnt (bufs s b) + 1)"
    using B bk bufof_iff [OF u, of n b] by (auto simp: buf_ok_def)
  show ?thesis
  proof (cases "b_valid B = 0")
    case True
    have c: "cached dev s n = disk s n" using True B by (auto simp: cached_def)
    have bn: "bufs ?s b = B" by (simp add: take_buf_def)
    obtain ps q v vr where rw: "virtio_disk_rw b False ?s = Inr ((), ?s\<lparr>procs := ps, vd_used_idx := v, vq := q, vregs := vr\<rparr>)"
      "disk_ready p (?s\<lparr>procs := ps, vd_used_idx := v, vq := q, vregs := vr\<rparr>)" "same_procs (procs ?s) ps"
      "vq_data q = (bdata ?s)(b := dblock (vq_disk (vq ?s)) (unat n))" "vq_disk q = vq_disk (vq ?s)"
      using virtio_disk_rw_run [of p ?s b False] r bn BB n by (auto simp: disk_ready_take Let_def)
    let ?t = "?s\<lparr>procs := ps, vd_used_idx := v, vq := q, vregs := vr\<rparr>"
    let ?s' = "?t\<lparr>bufs := (bufs ?t)(b := (bufs ?t b)\<lparr>b_valid := 1\<rparr>)\<rparr>"
    have "bread dev n s = Inr (b, ?s')"
      using b(2) rw(1) True bn by (simp add: bread_def upd_buf_def Let_def)
    moreover have "disk_ready p ?s'" using rw(2) by (simp add: disk_ready_def lockrun)
    then have "took p dev n b s ?s'"
      using BB rw(3-5) c by (auto simp: took_def take_buf_def bdata_def [abs_def] disk_def intro!: exI [of _ "B\<lparr>b_valid := 1\<rparr>"])
    ultimately show ?thesis using b(1) B by blast
  next
    case False
    then have s: "bufof dev s n = Some b" "b_valid (bufs s b) \<noteq> 0" using B by auto
    then have "cached dev s n = bdata s b" by (simp add: cached_def)
    moreover have "bread dev n s = Inr (b, ?s)" using b(2) False by (simp add: bread_def take_buf_def)
    moreover have "disk_ready p ?s" using r by (simp add: disk_ready_take)
    ultimately have "bread dev n s = Inr (b, ?s) \<and> took p dev n b s ?s"
      using BB False by (auto simp: took_def take_buf_def bdata_def [abs_def] same_procs_intros intro!: exI [of _ B])
    then show ?thesis using b(1) s(1) by blast
  qed
qed

lemma took_view:
  assumes ok: "bio_ok p dev s" and t: "took p dev n b s s'" and b: "b < NBUF"
    and c: "bufof dev s n = Some b \<or> bufof dev s n = None \<and> b_refcnt (bufs s b) = 0"
    and lim: "refs dev s n < 2 ^ 31"
  shows "unique dev s'" and "bufof dev s' n = Some b" and "disk s' = disk s" and "cached dev s' m = cached dev s m"
    and "refs dev s' m = (if m = n then Suc (refs dev s n) else refs dev s m)" and "lockd dev s' m \<longleftrightarrow> m = n \<or> lockd dev s m"
    and "m \<noteq> n \<Longrightarrow> held dev s m d \<Longrightarrow> held dev s' m d"
proof -
  obtain B where B: "bufs s' = (bufs s)(b := B)" "b_dev B = dev" "b_blockno B = n" "b_valid B \<noteq> 0"
    "b_refcnt B = (if bufof dev s n = None then 1 else b_refcnt (bufs s b) + 1)"
    using t by (auto simp: took_def)
  have ts: "slocks s' = (slocks s)(BufLock b := (slocks s (BufLock b))\<lparr>sl_locked := 1, sl_pid := p_pid (procs s p)\<rparr>)"
    "bdata s' = (bdata s)(b := cached dev s n)" "vq_disk (vq s') = vq_disk (vq s)"
    using t by (auto simp: took_def)
  have u: "unique dev s" and bk: "buf_ok p dev s b" using ok b by (auto simp: bio_ok_def)
  have c': "bufof dev s n = Some b \<or> bufof dev s n = None" using c by auto
  show "unique dev s'" using bufof_upd(1) [OF u b B(2,3) c' B(1)] .
  have bo: "bufof dev s' k = (if k = n then Some b else if bufof dev s k = Some b then None else bufof dev s k)" for k
    using bufof_upd(2) [OF u b B(2,3) c' B(1)] .
  then show "bufof dev s' n = Some b" by simp
  show dk: "disk s' = disk s" using ts by (simp add: disk_def [abs_def])
  have old: "b_refcnt (bufs s b) = 0" if "k \<noteq> n" "bufof dev s k = Some b" for k
    using c that bufof_iff [OF u, of k b] bufof_iff [OF u, of n b] by auto
  have same: "bufs s' i = bufs s i" "bdata s' i = bdata s i" "slocks s' (BufLock i) = slocks s (BufLock i)" if "i \<noteq> b" for i
    using ts B(1) that by auto
  have clean: "cached dev s m = disk s m" if "m \<noteq> n" "bufof dev s m = Some b"
    using old [OF that] bk that bufof_iff [OF u, of m b] by (auto simp: cached_def buf_ok_def)
  consider (at) "m = n" | (out) "m \<noteq> n" "bufof dev s m = Some b" | (none) "m \<noteq> n" "bufof dev s m = None"
    | (other) i where "m \<noteq> n" "bufof dev s m = Some i" "i \<noteq> b" by (cases "bufof dev s m") auto
  then show "cached dev s' m = cached dev s m"
  proof cases
    case at
    then show ?thesis using bo [of n] ts(2) B(1,4) by (simp add: cached_def [of _ s'])
  next
    case out
    then show ?thesis using clean bo [of m] dk by (simp add: cached_def [of _ s'])
  next
    case none
    then show ?thesis using bo [of m] dk by (simp add: cached_def)
  next
    case other
    then show ?thesis using bo [of m] dk same by (simp add: cached_def)
  qed
  show "refs dev s' m = (if m = n then Suc (refs dev s n) else refs dev s m)"
  proof (cases "m = n \<or> bufof dev s m = Some b \<or> bufof dev s m = None")
    case True
    have "unat (b_refcnt (bufs s b) + 1) = Suc (unat (b_refcnt (bufs s b)))" if "bufof dev s n = Some b"
      using lim that by (simp add: refs_def unat_plus_one_small)
    then show ?thesis using True B(1,5) bo [of m] c old [of m] by (auto simp: refs_def)
  next
    case False
    then show ?thesis using bo [of m] same by (auto simp: refs_def)
  qed
  show "lockd dev s' m \<longleftrightarrow> m = n \<or> lockd dev s m"
  proof (cases "m = n \<or> bufof dev s m = Some b \<or> bufof dev s m = None")
    case True
    have "sl_locked (slocks s (BufLock b)) = 0" if "m \<noteq> n" "bufof dev s m = Some b" using old [OF that] bk by (simp add: buf_ok_def)
    then show ?thesis using True ts bo [of m] by (auto simp: lockd_def)
  next
    case False
    then show ?thesis using bo [of m] same by (auto simp: lockd_def)
  qed
  show "held dev s' m d" if "m \<noteq> n" "held dev s m d"
  proof -
    have "d \<noteq> b" using that old by (auto simp: held_def)
    then show ?thesis using that bo [of m] same by (auto simp: held_def)
  qed
qed

lemma bread_run:
  assumes ok: "bio_ok p dev s" and nl: "\<not> lockd dev s n" and room: "bufof dev s n \<noteq> None \<or> (\<exists>i < NBUF. b_refcnt (bufs s i) = 0)"
    and n: "unat n < 2 ^ 31" and lim: "refs dev s n < 2 ^ 31"
  shows "\<exists>b s'. bread dev n s = Inr (b, s') \<and> bio_ok p dev s' \<and> held dev s' n b \<and> vq_disk (vq s') = vq_disk (vq s) \<and>
    cached dev s' = cached dev s \<and> refs dev s' = (refs dev s)(n := Suc (refs dev s n)) \<and> lockd dev s' = (lockd dev s)(n := True) \<and>
    (\<forall>m d. m \<noteq> n \<and> held dev s m d \<longrightarrow> held dev s' m d) \<and> biost.more s' = biost.more s"
proof -
  obtain b s' where b: "b < NBUF" "bread dev n s = Inr (b, s')" and t: "took p dev n b s s'"
    and c: "bufof dev s n = Some b \<or> bufof dev s n = None \<and> b_refcnt (bufs s b) = 0"
    using bread_took [OF ok nl room n] by blast
  note v = took_view [OF ok t b(1) c lim]
  obtain B where B: "bufs s' = (bufs s)(b := B)" "b_dev B = dev" "b_blockno B = n" "b_disk B = 0" "b_valid B \<noteq> 0"
    "b_refcnt B = (if bufof dev s n = None then 1 else b_refcnt (bufs s b) + 1)"
    using t by (auto simp: took_def)
  note ts = t [unfolded took_def]
  have "b_refcnt B \<noteq> 0"
    using v(5) [of n] v(2) B(1) by (auto simp: refs_def)
  have "buf_ok p dev s' i" if "i < NBUF" for i
  proof (cases "i = b")
    case True
    then show ?thesis using B ts \<open>b_refcnt B \<noteq> 0\<close> n same_procs_pid [of "procs s" "procs s'" p] by (simp add: buf_ok_def)
  next
    case False
    then show ?thesis
      using ok that B(1) ts v(3) same_procs_pid [of "procs s" "procs s'" p] by (simp add: bio_ok_def buf_ok_def)
  qed
  then have "bio_ok p dev s'" using ok ts v(1) by (auto simp: bio_ok_def)
  moreover have "held dev s' n b" using v(2) B(1,5) \<open>b_refcnt B \<noteq> 0\<close> ts by (simp add: held_def)
  ultimately show ?thesis
    using b(2) v(4-7) ts by (intro exI [of _ b] exI [of _ s']) (auto simp: fun_eq_iff)
qed

section \<open>Using a buffer\<close>

lemma held_facts:
  assumes "bio_ok p dev s" and "held dev s n b"
  shows "b < NBUF" "b_dev (bufs s b) = dev" "b_blockno (bufs s b) = n" "bdata s b = cached dev s n"
    "refs dev s n = unat (b_refcnt (bufs s b))" "lockd dev s n" "buf_ok p dev s b" "unat n < 2 ^ 31" "refs dev s n \<noteq> 0"
proof -
  have u: "unique dev s" using assms(1) by (simp add: bio_ok_def)
  have o: "bufof dev s n = Some b" using assms(2) by (simp add: held_def)
  then show b: "b < NBUF" "b_dev (bufs s b) = dev" "b_blockno (bufs s b) = n" using bufof_iff [OF u] by blast+
  show "bdata s b = cached dev s n" "refs dev s n = unat (b_refcnt (bufs s b))" "lockd dev s n" "refs dev s n \<noteq> 0"
    using assms(2) o by (simp_all add: held_def cached_def refs_def lockd_def unat_eq_zero)
  show "buf_ok p dev s b" using assms(1) b(1) by (simp add: bio_ok_def)
  then show "unat n < 2 ^ 31" using b(3) by (simp add: buf_ok_def)
qed

lemma bufof_cong: "(\<And>i. b_dev (bufs s' i) = b_dev (bufs s i) \<and> b_blockno (bufs s' i) = b_blockno (bufs s i)) \<Longrightarrow> bufof dev s' = bufof dev s"
  by (simp add: bufof_def fun_eq_iff)

lemma set_bdata_run:
  fixes d
  assumes ok: "bio_ok p dev s" and h: "held dev s n b"
  defines "s' \<equiv> set_bdata b d s"
  shows "bio_ok p dev s'" "cached dev s' = (cached dev s)(n := d)" "vq_disk (vq s') = vq_disk (vq s)" "refs dev s' = refs dev s"
    "lockd dev s' = lockd dev s" "held dev s' = held dev s" "biost.more s' = biost.more s"
proof -
  note hf = held_facts [OF ok h]
  have u: "unique dev s" using ok by (simp add: bio_ok_def)
  have f: "bufs s' = bufs s" "slocks s' = slocks s" "bdata s' = (bdata s)(b := d)" "disk s' = disk s" "procs s' = procs s" "b_next s' = b_next s" "b_prev s' = b_prev s"
    by (simp_all add: s'_def set_bdata_def upd_vq_def bdata_def [abs_def] disk_def [abs_def])
  have bo: "bufof dev s' = bufof dev s" using f(1) by (intro bufof_cong) simp
  show "vq_disk (vq s') = vq_disk (vq s)" "biost.more s' = biost.more s" by (simp_all add: s'_def set_bdata_def upd_vq_def)
  show "refs dev s' = refs dev s" "lockd dev s' = lockd dev s" "held dev s' = held dev s"
    unfolding refs_def [abs_def] lockd_def [abs_def] held_def [abs_def] bo f by simp_all
  show "cached dev s' = (cached dev s)(n := d)"
  proof
    fix m show "cached dev s' m = ((cached dev s)(n := d)) m"
    proof (cases "m = n")
      case True
      then show ?thesis using h by (simp add: cached_def bo f held_def)
    next
      case False
      then have "bufof dev s m \<noteq> Some b" using bufof_iff [OF u] hf(3) by auto
      then show ?thesis using False by (cases "bufof dev s m") (auto simp: cached_def bo f)
    qed
  qed
  have "disk_ready p s'" using ok by (simp add: bio_ok_def disk_ready_def s'_def set_bdata_def upd_vq_def lockrun)
  moreover have "buf_ok p dev s' i" if "i < NBUF" for i
    using ok that h f by (cases "i = b") (simp_all add: bio_ok_def buf_ok_def held_def)
  ultimately show "bio_ok p dev s'" using ok f by (simp add: bio_ok_def unique_def)
qed

lemma dblock_append: "dblock (d\<lparr>d_writes := d_writes d @ [(n, bs)]\<rparr>) = (dblock d)(n := bs)"
  by (simp add: dblock_def)

lemma bwrite_run:
  assumes ok: "bio_ok p dev s" and h: "held dev s n b"
  shows "\<exists>s'. bwrite b s = Inr ((), s') \<and> bio_ok p dev s' \<and> cached dev s' = cached dev s \<and>
    vq_disk (vq s') = (vq_disk (vq s))\<lparr>d_writes := d_writes (vq_disk (vq s)) @ [(unat n, cached dev s n)]\<rparr> \<and>
    refs dev s' = refs dev s \<and> lockd dev s' = lockd dev s \<and> held dev s' = held dev s \<and> biost.more s' = biost.more s"
proof -
  note hf = held_facts [OF ok h]
  have u: "unique dev s" and r: "disk_ready p s" using ok by (simp_all add: bio_ok_def)
  obtain ps q v vr where rw: "virtio_disk_rw b True s = Inr ((), s\<lparr>procs := ps, vd_used_idx := v, vq := q, vregs := vr\<rparr>)"
      "disk_ready p (s\<lparr>procs := ps, vd_used_idx := v, vq := q, vregs := vr\<rparr>)" "same_procs (procs s) ps"
      "vq_data q = bdata s" "vq_disk q = (vq_disk (vq s))\<lparr>d_writes := d_writes (vq_disk (vq s)) @ [(unat n, bdata s b)]\<rparr>"
    using virtio_disk_rw_run [OF r, of b True] hf(3,7,8) by (auto simp: Let_def buf_ok_def)
  let ?s = "s\<lparr>procs := ps, vd_used_idx := v, vq := q, vregs := vr\<rparr>"
  have run: "bwrite b s = Inr ((), ?s)"
    using rw(1) holdingsleep_run [OF disk_ready_calm [OF r], of "BufLock b"] h hf(7) by (simp add: bwrite_def held_def buf_ok_def)
  have f: "bufs ?s = bufs s" "slocks ?s = slocks s" "bdata ?s = bdata s" "b_next ?s = b_next s" "b_prev ?s = b_prev s"
    using rw(4) by (simp_all add: bdata_def [abs_def])
  have dk: "disk ?s = (disk s)(n := cached dev s n)"
    using rw(5) hf(4) by (auto simp: disk_def fun_eq_iff dblock_append dest: unsigned_word_eqI)
  have bo: "bufof dev ?s = bufof dev s" using f(1) by (intro bufof_cong) simp
  have c: "cached dev ?s m = cached dev s m" for m
  proof (cases "m = n")
    case True
    then show ?thesis using h f hf(4) unfolding held_def cached_def bo by simp
  next
    case False
    then show ?thesis unfolding cached_def [of dev _ m] bo f dk by (simp split: option.split)
  qed
  have "buf_ok p dev ?s i" if "i < NBUF" for i
  proof (cases "i = b")
    case True
    then show ?thesis using hf(7) h f same_procs_pid [OF rw(3)] by (simp add: buf_ok_def held_def)
  next
    case False
    have "b_blockno (bufs s i) \<noteq> n \<or> b_dev (bufs s i) \<noteq> dev" using u that False hf(1-3) by (auto simp: unique_def)
    then show ?thesis using ok that f same_procs_pid [OF rw(3)] unfolding buf_ok_def dk by (auto simp: bio_ok_def buf_ok_def)
  qed
  then have "bio_ok p dev ?s" using ok rw(2) f by (simp add: bio_ok_def unique_def)
  then show ?thesis
    using run c rw(5) hf(4) by (intro exI [of _ ?s]) (simp add: fun_eq_iff refs_def lockd_def held_def bo split: option.split)
qed

section \<open>Giving a buffer back\<close>

text \<open>
  A reference to the buffer \<open>b\<close> of block \<open>n\<close> is dropped or added; the sleep lock of \<open>b\<close> may be
  released with it.
\<close>

definition recount :: "nat \<Rightarrow> u32 \<Rightarrow> nat \<Rightarrow> nat \<Rightarrow> bool \<Rightarrow> 'a biost_scheme \<Rightarrow> 'a biost_scheme \<Rightarrow> bool" where
  "recount p dev b r unlock s s' \<longleftrightarrow> (\<exists>w. unat w = r \<and> bufs s' = (bufs s)(b := (bufs s b)\<lparr>b_refcnt := w\<rparr>)) \<and>
     slocks s' = (if unlock then (slocks s)(BufLock b := (slocks s (BufLock b))\<lparr>sl_locked := 0, sl_pid := 0\<rparr>) else slocks s) \<and>
     vq s' = vq s \<and> same_procs (procs s) (procs s') \<and> disk_ready p s' \<and> (\<exists>xs. lru (b_next s') (b_prev s') xs) \<and>
     biost.more s' = biost.more s"

lemma recount_view:
  assumes ok: "bio_ok p dev s" and h: "held dev s n b" and t: "recount p dev b r unlock s s'"
    and r: "r = 0 \<longrightarrow> unlock \<and> cached dev s n = disk s n"
  shows "bio_ok p dev s'" and "cached dev s' = cached dev s" and "vq_disk (vq s') = vq_disk (vq s)"
    and "refs dev s' = (refs dev s)(n := r)" and "lockd dev s' = (if unlock then (lockd dev s)(n := False) else lockd dev s)"
    and "m \<noteq> n \<or> \<not> unlock \<Longrightarrow> held dev s m i \<Longrightarrow> held dev s' m i"
proof -
  note hf = held_facts [OF ok h]
  have u: "unique dev s" using ok by (simp add: bio_ok_def)
  obtain w where w: "unat w = r" "bufs s' = (bufs s)(b := (bufs s b)\<lparr>b_refcnt := w\<rparr>)" using t by (auto simp: recount_def)
  have sl: "slocks s' = (if unlock then (slocks s)(BufLock b := (slocks s (BufLock b))\<lparr>sl_locked := 0, sl_pid := 0\<rparr>) else slocks s)"
    and tq: "vq s' = vq s" and pr: "same_procs (procs s) (procs s')" and dr: "disk_ready p s'" and l: "\<exists>xs. lru (b_next s') (b_prev s') xs"
    using t by (auto simp: recount_def)
  have bd: "bdata s' = bdata s" "disk s' = disk s" using tq by (simp_all add: bdata_def [abs_def] disk_def [abs_def])
  have bo: "bufof dev s' = bufof dev s" using w(2) by (intro bufof_cong) auto
  have on: "bufof dev s n = Some b" using h by (simp add: held_def)
  have ob: "bufof dev s k = Some b \<longleftrightarrow> k = n" for k using on bufof_iff [OF u, of k b] hf(1-3) by auto
  show "vq_disk (vq s') = vq_disk (vq s)" using tq by simp
  show "cached dev s' = cached dev s"
    unfolding cached_def [abs_def] bo bd using w(2) by (auto simp: fun_eq_iff split: option.splits)
  show "refs dev s' = (refs dev s)(n := r)"
  proof
    fix k show "refs dev s' k = ((refs dev s)(n := r)) k"
      using w ob [of k] on by (cases "k = n"; cases "bufof dev s k") (auto simp: refs_def bo)
  qed
  show "lockd dev s' = (if unlock then (lockd dev s)(n := False) else lockd dev s)"
  proof
    fix k show "lockd dev s' k = (if unlock then (lockd dev s)(n := False) else lockd dev s) k"
      using sl ob [of k] on by (cases "k = n"; cases "bufof dev s k") (auto simp: lockd_def bo)
  qed
  show "held dev s' m i" if "m \<noteq> n \<or> \<not> unlock" "held dev s m i"
    using that sl w ob [of m] r on unfolding held_def bo by (auto simp: unat_eq_zero split: if_splits)
  have "buf_ok p dev s' i" if "i < NBUF" for i
  proof (cases "i = b")
    case True
    then show ?thesis using hf(2-4,7) r w sl same_procs_pid [OF pr] by (auto simp: buf_ok_def bd)
  next
    case False
    then show ?thesis using ok that w sl same_procs_pid [OF pr] by (auto simp: bio_ok_def buf_ok_def bd)
  qed
  moreover have "b_dev (bufs s' i) = b_dev (bufs s i)" "b_blockno (bufs s' i) = b_blockno (bufs s i)" for i
    using w(2) by simp_all
  then have "unique dev s'" using u by (simp add: unique_def)
  ultimately show "bio_ok p dev s'" using dr l by (simp add: bio_ok_def)
qed

lemma unat_minus_one_pos: "(x :: u32) \<noteq> 0 \<Longrightarrow> unat (x - 1) = unat x - 1"
  by (simp add: unat_minus_one)

lemma bunpin_run:
  assumes ok: "bio_ok p dev s" and h: "held dev s n b"
  shows "\<exists>s'. bunpin b s = Inr ((), s') \<and> recount p dev b (refs dev s n - 1) False s s'"
    and "refs dev s n < 2 ^ 31 \<Longrightarrow> \<exists>s'. bpin b s = Inr ((), s') \<and> recount p dev b (Suc (refs dev s n)) False s s'"
proof -
  note hf = held_facts [OF ok h]
  have r: "disk_ready p s" and l: "\<exists>xs. lru (b_next s) (b_prev s) xs" using ok by (auto simp: bio_ok_def)
  then have calm: "calm p s" by (simp add: disk_ready_calm)
  let ?s = "\<lambda>w. s\<lparr>bufs := (bufs s)(b := (bufs s b)\<lparr>b_refcnt := w\<rparr>)\<rparr>"
  have rc: "recount p dev b (unat w) False s (?s w)" for w
    using r l by (auto simp: recount_def disk_ready_def lockrun same_procs_intros)
  have "bunpin b s = Inr ((), ?s (b_refcnt (bufs s b) - 1))"
    using calm by (simp add: bunpin_def calm_def lockrun upd_buf_def)
  then show "\<exists>s'. bunpin b s = Inr ((), s') \<and> recount p dev b (refs dev s n - 1) False s s'"
    using rc [of "b_refcnt (bufs s b) - 1"] hf(5) h by (simp add: held_def unat_minus_one_pos)
  have "bpin b s = Inr ((), ?s (b_refcnt (bufs s b) + 1))"
    using calm by (simp add: bpin_def calm_def lockrun upd_buf_def)
  then show "\<exists>s'. bpin b s = Inr ((), s') \<and> recount p dev b (Suc (refs dev s n)) False s s'" if "refs dev s n < 2 ^ 31"
    using rc [of "b_refcnt (bufs s b) + 1"] hf(5) that by (simp add: unat_plus_one_small)
qed

lemma brelse_run:
  assumes ok: "bio_ok p dev s" and h: "held dev s n b"
  shows "\<exists>s'. brelse b s = Inr ((), s') \<and> recount p dev b (refs dev s n - 1) True s s'"
proof -
  note hf = held_facts [OF ok h]
  have r: "disk_ready p s" using ok by (auto simp: bio_ok_def)
  obtain xs where l: "lru (b_next s) (b_prev s) xs" using ok by (auto simp: bio_ok_def)
  obtain as bs where sp: "xs = as @ b # bs" "b_next s (BBuf b) = lastn BHead (rev bs)" "b_prev s (BBuf b) = lastn BHead as"
    "lastn BHead as \<noteq> BBuf b" "lastn BHead (rev bs) \<noteq> BBuf b" using lru_split [OF l hf(1)] by blast
  have calm: "calm p s" using r by (simp add: disk_ready_calm)
  let ?w = "b_refcnt (bufs s b) - 1"
  let ?t = "s\<lparr>slocks := (slocks s)(BufLock b := (slocks s (BufLock b))\<lparr>sl_locked := 0, sl_pid := 0\<rparr>),
    procs := woken (Some (ChanSleepLock (BufLock b))) (Some p) {..<NPROC} (procs s)\<rparr>"
  let ?nx1 = "(b_next s)(lastn BHead as := lastn BHead (rev bs))" and ?pv1 = "(b_prev s)(lastn BHead (rev bs) := lastn BHead as)"
  let ?nx = "if ?w = 0 then ?nx1(BBuf b := ?nx1 BHead, BHead := BBuf b) else b_next s"
    and ?pv = "if ?w = 0 then ?pv1(BBuf b := BHead, ?nx1 BHead := BBuf b) else b_prev s"
  let ?s = "\<lambda>nx pv. ?t\<lparr>bufs := (bufs s)(b := (bufs s b)\<lparr>b_refcnt := ?w\<rparr>), b_prev := pv, b_next := nx\<rparr>"
  have hs: "holdingsleep (BufLock b) s = Inr (True, s)"
    using holdingsleep_run [OF calm, of "BufLock b"] h hf(7) by (simp add: held_def buf_ok_def)
  have "brelse b s = Inr ((), ?s ?nx ?pv)"
    using hs releasesleep_run [OF calm, of "BufLock b"] calm sp(2-5)
    by (simp add: brelse_def calm_def lockrun upd_buf_def set_prev_def set_next_def)
  moreover have "\<exists>ys. lru ?nx ?pv ys" using l lru_front [OF l sp(1)] by auto
  ultimately obtain nx pv where run: "brelse b s = Inr ((), ?s nx pv)" and l': "\<exists>ys. lru nx pv ys" by blast
  have "disk_ready p (?s nx pv)" using r by (simp add: disk_ready_def lockrun woken_def)
  moreover have "unat ?w = refs dev s n - 1" using hf(5) h by (simp add: held_def unat_minus_one_pos)
  ultimately have "recount p dev b (refs dev s n - 1) True s (?s nx pv)"
    using l' by (auto simp: recount_def same_procs_intros intro!: exI [of _ ?w])
  then show ?thesis using run by blast
qed

section \<open>What a client sees\<close>

text \<open>
  To its clients the cache is: contents \<open>C\<close> of the blocks, a disk \<open>D\<close>, the number \<open>R\<close> of references to
  each block, and which buffers the caller has locked, \<open>H\<close>.  \<open>X\<close> is the rest of the state, which the cache
  leaves alone.
\<close>

definition dwr :: "blkdisk \<Rightarrow> u32 \<Rightarrow> u8 list \<Rightarrow> blkdisk" where
  "dwr D n d = D\<lparr>d_writes := d_writes D @ [(unat n, d)]\<rparr>"

definition dk :: "blkdisk \<Rightarrow> u32 \<Rightarrow> u8 list" where
  "dk D n = dblock D (unat n)"

lemma dk_dwr [simp]: "dk (dwr D n d) = (dk D)(n := d)"
  by (auto simp: dk_def dwr_def fun_eq_iff dblock_append dest: unsigned_word_eqI)

definition cview :: "nat \<Rightarrow> u32 \<Rightarrow> 'a biost_scheme \<Rightarrow> (u32 \<Rightarrow> u8 list) \<Rightarrow> blkdisk \<Rightarrow> (u32 \<Rightarrow> nat) \<Rightarrow> (u32 \<rightharpoonup> nat) \<Rightarrow> 'a \<Rightarrow> bool" where
  "cview p dev s C D R H X \<longleftrightarrow> bio_ok p dev s \<and> cached dev s = C \<and> vq_disk (vq s) = D \<and> refs dev s = R \<and>
     (\<forall>n b. H n = Some b \<longrightarrow> held dev s n b) \<and> (\<forall>n. lockd dev s n \<longleftrightarrow> H n \<noteq> None) \<and> biost.more s = X"

lemma disk_dk: "disk s = dk (vq_disk (vq s))"
  by (simp add: disk_def dk_def fun_eq_iff)

lemma room_refs:
  assumes ok: "bio_ok p dev s" and "card {m. refs dev s m \<noteq> 0} < NBUF"
  shows "\<exists>i < NBUF. b_refcnt (bufs s i) = 0"
proof (rule ccontr)
  assume "\<not> ?thesis"
  then have d: "b_refcnt (bufs s i) \<noteq> 0" "b_dev (bufs s i) = dev" if "i < NBUF" for i
    using ok that by (auto simp: bio_ok_def buf_ok_def)
  have u: "unique dev s" using ok by (simp add: bio_ok_def)
  let ?f = "\<lambda>i. b_blockno (bufs s i)"
  have "inj_on ?f {..<NBUF}" using u d by (auto simp: inj_on_def unique_def)
  moreover have "{m. refs dev s m \<noteq> 0} \<subseteq> ?f ` {..<NBUF}"
    using bufof_iff [OF u] by (auto simp: refs_def image_iff split: option.splits)
  moreover have "bufof dev s (?f i) = Some i" if "i < NBUF" for i using bufof_iff [OF u, of "?f i" i] d that by simp
  then have "?f ` {..<NBUF} \<subseteq> {m. refs dev s m \<noteq> 0}" using d by (auto simp: refs_def unat_gt_0)
  ultimately have "{m. refs dev s m \<noteq> 0} = ?f ` {..<NBUF}" "card (?f ` {..<NBUF}) = card {..<NBUF}" by (blast, blast intro: card_image)
  then show False using assms(2) by simp
qed

lemma cview_clean: "cview p dev s C D R H X \<Longrightarrow> R n = 0 \<Longrightarrow> C n = dk D n"
proof -
  assume v: "cview p dev s C D R H X" and "R n = 0"
  have u: "unique dev s" using v by (simp add: cview_def bio_ok_def)
  have "cached dev s n = disk s n"
  proof (cases "bufof dev s n")
    case (Some i)
    then have "i < NBUF" "b_dev (bufs s i) = dev" "b_blockno (bufs s i) = n" using bufof_iff [OF u] by blast+
    moreover have "buf_ok p dev s i" using v \<open>i < NBUF\<close> by (simp add: cview_def bio_ok_def)
    moreover have "b_refcnt (bufs s i) = 0" using v \<open>R n = 0\<close> Some by (auto simp: cview_def refs_def unat_eq_zero)
    ultimately show ?thesis using Some by (simp add: cached_def buf_ok_def)
  qed (simp add: cached_def)
  then show ?thesis using v by (simp add: cview_def disk_dk)
qed

lemma cview_get: "cview p dev s C D R H X \<Longrightarrow> H n = Some b \<Longrightarrow> bdata s b = C n"
  using held_facts(4) unfolding cview_def by metis

lemma cview_blockno: "cview p dev s C D R H X \<Longrightarrow> H n = Some b \<Longrightarrow> b_blockno (bufs s b) = n"
  using held_facts(3) unfolding cview_def by metis

lemma cview_bread:
  assumes v: "cview p dev s C D R H X" and "H n = None" and room: "R n \<noteq> 0 \<or> card {m. R m \<noteq> 0} < NBUF"
    and "unat n < 2 ^ 31" and "R n < 2 ^ 31"
  shows "\<exists>b s'. bread dev n s = Inr (b, s') \<and> cview p dev s' C D (R(n := Suc (R n))) (H(n \<mapsto> b)) X"
proof -
  have ok: "bio_ok p dev s" "\<not> lockd dev s n" "refs dev s n < 2 ^ 31" using assms by (auto simp: cview_def)
  have "bufof dev s n \<noteq> None \<or> (\<exists>i < NBUF. b_refcnt (bufs s i) = 0)"
    using room room_refs [OF ok(1)] v by (auto simp: cview_def refs_def)
  from bread_run [OF ok(1,2) this assms(4) ok(3)] obtain b s' where
    b: "bread dev n s = Inr (b, s')" "bio_ok p dev s'" "held dev s' n b" "vq_disk (vq s') = vq_disk (vq s)" "cached dev s' = cached dev s"
      "refs dev s' = (refs dev s)(n := Suc (refs dev s n))" "lockd dev s' = (lockd dev s)(n := True)"
      "\<forall>m i. m \<noteq> n \<longrightarrow> held dev s m i \<longrightarrow> held dev s' m i" "biost.more s' = biost.more s"
    by auto
  then have "cview p dev s' C D (R(n := Suc (R n))) (H(n \<mapsto> b)) X" using v by (auto simp: cview_def)
  then show ?thesis using b(1) by blast
qed

lemma cview_set:
  assumes "cview p dev s C D R H X" and "H n = Some b"
  shows "cview p dev (set_bdata b d s) (C(n := d)) D R H X"
  using set_bdata_run [of p dev s n b d] assms by (auto simp: cview_def)

lemma cview_bwrite:
  assumes "cview p dev s C D R H X" and "H n = Some b"
  shows "\<exists>s'. bwrite b s = Inr ((), s') \<and> cview p dev s' C (dwr D n (C n)) R H X"
  using bwrite_run [of p dev s n b] assms by (auto simp: cview_def dwr_def)

lemma cview_brelse:
  assumes v: "cview p dev s C D R H X" and h: "H n = Some b" and "R n = 1 \<longrightarrow> C n = dk D n"
  shows "\<exists>s'. brelse b s = Inr ((), s') \<and> cview p dev s' C D (R(n := R n - 1)) (H(n := None)) X"
proof -
  have ok: "bio_ok p dev s" "held dev s n b" using v h by (auto simp: cview_def)
  obtain s' where s': "brelse b s = Inr ((), s')" "recount p dev b (refs dev s n - 1) True s s'" using brelse_run [OF ok] by blast
  have "refs dev s n - 1 = 0 \<longrightarrow> True \<and> cached dev s n = disk s n"
    using assms(3) v held_facts(9) [OF ok] by (auto simp: cview_def disk_dk)
  note rv = recount_view [OF ok s'(2) this]
  have "cview p dev s' C D (R(n := R n - 1)) (H(n := None)) X"
    using v rv s'(2) by (auto simp: cview_def recount_def)
  then show ?thesis using s'(1) by blast
qed

lemma cview_bunpin:
  assumes v: "cview p dev s C D R H X" and h: "H n = Some b" and "2 \<le> R n"
  shows "\<exists>s'. bunpin b s = Inr ((), s') \<and> cview p dev s' C D (R(n := R n - 1)) H X"
proof -
  have ok: "bio_ok p dev s" "held dev s n b" using v h by (auto simp: cview_def)
  obtain s' where s': "bunpin b s = Inr ((), s')" "recount p dev b (refs dev s n - 1) False s s'" using bunpin_run(1) [OF ok] by blast
  have "refs dev s n - 1 = 0 \<longrightarrow> False \<and> cached dev s n = disk s n" using assms(3) v by (auto simp: cview_def)
  note rv = recount_view [OF ok s'(2) this]
  have "cview p dev s' C D (R(n := R n - 1)) H X" using v rv s'(2) by (auto simp: cview_def recount_def)
  then show ?thesis using s'(1) by blast
qed

lemma cview_bpin:
  assumes v: "cview p dev s C D R H X" and h: "H n = Some b" and "R n < 2 ^ 31"
  shows "\<exists>s'. bpin b s = Inr ((), s') \<and> cview p dev s' C D (R(n := Suc (R n))) H X"
proof -
  have ok: "bio_ok p dev s" "held dev s n b" "refs dev s n < 2 ^ 31" using assms by (auto simp: cview_def)
  obtain s' where s': "bpin b s = Inr ((), s')" "recount p dev b (Suc (refs dev s n)) False s s'" using bunpin_run(2) [OF ok] by blast
  have "Suc (refs dev s n) = 0 \<longrightarrow> False \<and> cached dev s n = disk s n" by simp
  note rv = recount_view [OF ok(1,2) s'(2) this]
  have "cview p dev s' C D (R(n := Suc (R n))) H X" using v rv s'(2) by (auto simp: cview_def recount_def)
  then show ?thesis using s'(1) by blast
qed

section \<open>The contract of a block cache\<close>

locale block_cache =
  fixes view :: "'s \<Rightarrow> (u32 \<Rightarrow> u8 list) \<Rightarrow> blkdisk \<Rightarrow> (u32 \<Rightarrow> nat) \<Rightarrow> (u32 \<rightharpoonup> nat) \<Rightarrow> 'x \<Rightarrow> bool"
    and rd :: "u32 \<Rightarrow> 's \<Rightarrow> (nat \<times> 's) res" and wr rel :: "nat \<Rightarrow> 's \<Rightarrow> (unit \<times> 's) res"
    and get :: "'s \<Rightarrow> nat \<Rightarrow> u8 list" and put :: "nat \<Rightarrow> u8 list \<Rightarrow> 's \<Rightarrow> 's"
  assumes clean: "view s C D R H X \<Longrightarrow> R n = 0 \<Longrightarrow> C n = dk D n"
    and get: "view s C D R H X \<Longrightarrow> H n = Some b \<Longrightarrow> get s b = C n"
    and put: "view s C D R H X \<Longrightarrow> H n = Some b \<Longrightarrow> view (put b d s) (C(n := d)) D R H X"
    and rd: "view s C D R H X \<Longrightarrow> H n = None \<Longrightarrow> R n \<noteq> 0 \<or> card {m. R m \<noteq> 0} < NBUF \<Longrightarrow> unat n < 2 ^ 31 \<Longrightarrow> R n < 2 ^ 31 \<Longrightarrow>
      \<exists>b s'. rd n s = Inr (b, s') \<and> view s' C D (R(n := Suc (R n))) (H(n \<mapsto> b)) X"
    and wr: "view s C D R H X \<Longrightarrow> H n = Some b \<Longrightarrow> \<exists>s'. wr b s = Inr ((), s') \<and> view s' C (dwr D n (C n)) R H X"
    and rel: "view s C D R H X \<Longrightarrow> H n = Some b \<Longrightarrow> R n = 1 \<longrightarrow> C n = dk D n \<Longrightarrow>
      \<exists>s'. rel b s = Inr ((), s') \<and> view s' C D (R(n := R n - 1)) (H(n := None)) X"
begin

lemma fetch:
  assumes v: "view s C D R H X" and h: "H n = None" and r: "R n \<noteq> 0 \<or> card {m. R m \<noteq> 0} < NBUF" "unat n < 2 ^ 31" "R n < 2 ^ 31"
  shows "\<exists>b s' s''. rd n s = Inr (b, s') \<and> get s' b = C n \<and> rel b s' = Inr ((), s'') \<and> view s'' C D R H X"
proof -
  obtain b s' where b: "rd n s = Inr (b, s')" "view s' C D (R(n := Suc (R n))) (H(n \<mapsto> b)) X" using rd [OF v h r] by blast
  have "\<exists>s''. rel b s' = Inr ((), s'') \<and> view s'' C D R H X"
    using rel [OF b(2), of n b] clean [OF v, of n] h by (auto simp: fun_upd_idem)
  then show ?thesis using b get [OF b(2), of n b] by auto
qed

lemma update:
  assumes v: "view s C D R H X" and h: "H n = None" and r: "R n \<noteq> 0 \<or> card {m. R m \<noteq> 0} < NBUF" "unat n < 2 ^ 31" "R n < 2 ^ 31"
  shows "\<exists>b s'. rd n s = Inr (b, s') \<and> get s' b = C n \<and>
    (\<forall>d. \<exists>s2 s3. wr b (put b d s') = Inr ((), s2) \<and> rel b s2 = Inr ((), s3) \<and> view s3 (C(n := d)) (dwr D n d) R H X)"
proof -
  obtain b s' where b: "rd n s = Inr (b, s')" "view s' C D (R(n := Suc (R n))) (H(n \<mapsto> b)) X" using rd [OF v h r] by blast
  have "\<exists>s2 s3. wr b (put b d s') = Inr ((), s2) \<and> rel b s2 = Inr ((), s3) \<and> view s3 (C(n := d)) (dwr D n d) R H X" for d
  proof -
    obtain s2 where s2: "wr b (put b d s') = Inr ((), s2)" "view s2 (C(n := d)) (dwr D n d) (R(n := Suc (R n))) (H(n \<mapsto> b)) X"
      using wr [OF put [OF b(2), of n b d], of n b] by auto
    have "\<exists>s3. rel b s2 = Inr ((), s3) \<and> view s3 (C(n := d)) (dwr D n d) R H X"
      using rel [OF s2(2), of n b] h by (auto simp: fun_upd_idem)
    then show ?thesis using s2(1) by blast
  qed
  then show ?thesis using b get [OF b(2), of n b] by auto
qed

end

interpretation bc: block_cache "cview p dev" "bread dev" bwrite brelse bdata set_bdata
  by unfold_locales (rule cview_clean cview_get cview_set cview_bread cview_bwrite cview_brelse; assumption)+

section \<open>Property\<close>

text \<open>What clients of the cache do to a block: read it, or replace its contents and write it through.\<close>

datatype bop = BRead u32 | BWrite u32 "u8 list"

fun run_bops :: "u32 \<Rightarrow> bop list \<Rightarrow> 'a biost_scheme \<Rightarrow> (u8 list list \<times> 'a biost_scheme) res" where
  "run_bops dev [] s = Inr ([], s)"
| "run_bops dev (BRead n # os) s = (
     bindR (bread dev n s) (\<lambda>(b, s).
     let d = bdata s b in
     bindR (brelse b s) (\<lambda>(_, s).
     bindR (run_bops dev os s) (\<lambda>(ds, s). Inr (d # ds, s)))))"
| "run_bops dev (BWrite n d # os) s = (
     bindR (bread dev n s) (\<lambda>(b, s).
     let s = set_bdata b d s in
     bindR (bwrite b s) (\<lambda>(_, s).
     bindR (brelse b s) (\<lambda>(_, s).
     run_bops dev os s))))"

fun array_bops :: "bop list \<Rightarrow> (u32 \<Rightarrow> u8 list) \<Rightarrow> u8 list list \<times> (u32 \<Rightarrow> u8 list)" where
  "array_bops [] f = ([], f)"
| "array_bops (BRead n # os) f = (let (ds, g) = array_bops os f in (f n # ds, g))"
| "array_bops (BWrite n d # os) f = array_bops os (f(n := d))"

definition bop_block :: "bop \<Rightarrow> u32" where
  "bop_block x = (case x of BRead n \<Rightarrow> n | BWrite n _ \<Rightarrow> n)"

lemma run_bops_view:
  assumes "cview p dev s C D (\<lambda>_. 0) Map.empty X" and "\<forall>x \<in> set os. unat (bop_block x) < 2 ^ 31"
  shows "\<exists>s' C' D'. run_bops dev os s = Inr (fst (array_bops os C), s') \<and> cview p dev s' C' D' (\<lambda>_. 0) Map.empty X \<and> C' = snd (array_bops os C)"
  using assms
proof (induction os arbitrary: s C D)
  case Nil
  then show ?case by auto
next
  case (Cons x os)
  have lim: "unat (bop_block x) < 2 ^ 31" "0 < NBUF" using Cons.prems(2) by (simp_all add: NBUF_def MAXOPBLOCKS_def)
  show ?case
  proof (cases x)
    case (BRead n)
    obtain b s1 s2 where r: "bread dev n s = Inr (b, s1)" "bdata s1 b = C n" "brelse b s1 = Inr ((), s2)" "cview p dev s2 C D (\<lambda>_. 0) Map.empty X"
      using bc.fetch [OF Cons.prems(1), of n] lim BRead by (auto simp: bop_block_def)
    then show ?thesis using Cons.IH [OF r(4)] Cons.prems(2) BRead by (auto simp: split_beta)
  next
    case (BWrite n d)
    obtain b s1 where r: "bread dev n s = Inr (b, s1)"
      and w: "\<exists>s2 s3. bwrite b (set_bdata b d s1) = Inr ((), s2) \<and> brelse b s2 = Inr ((), s3) \<and> cview p dev s3 (C(n := d)) (dwr D n d) (\<lambda>_. 0) Map.empty X"
      using bc.update [OF Cons.prems(1), of n] lim BWrite by (auto simp: bop_block_def)
    obtain s2 s3 where w: "bwrite b (set_bdata b d s1) = Inr ((), s2)" "brelse b s2 = Inr ((), s3)"
      "cview p dev s3 (C(n := d)) (dwr D n d) (\<lambda>_. 0) Map.empty X" using w by blast
    then show ?thesis using Cons.IH [OF w(3)] Cons.prems(2) BWrite r by (auto simp: fun_upd_def)
  qed
qed

section \<open>What \<open>binit\<close> builds\<close>

lemma lock_free_initlock: "lock_free lk s \<Longrightarrow> lock_free lk (initlock lk' nm s)"
  by (auto simp: lock_free_def initlock_def upd_lock_def)

lemma settled_initlock: "settled (initlock lk nm s) \<longleftrightarrow> settled s" "mycpu (initlock lk nm s) = mycpu s"
  by (simp_all add: settled_def hart_ok_def initlock_def upd_lock_def spin_defs)

lemma initlock_sels:
  "procs (initlock lk nm (s :: 'a pst_scheme)) = procs s" "cpus (initlock lk nm t) = cpus t"
  "slocks (initlock lk nm (s' :: 'b slst_scheme)) = slocks s'"
  "vd_free (initlock lk nm (u :: 'c vdst_scheme)) = vd_free u" "vd_info_b (initlock lk nm u) = vd_info_b u"
  "vd_used_idx (initlock lk nm u) = vd_used_idx u" "vq (initlock lk nm u) = vq u" "device (initlock lk nm u) = device u"
  "bufs (initlock lk nm u) = bufs u"
  "b_next (initlock lk nm (v :: 'd biost_scheme)) = b_next v" "b_prev (initlock lk nm v) = b_prev v"
  "biost.more (initlock lk nm v) = biost.more v"
  by (simp_all add: initlock_def upd_lock_def)

lemma disk_ready_initlock: "disk_ready p s \<Longrightarrow> disk_ready p (initlock lk nm s)"
  by (simp add: disk_ready_def settled_initlock lock_free_initlock initlock_sels)

definition fresh_upto :: "nat \<Rightarrow> nat \<Rightarrow> 'a biost_scheme \<Rightarrow> 'a biost_scheme \<Rightarrow> bool" where
  "fresh_upto p k s t \<longleftrightarrow> disk_ready p t \<and> bufs t = bufs s \<and> vq t = vq s \<and> biost.more t = biost.more s \<and>
     (\<forall>i < k. sl_locked (slocks t (BufLock i)) = 0) \<and>
     path (b_next t) BHead (rev [0..<k]) BHead \<and> path (b_prev t) BHead [0..<k] BHead"

lemma binit_fresh:
  assumes "disk_ready p s"
  shows "fresh_upto p NBUF s (binit s)"
proof -
  let ?s = "set_next BHead BHead (set_prev BHead BHead (initlock BcacheLock ''bcache'' s))"
  let ?f = "\<lambda>b s :: 'a biost_scheme. let s = set_next (BBuf b) (b_next s BHead) s; s = set_prev (BBuf b) BHead s;
    s = initsleeplock (BufLock b) ''buffer'' s; s = set_prev (b_next s BHead) (BBuf b) s in set_next BHead (BBuf b) s"
  have "fresh_upto p k s (fold ?f [0..<k] ?s)" for k
  proof (induction k)
    case 0
    show ?case using disk_ready_initlock [OF assms]
      by (simp add: fresh_upto_def set_next_def set_prev_def initlock_sels disk_ready_def lockrun)
  next
    case (Suc k)
    define t where "t = fold ?f [0..<k] ?s"
    have t: "fresh_upto p k s t" using Suc by (simp only: t_def)
    have nx: "b_next t BHead = lastn BHead [0..<k]" using t path_first [of "b_next t"] by (fastforce simp: fresh_upto_def)
    have l: "b_next (?f k t) = (b_next t)(BBuf k := b_next t BHead, BHead := BBuf k)"
      "b_prev (?f k t) = (b_prev t)(BBuf k := BHead, lastn BHead [0..<k] := BBuf k)"
      "slocks (?f k t) = (slocks t)(BufLock k := (slocks t (BufLock k))\<lparr>sl_name := ''buffer'', sl_locked := 0, sl_pid := 0\<rparr>)"
      using nx by (simp_all add: Let_def set_next_def set_prev_def initsleeplock_def initlock_sels upd_slock_def)
    have o: "bufs (?f k t) = bufs t" "vq (?f k t) = vq t" "biost.more (?f k t) = biost.more t"
      by (simp_all add: Let_def set_next_def set_prev_def initsleeplock_def initlock_sels upd_slock_def)
    have "disk_ready p t" using t by (simp add: fresh_upto_def)
    then have r: "disk_ready p (?f k t)"
      using disk_ready_initlock [of p t "SleepLk (BufLock k)" "''sleep lock''"]
      by (simp add: Let_def set_next_def set_prev_def initsleeplock_def upd_slock_def disk_ready_def initlock_sels lockrun settled_initlock lock_free_initlock)
    have "path (b_next (?f k t)) BHead (rev [0..<Suc k]) BHead" "path (b_prev (?f k t)) BHead [0..<Suc k] BHead"
      unfolding l using t path_push [of "b_next t" "rev [0..<k]" k] path_push_last [of "b_prev t" "[0..<k]" k] by (simp_all add: fresh_upto_def)
    then have "fresh_upto p (Suc k) s (?f k t)" unfolding fresh_upto_def o l(3) using t r by (auto simp: fresh_upto_def less_Suc_eq)
    then show ?case by (simp add: t_def)
  qed
  from this [of NBUF] show ?thesis by (simp add: binit_def Let_def)
qed

lemma binit_ok:
  assumes "disk_ready p s" and "\<And>i. b_disk (bufs s i) = 0 \<and> b_refcnt (bufs s i) = 0 \<and> b_dev (bufs s i) \<noteq> dev \<and> b_blockno (bufs s i) = 0"
  shows "cview p dev (binit s) (dk (vq_disk (vq s))) (vq_disk (vq s)) (\<lambda>_. 0) Map.empty (biost.more s)"
proof -
  have f: "fresh_upto p NBUF s (binit s)" by (rule binit_fresh [OF assms(1)])
  then have b: "bufof dev (binit s) n = None" for n using assms(2) by (simp add: bufof_None fresh_upto_def)
  have "lru (b_next (binit s)) (b_prev (binit s)) (rev [0..<NBUF])" using f by (auto simp: lru_def fresh_upto_def)
  then have "bio_ok p dev (binit s)" using f assms(2) by (auto simp: bio_ok_def unique_def buf_ok_def fresh_upto_def)
  then show ?thesis using f b by (auto simp: cview_def cached_def refs_def lockd_def fresh_upto_def disk_def dk_def fun_eq_iff)
qed

lemma cview_idle:
  assumes "bio_ok p dev s" and "\<And>n. refs dev s n = 0"
  shows "cview p dev s (disk s) (vq_disk (vq s)) (\<lambda>_. 0) Map.empty (biost.more s)"
proof -
  have nl: "\<not> lockd dev s n" for n
  proof (cases "bufof dev s n")
    case (Some i)
    then have "i < NBUF" using bufof_iff [of dev s n i] assms(1) by (simp add: bio_ok_def)
    then show ?thesis using Some assms(1) assms(2) [of n] by (auto simp: lockd_def refs_def bio_ok_def buf_ok_def unat_eq_zero)
  qed (simp add: lockd_def)
  have v: "cview p dev s (cached dev s) (vq_disk (vq s)) (\<lambda>_. 0) Map.empty (biost.more s)"
    using assms nl by (simp add: cview_def fun_eq_iff)
  have "cached dev s = disk s" using cview_clean [OF v] by (simp add: fun_eq_iff disk_dk)
  then show ?thesis using v by simp
qed

text \<open>
  (C33) Through the buffer cache the disk is an array of blocks.  However reads and write-through updates
  of blocks follow each other, with any buffers recycled in between, every read returns what the last
  write to the block left there, the calls return, and at the end the disk holds the array; no buffer
  stays referenced and the list of buffers is intact.
\<close>

theorem bcache_refines_array:
  assumes "bio_ok p dev s" and "\<And>n. refs dev s n = 0" and "\<And>x. x \<in> set os \<Longrightarrow> unat (bop_block x) < 2 ^ 31"
  shows "\<exists>s'. run_bops dev os s = Inr (fst (array_bops os (disk s)), s') \<and> disk s' = snd (array_bops os (disk s)) \<and>
    bio_ok p dev s' \<and> (\<forall>n. refs dev s' n = 0) \<and> biost.more s' = biost.more s"
proof -
  have v: "cview p dev s (disk s) (vq_disk (vq s)) (\<lambda>_. 0) Map.empty (biost.more s)" using assms(1,2) by (rule cview_idle)
  obtain s' C' D' where r: "run_bops dev os s = Inr (fst (array_bops os (disk s)), s')"
    "cview p dev s' C' D' (\<lambda>_. 0) Map.empty (biost.more s)" "C' = snd (array_bops os (disk s))"
    using run_bops_view [OF v, of os] assms(3) by auto
  have "disk s' = C'" using cview_clean [OF r(2)] r(2) by (simp add: fun_eq_iff disk_dk cview_def)
  then show ?thesis using r by (auto simp: cview_def)
qed

definition demo_bio :: trst where
  "demo_bio = binit demo_disk"

lemma demo_bio_view: "cview 0 1 demo_bio (\<lambda>_. replicate BSIZE 0) (vq_disk (vq demo_st)) (\<lambda>_. 0) Map.empty (biost.more demo_st)"
proof -
  have "b_disk (bufs demo_disk i) = 0 \<and> b_refcnt (bufs demo_disk i) = 0 \<and> b_dev (bufs demo_disk i) \<noteq> 1 \<and> b_blockno (bufs demo_disk i) = 0" for i
    by (simp add: demo_disk_def demo_st_def)
  note binit_ok [OF demo_disk_ready this]
  moreover have "vq demo_disk = vq demo_st" "biost.more demo_disk = biost.more demo_st" "dk (vq_disk (vq demo_st)) = (\<lambda>_. replicate BSIZE 0)"
    by (simp_all add: demo_disk_def demo_st_def dk_def dblock_def fun_eq_iff)
  ultimately show ?thesis by (simp add: demo_bio_def)
qed

theorem bcache_refines_array_witness:
  "\<exists>s'. run_bops 1 [BRead 5, BWrite 5 [1, 2], BRead 5] demo_bio = Inr ([replicate BSIZE 0, [1, 2]], s') \<and> disk s' 5 = [1, 2]"
proof -
  have "bio_ok 0 1 demo_bio" "\<And>n. refs 1 demo_bio n = 0" "disk demo_bio = (\<lambda>_. replicate BSIZE 0)"
    using demo_bio_view cview_clean [OF demo_bio_view] by (simp_all add: cview_def fun_eq_iff disk_dk)
  moreover have "unat (bop_block x) < 2 ^ 31" if "x \<in> set [BRead 5, BWrite 5 [1, 2], BRead 5]" for x
    using that by (auto simp: bop_block_def)
  ultimately show ?thesis
    using bcache_refines_array [of 0 1 demo_bio "[BRead 5, BWrite 5 [1, 2], BRead 5]"]
    by (auto simp del: run_bops.simps)
qed

text \<open>
  (C34) The buffer cache stays well-formed.  In a well-formed cache the buffers form one doubly linked list, no block
  of the device has two buffers, an unreferenced buffer is unlocked and agrees with the disk, and no buffer belongs to
  the disk.  Reading an unlocked block keeps this while a buffer is free, and so does every operation on a
  buffer that the caller has: changing and writing it, pinning it, unpinning it while it stays referenced, and releasing it
  once it is clean or still referenced.
\<close>

theorem bcache_stays_wf:
  assumes ok: "bio_ok p dev s" and h: "held dev s n b" and lim: "\<And>m. refs dev s m < 2 ^ 31"
  shows "(\<not> lockd dev s m \<and> unat m < 2 ^ 31 \<and> (\<exists>i < NBUF. b_refcnt (bufs s i) = 0) \<longrightarrow>
      (\<exists>c s'. bread dev m s = Inr (c, s') \<and> bio_ok p dev s' \<and> held dev s' m c)) \<and>
    bio_ok p dev (set_bdata b d s) \<and>
    (\<exists>s'. bwrite b s = Inr ((), s') \<and> bio_ok p dev s') \<and>
    (\<exists>s'. bpin b s = Inr ((), s') \<and> bio_ok p dev s') \<and>
    (1 < refs dev s n \<longrightarrow> (\<exists>s'. bunpin b s = Inr ((), s') \<and> bio_ok p dev s')) \<and>
    (1 < refs dev s n \<or> cached dev s n = disk s n \<longrightarrow> (\<exists>s'. brelse b s = Inr ((), s') \<and> bio_ok p dev s'))"
proof (intro conjI impI)
  show "\<exists>c s'. bread dev m s = Inr (c, s') \<and> bio_ok p dev s' \<and> held dev s' m c"
    if "\<not> lockd dev s m \<and> unat m < 2 ^ 31 \<and> (\<exists>i < NBUF. b_refcnt (bufs s i) = 0)"
    using bread_run [OF ok _ _ _ lim, of m] that by blast
  show "bio_ok p dev (set_bdata b d s)" by (rule set_bdata_run(1) [OF ok h])
  show "\<exists>s'. bwrite b s = Inr ((), s') \<and> bio_ok p dev s'" using bwrite_run [OF ok h] by blast
  show "\<exists>s'. bpin b s = Inr ((), s') \<and> bio_ok p dev s'"
    using bunpin_run(2) [OF ok h lim] recount_view(1) [OF ok h] by blast
  show "\<exists>s'. bunpin b s = Inr ((), s') \<and> bio_ok p dev s'" if "1 < refs dev s n"
    using bunpin_run(1) [OF ok h] recount_view(1) [OF ok h] that by (metis diff_is_0_eq not_le)
  show "\<exists>s'. brelse b s = Inr ((), s') \<and> bio_ok p dev s'" if "1 < refs dev s n \<or> cached dev s n = disk s n"
    using brelse_run [OF ok h] recount_view(1) [OF ok h] that by (metis diff_is_0_eq not_le)
qed

theorem bcache_stays_wf_witness:
  "\<exists>b s' s''. bread 1 5 demo_bio = Inr (b, s') \<and> brelse b s' = Inr ((), s'') \<and> bio_ok 0 1 s''"
proof -
  obtain b s' where b: "bread 1 5 demo_bio = Inr (b, s')"
    and v: "cview 0 1 s' (\<lambda>_. replicate BSIZE 0) (vq_disk (vq demo_st)) ((\<lambda>_. 0)(5 := Suc 0)) [5 \<mapsto> b] (biost.more demo_st)"
    using cview_bread [OF demo_bio_view, of 5] by (auto simp: NBUF_def MAXOPBLOCKS_def)
  have "cached 1 s' 5 = disk s' 5" using v by (simp add: cview_def disk_dk dk_def dblock_def demo_st_def)
  moreover have "bio_ok 0 1 s'" "held 1 s' 5 b" "\<And>m. refs 1 s' m < 2 ^ 31" using v by (simp_all add: cview_def)
  ultimately show ?thesis using b bcache_stays_wf [of 0 1 s' 5 b] by blast
qed

end
