(* ===== verification/Log_Correct.thy ===== *)
theory Log_Correct
  imports Bio_Correct
begin

text \<open>
  The redo log makes transactions atomic: whatever prefix of the disk writes of a transaction reaches the
  disk, recovery leaves either all of the transaction's blocks or none.
\<close>

section \<open>The header block\<close>

lemma length_patch: "off + length bs \<le> length d \<Longrightarrow> length (patch off bs d) = length d"
  by (simp add: patch_def)

lemma get32_patch_same: "off + 4 \<le> length d \<Longrightarrow> get32 (patch off (to_bytes 4 (w :: u32)) d) off = w"
  by (simp add: get32_def patch_def of_bytes_to_bytes)

lemma get32_patch_other:
  assumes "off + 4 \<le> length d" and "o' + 4 \<le> off \<or> off + 4 \<le> o'"
  shows "get32 (patch off (to_bytes 4 (w :: u32)) d) o' = get32 d o'"
proof -
  have "take 4 (drop o' (patch off (to_bytes 4 w) d)) = take 4 (drop o' d)"
    using assms by (intro nth_equalityI) (auto simp: patch_def nth_append)
  then show ?thesis by (simp add: get32_def)
qed

definition hdr :: "u32 \<Rightarrow> (nat \<Rightarrow> u32) \<Rightarrow> u8 list \<Rightarrow> u8 list" where
  "hdr n bl d = fold (\<lambda>i. patch (4 + 4 * i) (to_bytes 4 (bl i))) [0..<nat (sint n)] (patch 0 (to_bytes 4 n) d)"

lemma fold_patch:
  fixes bl :: "nat \<Rightarrow> u32"
  assumes "4 + 4 * k \<le> length d"
  defines "e \<equiv> fold (\<lambda>i. patch (4 + 4 * i) (to_bytes 4 (bl i))) [0..<k] d"
  shows "length e = length d \<and> get32 e 0 = get32 d 0 \<and> (\<forall>i < k. get32 e (4 + 4 * i) = bl i)"
  unfolding e_def using assms(1)
proof (induction k)
  case (Suc k)
  let ?d = "fold (\<lambda>i. patch (4 + 4 * i) (to_bytes 4 (bl i))) [0..<k] d"
  have IH: "length ?d = length d" "get32 ?d 0 = get32 d 0" "\<forall>i < k. get32 ?d (4 + 4 * i) = bl i" using Suc.IH Suc.prems by simp_all
  have "get32 (patch (4 + 4 * k) (to_bytes 4 (bl k)) ?d) (4 + 4 * i) = bl i" if "i < Suc k" for i
    using IH get32_patch_other [of "4 + 4 * k" ?d "4 + 4 * i" "bl k"] get32_patch_same [of "4 + 4 * k" ?d "bl k"] Suc.prems that
    by (cases "i = k") auto
  then show ?case using IH get32_patch_other [of "4 + 4 * k" ?d 0 "bl k"] Suc.prems by (simp add: length_patch)
qed auto

lemma hdr_facts:
  assumes "length d = BSIZE" and "nat (sint n) \<le> LOGSIZE"
  shows "length (hdr n bl d) = BSIZE" "get32 (hdr n bl d) 0 = n" "i < nat (sint n) \<Longrightarrow> get32 (hdr n bl d) (4 + 4 * i) = bl i"
proof -
  have l: "length (patch 0 (to_bytes 4 n) d) = BSIZE" "4 + 4 * nat (sint n) \<le> BSIZE"
    using assms length_patch [of 0 "to_bytes 4 n" d] by (simp_all add: BSIZE_def LOGSIZE_def MAXOPBLOCKS_def)
  have "get32 (patch 0 (to_bytes 4 n) d) 0 = n" using assms(1) by (intro get32_patch_same) (simp add: BSIZE_def)
  then show "length (hdr n bl d) = BSIZE" "get32 (hdr n bl d) 0 = n" "i < nat (sint n) \<Longrightarrow> get32 (hdr n bl d) (4 + 4 * i) = bl i"
    using fold_patch [of "nat (sint n)" "patch 0 (to_bytes 4 n) d"] l by (simp_all add: hdr_def)
qed

section \<open>Lists of writes\<close>

definition wr_all :: "(u32 \<times> u8 list) list \<Rightarrow> blkdisk \<Rightarrow> blkdisk" where
  "wr_all ws D = fold (\<lambda>(n, d) D. dwr D n d) ws D"

definition upd_all :: "(u32 \<times> u8 list) list \<Rightarrow> (u32 \<Rightarrow> u8 list) \<Rightarrow> u32 \<Rightarrow> u8 list" where
  "upd_all ws f = fold (\<lambda>(n, d) f. f(n := d)) ws f"

lemma wr_all_simps [simp]: "wr_all [] D = D" "wr_all (us @ ws) D = wr_all ws (wr_all us D)" "wr_all ((n, d) # ws) D = wr_all ws (dwr D n d)"
  by (simp_all add: wr_all_def)

lemma upd_all_simps [simp]: "upd_all [] f = f" "upd_all (us @ ws) f = upd_all ws (upd_all us f)" "upd_all ((n, d) # ws) f = upd_all ws (f(n := d))"
  by (simp_all add: upd_all_def)

lemma dk_wr_all [simp]: "dk (wr_all ws D) = upd_all ws (dk D)"
  by (induction ws rule: rev_induct) (auto simp: split_beta)

lemma d_writes_wr_all: "d_writes (wr_all ws D) = d_writes D @ map (apfst unat) ws" "d_image (wr_all ws D) = d_image D"
  by (induction ws rule: rev_induct) (auto simp: split_beta dwr_def)

lemma upd_all_other: "n \<notin> fst ` set ws \<Longrightarrow> upd_all ws f n = f n"
  by (induction ws rule: rev_induct) (auto simp: split_beta)

lemma upd_all_map:
  assumes "\<And>i j. i < j \<Longrightarrow> j < k \<Longrightarrow> b i \<noteq> b j" and "i < k"
  shows "upd_all (map (\<lambda>i. (b i, g i)) [0..<k]) f (b i) = g i"
  using assms
proof (induction k)
  case (Suc k)
  then show ?case by (cases "i = k") (auto simp: less_Suc_eq)
qed simp

section \<open>The steps of the log\<close>

definition logb :: "u32 \<Rightarrow> nat \<Rightarrow> u32" where
  "logb st i = st + of_nat i + 1"

lemma log_more:
  assumes "biost.more s = biost.more (t :: 'a logst_scheme)"
  shows "lg_start s = lg_start t" "lg_size s = lg_size t" "lg_outstanding s = lg_outstanding t" "lg_committing s = lg_committing t"
    "lg_dev s = lg_dev t" "lh_n s = lh_n t" "lh_block s = lh_block t" "lh_count s = lh_count t"
  using assms by (cases s; cases t; simp add: lh_count_def)+

lemma cview_more: "cview p dev s C D R H X \<Longrightarrow> biost.more s = X"
  by (simp add: cview_def)

lemma cview_same:
  assumes v: "cview p dev s C D R H X" and f: "bufs t = bufs s" "slocks t = slocks s" "vq t = vq s" "b_next t = b_next s" "b_prev t = b_prev s"
    and pr: "same_procs (procs s) (procs t)" and r: "disk_ready p t"
  shows "cview p dev t C D R H (biost.more t)"
proof -
  have bd: "bdata t = bdata s" "disk t = disk s" using f by (simp_all add: bdata_def [abs_def] disk_def [abs_def])
  have bo: "bufof dev t = bufof dev s" using f by (intro bufof_cong) simp
  have "cached dev t = cached dev s" "refs dev t = refs dev s" "lockd dev t = lockd dev s" "held dev t = held dev s"
    unfolding cached_def [abs_def] refs_def [abs_def] lockd_def [abs_def] held_def [abs_def] bo bd f by simp_all
  moreover have "bio_ok p dev t"
    using v r f same_procs_pid [OF pr] bd by (simp add: cview_def bio_ok_def buf_ok_def unique_def)
  ultimately show ?thesis using v f by (simp add: cview_def)
qed

lemma cview_log_upds:
  assumes v: "cview p dev s C D R H X"
  shows "cview p dev (s\<lparr>lh_n := w\<rparr>) C D R H (biost.more (s\<lparr>lh_n := w\<rparr>))"
    and "cview p dev (s\<lparr>lh_block := bl\<rparr>) C D R H (biost.more (s\<lparr>lh_block := bl\<rparr>))"
    and "cview p dev (s\<lparr>lg_outstanding := w\<rparr>) C D R H (biost.more (s\<lparr>lg_outstanding := w\<rparr>))"
    and "cview p dev (s\<lparr>lg_committing := w\<rparr>) C D R H (biost.more (s\<lparr>lg_committing := w\<rparr>))"
proof -
  have r: "disk_ready p s" using v by (simp add: cview_def bio_ok_def)
  show "cview p dev (s\<lparr>lh_n := w\<rparr>) C D R H (biost.more (s\<lparr>lh_n := w\<rparr>))" 
    "cview p dev (s\<lparr>lh_block := bl\<rparr>) C D R H (biost.more (s\<lparr>lh_block := bl\<rparr>))"
    "cview p dev (s\<lparr>lg_outstanding := w\<rparr>) C D R H (biost.more (s\<lparr>lg_outstanding := w\<rparr>))"
    "cview p dev (s\<lparr>lg_committing := w\<rparr>) C D R H (biost.more (s\<lparr>lg_committing := w\<rparr>))"
    by ((rule cview_same [OF v]; use r in \<open>simp add: same_procs_intros disk_ready_def lockrun\<close>))+
qed

lemma write_log_one_run:
  assumes v: "cview p (lg_dev s) s C D R Map.empty (biost.more s)" and a: "a = logb (lg_start s) i" and b: "b = lh_block s i"
    and "a \<noteq> b" "R b \<noteq> 0" "card {m. R m \<noteq> 0} < NBUF" "unat a < 2 ^ 31" "unat b < 2 ^ 31" "\<And>n. R n < 2 ^ 31"
  shows "\<exists>s'. write_log_one i s = Inr ((), s') \<and> cview p (lg_dev s) s' (C(a := C b)) (dwr D a (C b)) R Map.empty (biost.more s)"
proof -
  let ?X = "biost.more s" and ?dev = "lg_dev s"
  obtain t s1 where 1: "bread ?dev a s = Inr (t, s1)" "cview p ?dev s1 C D (R(a := Suc (R a))) [a \<mapsto> t] ?X"
    using cview_bread [OF v, of a] assms by auto
  obtain f s2 where 2: "bread ?dev b s1 = Inr (f, s2)" "cview p ?dev s2 C D (R(a := Suc (R a), b := Suc (R b))) [a \<mapsto> t, b \<mapsto> f] ?X"
    using cview_bread [OF 1(2), of b] assms(4-9) by auto
  have 3: "cview p ?dev (set_bdata t (C b) s2) (C(a := C b)) D (R(a := Suc (R a), b := Suc (R b))) [a \<mapsto> t, b \<mapsto> f] ?X"
    using cview_set [OF 2(2), of a t "C b"] assms(4) by simp
  obtain s4 where 4: "bwrite t (set_bdata t (C b) s2) = Inr ((), s4)"
    "cview p ?dev s4 (C(a := C b)) (dwr D a (C b)) (R(a := Suc (R a), b := Suc (R b))) [a \<mapsto> t, b \<mapsto> f] ?X"
    using cview_bwrite [OF 3, of a t] assms(4) by auto
  obtain s5 where 5: "brelse f s4 = Inr ((), s5)"
    "cview p ?dev s5 (C(a := C b)) (dwr D a (C b)) (R(a := Suc (R a))) [a \<mapsto> t] ?X"
    using cview_brelse [OF 4(2), of b f] assms(4,5) by (auto simp: fun_upd_twist fun_upd_idem)
  obtain s6 where 6: "brelse t s5 = Inr ((), s6)" "cview p ?dev s6 (C(a := C b)) (dwr D a (C b)) R Map.empty ?X"
    using cview_brelse [OF 5(2), of a t] by auto
  have "write_log_one i s = Inr ((), s6)"
    using 1(1) 2(1) 4(1) 5(1) 6(1) a b cview_get [OF 2(2), of b f] log_more [OF cview_more [OF 1(2)]]
    by (simp add: write_log_one_def logb_def)
  then show ?thesis using 6(2) by blast
qed

lemma install_one_run:
  assumes v: "cview p (lg_dev s) s C D R Map.empty (biost.more s)" and a: "a = logb (lg_start s) i" and b: "b = lh_block s i"
    and "a \<noteq> b" and room: "R b \<noteq> 0 \<and> card {m. R m \<noteq> 0} < NBUF \<or> rec \<and> Suc (card {m. R m \<noteq> 0}) < NBUF"
    and lim: "unat a < 2 ^ 31" "unat b < 2 ^ 31" "\<And>n. R n < 2 ^ 31"
  shows "\<exists>s'. install_one rec i s = Inr ((), s') \<and>
    cview p (lg_dev s) s' (C(b := C a)) (dwr D b (C a)) (if rec then R else R(b := R b - 1)) Map.empty (biost.more s)"
proof -
  let ?X = "biost.more s" and ?dev = "lg_dev s"
  let ?R = "if rec then R else R(b := R b - 1)" let ?D = "dwr D b (C a)" and ?C = "C(b := C a)"
  obtain l s1 where 1: "bread ?dev a s = Inr (l, s1)" "cview p ?dev s1 C D (R(a := Suc (R a))) [a \<mapsto> l] ?X"
    using cview_bread [OF v, of a] room lim by fastforce
  have "{m. (R(a := Suc (R a))) m \<noteq> 0} = insert a {m. R m \<noteq> 0}" by auto
  then have "card {m. (R(a := Suc (R a))) m \<noteq> 0} \<le> Suc (card {m. R m \<noteq> 0})" by (simp add: card_insert_le_m1 card_insert_if)
  then obtain d s2 where 2: "bread ?dev b s1 = Inr (d, s2)" "cview p ?dev s2 C D (R(a := Suc (R a), b := Suc (R b))) [a \<mapsto> l, b \<mapsto> d] ?X"
    using cview_bread [OF 1(2), of b] \<open>a \<noteq> b\<close> room lim by fastforce
  have 3: "cview p ?dev (set_bdata d (C a) s2) ?C D (R(a := Suc (R a), b := Suc (R b))) [a \<mapsto> l, b \<mapsto> d] ?X"
    using cview_set [OF 2(2), of b d "C a"] by simp
  obtain s4 where 4: "bwrite d (set_bdata d (C a) s2) = Inr ((), s4)"
    "cview p ?dev s4 ?C ?D (R(a := Suc (R a), b := Suc (R b))) [a \<mapsto> l, b \<mapsto> d] ?X"
    using cview_bwrite [OF 3, of b d] by auto
  obtain s5 where 5: "(if \<not> rec then bunpin d else (\<lambda>s. Inr ((), s))) s4 = Inr ((), s5)"
    "cview p ?dev s5 ?C ?D (?R(a := Suc (R a), b := Suc (?R b))) [a \<mapsto> l, b \<mapsto> d] ?X"
  proof (cases rec)
    case False
    then show ?thesis using that cview_bunpin [OF 4(2), of b d] room \<open>a \<noteq> b\<close> by (auto simp: fun_upd_twist)
  qed (use that 4(2) in simp)
  have cl: "R a = 0 \<longrightarrow> C a = dk D a" using cview_clean [OF v] by blast
  obtain s6 where 6: "brelse l s5 = Inr ((), s6)" "cview p ?dev s6 ?C ?D (?R(b := Suc (?R b))) [b \<mapsto> d] ?X"
    using cview_brelse [OF 5(2), of a l] cl \<open>a \<noteq> b\<close> by (auto simp: fun_upd_twist fun_upd_idem)
  obtain s7 where 7: "brelse d s6 = Inr ((), s7)" "cview p ?dev s7 ?C ?D ?R Map.empty ?X"
    using cview_brelse [OF 6(2), of b d] by (auto simp: fun_upd_idem)
  have "install_one rec i s = Inr ((), s7)"
    using 1(1) 2(1) 4(1) 5(1) 6(1) 7(1) a b cview_get [OF 2(2), of a l] log_more [OF cview_more [OF 1(2)]] \<open>a \<noteq> b\<close>
    by (simp add: install_one_def logb_def)
  then show ?thesis using 7(2) by blast
qed

lemma write_head_run:
  assumes v: "cview p (lg_dev s) s C D R Map.empty (biost.more s)" and "card {m. R m \<noteq> 0} < NBUF" "unat (lg_start s) < 2 ^ 31" "\<And>n. R n < 2 ^ 31"
  defines "h \<equiv> hdr (lh_n s) (lh_block s) (C (lg_start s))"
  shows "\<exists>s'. write_head s = Inr ((), s') \<and> cview p (lg_dev s) s' (C(lg_start s := h)) (dwr D (lg_start s) h) R Map.empty (biost.more s)"
proof -
  let ?X = "biost.more s" and ?dev = "lg_dev s" and ?st = "lg_start s"
  obtain b s1 where 1: "bread ?dev ?st s = Inr (b, s1)" "cview p ?dev s1 C D (R(?st := Suc (R ?st))) [?st \<mapsto> b] ?X"
    using cview_bread [OF v, of ?st] assms(2-4) by auto
  let ?s2 = "set_bdata b (patch 0 (to_bytes 4 (lh_n s)) (C ?st)) s1"
  have 2: "cview p ?dev ?s2 (C(?st := patch 0 (to_bytes 4 (lh_n s)) (C ?st))) D (R(?st := Suc (R ?st))) [?st \<mapsto> b] ?X"
    using cview_set [OF 1(2), of ?st b] by simp
  have 3: "cview p ?dev (set_bdata b h ?s2) (C(?st := h)) D (R(?st := Suc (R ?st))) [?st \<mapsto> b] ?X"
    using cview_set [OF 2, of ?st b h] by simp
  obtain s4 where 4: "bwrite b (set_bdata b h ?s2) = Inr ((), s4)" "cview p ?dev s4 (C(?st := h)) (dwr D ?st h) (R(?st := Suc (R ?st))) [?st \<mapsto> b] ?X"
    using cview_bwrite [OF 3, of ?st b] by auto
  obtain s5 where 5: "brelse b s4 = Inr ((), s5)" "cview p ?dev s5 (C(?st := h)) (dwr D ?st h) R Map.empty ?X"
    using cview_brelse [OF 4(2), of ?st b] by auto
  have "write_head s = Inr ((), s5)"
    using 1(1) 4(1) 5(1) cview_get [OF 1(2), of ?st b] cview_get [OF 2, of ?st b] log_more [OF cview_more [OF 1(2)]] log_more [OF cview_more [OF 2]]
    by (simp add: write_head_def h_def hdr_def lh_count_def Let_def)
  then show ?thesis using 5(2) by blast
qed

text \<open>A log that starts at \<open>st\<close> and holds \<open>N\<close> blocks with the home locations \<open>bl\<close>.\<close>

definition log_area :: "u32 \<Rightarrow> u32 set" where
  "log_area st = insert st (logb st ` {..<LOGSIZE})"

lemma in_log_area: "st \<in> log_area st" "i < LOGSIZE \<Longrightarrow> logb st i \<in> log_area st"
  by (simp_all add: log_area_def)

definition log_fits :: "u32 \<Rightarrow> nat \<Rightarrow> (nat \<Rightarrow> u32) \<Rightarrow> bool" where
  "log_fits st N bl \<longleftrightarrow> N \<le> LOGSIZE \<and> unat st + LOGSIZE + 1 < 2 ^ 31 \<and> (\<forall>i < N. unat (bl i) < 2 ^ 31 \<and> bl i \<notin> log_area st)"

lemma unat_logb: "unat st + LOGSIZE + 1 < 2 ^ 31 \<Longrightarrow> i < LOGSIZE \<Longrightarrow> unat (logb st i) = unat st + i + 1"
  unfolding logb_def LOGSIZE_def MAXOPBLOCKS_def by (simp add: unat_word_ariths unsigned_of_nat take_bit_nat_eq_self)

lemma logb_inj:
  assumes "unat st + LOGSIZE + 1 < 2 ^ 31" and "i < LOGSIZE"
  shows "logb st i \<noteq> st" and "j < LOGSIZE \<Longrightarrow> logb st i = logb st j \<longleftrightarrow> i = j" and "unat (logb st i) < 2 ^ 31"
proof -
  have u: "unat (logb st k) = unat st + k + 1" if "k < LOGSIZE" for k using unat_logb [OF assms(1) that] .
  show "logb st i \<noteq> st"
  proof
    assume "logb st i = st"
    from arg_cong [OF this, of unat] show False unfolding u [OF assms(2)] by linarith
  qed
  show "unat (logb st i) < 2 ^ 31" using u [OF assms(2)] assms by linarith
  show "logb st i = logb st j \<longleftrightarrow> i = j" if "j < LOGSIZE"
  proof
    assume "logb st i = logb st j"
    from arg_cong [OF this, of unat] show "i = j" unfolding u [OF assms(2)] u [OF that] by linarith
  qed simp
qed

definition logged :: "u32 \<Rightarrow> nat \<Rightarrow> (nat \<Rightarrow> u32) \<Rightarrow> (u32 \<Rightarrow> u8 list) \<Rightarrow> (u32 \<times> u8 list) list" where
  "logged st N bl C = map (\<lambda>i. (logb st i, C (bl i))) [0..<N]"

definition installed :: "u32 \<Rightarrow> nat \<Rightarrow> (nat \<Rightarrow> u32) \<Rightarrow> (u32 \<Rightarrow> u8 list) \<Rightarrow> (u32 \<times> u8 list) list" where
  "installed st N bl C = map (\<lambda>i. (bl i, C (logb st i))) [0..<N]"

lemma write_log_run:
  assumes v: "cview p (lg_dev s) s C D R Map.empty (biost.more s)" and fits: "log_fits (lg_start s) (lh_count s) (lh_block s)"
    and r: "\<And>i. i < lh_count s \<Longrightarrow> R (lh_block s i) \<noteq> 0" "card {m. R m \<noteq> 0} < NBUF" "\<And>n. R n < 2 ^ 31"
  defines "ws \<equiv> logged (lg_start s) (lh_count s) (lh_block s) C"
  shows "\<exists>s'. write_log s = Inr ((), s') \<and> cview p (lg_dev s) s' (upd_all ws C) (wr_all ws D) R Map.empty (biost.more s)"
proof -
  let ?st = "lg_start s" and ?bl = "lh_block s" and ?N = "lh_count s"
  define W where "W k = logged ?st k ?bl C" for k
  have "\<exists>s'. forR write_log_one [0..<?N] s = Inr ((), s') \<and>
    cview p (lg_dev s) s' (upd_all (W (length [0..<?N])) C) (wr_all (W (length [0..<?N])) D) R Map.empty (biost.more s)"
  proof (rule forR_invariant)
    show "cview p (lg_dev s) s (upd_all (W 0) C) (wr_all (W 0) D) R Map.empty (biost.more s)" using v by (simp add: W_def logged_def)
    fix k t assume k: "k < length [0..<?N]" and t: "cview p (lg_dev s) t (upd_all (W k) C) (wr_all (W k) D) R Map.empty (biost.more s)"
    note m = log_more [OF cview_more [OF t]]
    have kl: "k < LOGSIZE" "?bl k \<notin> log_area ?st" "unat (?bl k) < 2 ^ 31" "unat ?st + LOGSIZE + 1 < 2 ^ 31" using fits k by (auto simp: log_fits_def)
    then have ab: "logb ?st k \<noteq> ?bl k" using in_log_area(2) by metis
    have "?bl k \<notin> fst ` set (W k)" using kl in_log_area(2) [of _ ?st] by (auto simp: W_def logged_def)
    then have "upd_all (W k) C (?bl k) = C (?bl k)" by (rule upd_all_other)
    moreover have "cview p (lg_dev t) t (upd_all (W k) C) (wr_all (W k) D) R Map.empty (biost.more t)" using t m cview_more [OF t] by simp
    note write_log_one_run [OF this refl refl, of k]
    ultimately have "\<exists>s'. write_log_one k t = Inr ((), s') \<and> cview p (lg_dev s) s'
        ((upd_all (W k) C)(logb ?st k := C (?bl k))) (dwr (wr_all (W k) D) (logb ?st k) (C (?bl k))) R Map.empty (biost.more s)"
      using m cview_more [OF t] ab r k kl logb_inj(3) [of ?st k] by simp
    then show "\<exists>s'. write_log_one ([0..<?N] ! k) t = Inr ((), s') \<and> cview p (lg_dev s) s' (upd_all (W (Suc k)) C) (wr_all (W (Suc k)) D) R Map.empty (biost.more s)"
      using k by (simp add: W_def logged_def)
  qed
  then show ?thesis by (simp add: write_log_def ws_def W_def)
qed

definition unpinned :: "bool \<Rightarrow> nat \<Rightarrow> (nat \<Rightarrow> u32) \<Rightarrow> (u32 \<Rightarrow> nat) \<Rightarrow> u32 \<Rightarrow> nat" where
  "unpinned rec N bl R n = (if \<not> rec \<and> n \<in> bl ` {..<N} then R n - 1 else R n)"

lemma unpinned_Suc:
  assumes "bl k \<notin> bl ` {..<k}"
  shows "unpinned False k bl R (bl k) = R (bl k)" "(unpinned False k bl R)(bl k := R (bl k) - 1) = unpinned False (Suc k) bl R"
  using assms by (auto simp: unpinned_def fun_eq_iff lessThan_Suc)

lemma unpinned_le: "R n < B \<Longrightarrow> unpinned rec k bl R n < B"
  by (auto simp: unpinned_def)

lemma unpinned_card:
  assumes "card {m. R m \<noteq> 0} < B"
  shows "card {m. unpinned rec k bl R m \<noteq> 0} < B"
proof -
  have "card {m. unpinned rec k bl R m \<noteq> 0} \<le> card {m. R m \<noteq> 0}" by (rule card_mono) (auto simp: unpinned_def)
  then show ?thesis using assms by simp
qed

lemma install_trans_run:
  assumes v: "cview p (lg_dev s) s C D R Map.empty (biost.more s)" and fits: "log_fits (lg_start s) (lh_count s) (lh_block s)"
    and r: "\<And>n. R n < 2 ^ 31" "rec \<or> inj_on (lh_block s) {..<lh_count s} \<and> (\<forall>i < lh_count s. R (lh_block s i) \<noteq> 0) \<and> card {m. R m \<noteq> 0} < NBUF"
      "rec \<longrightarrow> Suc (card {m. R m \<noteq> 0}) < NBUF"
  defines "ws \<equiv> installed (lg_start s) (lh_count s) (lh_block s) C"
  shows "\<exists>s'. install_trans rec s = Inr ((), s') \<and>
    cview p (lg_dev s) s' (upd_all ws C) (wr_all ws D) (unpinned rec (lh_count s) (lh_block s) R) Map.empty (biost.more s)"
proof -
  let ?st = "lg_start s" and ?bl = "lh_block s" and ?N = "lh_count s"
  define W where "W k = installed ?st k ?bl C" for k
  let ?V = "\<lambda>k t. cview p (lg_dev s) t (upd_all (W k) C) (wr_all (W k) D) (unpinned rec k ?bl R) Map.empty (biost.more s)"
  have "\<exists>s'. forR (install_one rec) [0..<?N] s = Inr ((), s') \<and> ?V (length [0..<?N]) s'"
  proof (rule forR_invariant)
    have "unpinned rec 0 ?bl R = R" by (simp add: unpinned_def fun_eq_iff)
    then show "?V 0 s" using v by (simp add: W_def installed_def)
    fix k t assume k: "k < length [0..<?N]" and t: "?V k t"
    note m = log_more [OF cview_more [OF t]]
    have kl: "k < LOGSIZE" "?bl k \<notin> log_area ?st" "unat (?bl k) < 2 ^ 31" "unat ?st + LOGSIZE + 1 < 2 ^ 31" using fits k by (auto simp: log_fits_def)
    then have ab: "logb ?st k \<noteq> ?bl k" using in_log_area(2) by metis
    have nk: "\<not> rec \<Longrightarrow> ?bl k \<notin> ?bl ` {..<k}" using r(2) k by (fastforce simp: inj_on_def)
    have "logb ?st k \<notin> fst ` set (W k)"
      using fits k kl(1) in_log_area(2) [of k ?st] by (auto simp: W_def installed_def log_fits_def)
    then have c: "upd_all (W k) C (logb ?st k) = C (logb ?st k)" by (rule upd_all_other)
    have u: "cview p (lg_dev t) t (upd_all (W k) C) (wr_all (W k) D) (unpinned rec k ?bl R) Map.empty (biost.more t)" using t m cview_more [OF t] by simp
    have room: "unpinned rec k ?bl R (?bl k) \<noteq> 0 \<and> card {m. unpinned rec k ?bl R m \<noteq> 0} < NBUF \<or> rec \<and> Suc (card {m. unpinned rec k ?bl R m \<noteq> 0}) < NBUF"
      using r(2,3) k unpinned_card [of R NBUF False k ?bl] unpinned_Suc(1) [OF nk] by (cases rec) (auto simp: unpinned_def)
    have lim: "unpinned rec k ?bl R n < 2 ^ 31" for n using r(1) by (rule unpinned_le)
    have "\<exists>s'. install_one rec k t = Inr ((), s') \<and> cview p (lg_dev s) s' ((upd_all (W k) C)(?bl k := C (logb ?st k)))
        (dwr (wr_all (W k) D) (?bl k) (C (logb ?st k))) (if rec then unpinned rec k ?bl R else (unpinned rec k ?bl R)(?bl k := unpinned rec k ?bl R (?bl k) - 1)) Map.empty (biost.more s)"
      by (rule install_one_run [OF u refl refl, of k rec, unfolded m cview_more [OF t] c, OF ab room logb_inj(3) [OF kl(4,1)] kl(3) lim])
    moreover have "(if rec then unpinned rec k ?bl R else (unpinned rec k ?bl R)(?bl k := unpinned rec k ?bl R (?bl k) - 1)) = unpinned rec (Suc k) ?bl R"
      using unpinned_Suc [OF nk] by (cases rec) (auto simp: unpinned_def fun_eq_iff)
    ultimately show "\<exists>s'. install_one rec ([0..<?N] ! k) t = Inr ((), s') \<and> ?V (Suc k) s'"
      using k by (simp add: W_def installed_def)
  qed
  then show ?thesis by (simp add: install_trans_def ws_def W_def)
qed

text \<open>The writes of a commit, in order.\<close>

definition commit_writes :: "u32 \<Rightarrow> u32 \<Rightarrow> (nat \<Rightarrow> u32) \<Rightarrow> (u32 \<Rightarrow> u8 list) \<Rightarrow> (u32 \<times> u8 list) list" where
  "commit_writes st n bl C = (let N = nat (sint n); h = hdr n bl (C st) in
     logged st N bl C @ [(st, h)] @ map (\<lambda>i. (bl i, C (bl i))) [0..<N] @ [(st, hdr 0 bl h)])"

lemma upd_logged:
  assumes "log_fits st N bl"
  shows "i < N \<Longrightarrow> upd_all (logged st N bl C) f (logb st i) = C (bl i)"
    and "n \<notin> log_area st \<or> n = st \<Longrightarrow> upd_all (logged st N bl C) f n = f n"
proof -
  have l: "unat st + LOGSIZE + 1 < 2 ^ 31" "N \<le> LOGSIZE" using assms by (auto simp: log_fits_def)
  have "logb st i \<noteq> logb st j" if "i < j" "j < N" for i j using logb_inj(2) [OF l(1), of i j] that l(2) by simp
  then show "i < N \<Longrightarrow> upd_all (logged st N bl C) f (logb st i) = C (bl i)"
    unfolding logged_def by (rule upd_all_map)
  have "n \<notin> fst ` set (logged st N bl C)" if "n \<notin> log_area st \<or> n = st"
    using that in_log_area(2) [of _ st] logb_inj(1) [OF l(1)] l(2) by (auto simp: logged_def)
  then show "n \<notin> log_area st \<or> n = st \<Longrightarrow> upd_all (logged st N bl C) f n = f n" by (blast intro: upd_all_other)
qed

lemma commit_run:
  assumes v: "cview p (lg_dev s) s C D R Map.empty (biost.more s)" and fits: "log_fits (lg_start s) (lh_count s) (lh_block s)"
    and inj: "inj_on (lh_block s) {..<lh_count s}"
    and r: "\<And>i. i < lh_count s \<Longrightarrow> R (lh_block s i) \<noteq> 0" "card {m. R m \<noteq> 0} < NBUF" "\<And>n. R n < 2 ^ 31" and pos: "0 < lh_count s"
  defines "ws \<equiv> commit_writes (lg_start s) (lh_n s) (lh_block s) C"
  shows "\<exists>s'. commit s = Inr ((), s') \<and>
    cview p (lg_dev s) s' (upd_all ws C) (wr_all ws D) (unpinned False (lh_count s) (lh_block s) R) Map.empty (biost.more (s\<lparr>lh_n := 0\<rparr>))"
proof -
  let ?st = "lg_start s" and ?bl = "lh_block s" and ?N = "lh_count s" and ?dev = "lg_dev s" and ?X = "biost.more s"
  define W1 C1 where "W1 = logged ?st ?N ?bl C" and "C1 = upd_all W1 C"
  have st: "unat ?st < 2 ^ 31" using fits by (simp add: log_fits_def)
  obtain s1 where 1: "write_log s = Inr ((), s1)" "cview p ?dev s1 C1 (wr_all W1 D) R Map.empty ?X"
    using write_log_run [OF v fits r] by (auto simp: C1_def W1_def)
  note m1 = log_more [OF cview_more [OF 1(2)]]
  let ?h = "hdr (lh_n s) ?bl (C1 ?st)" let ?C2 = "C1(?st := ?h)" and ?D2 = "dwr (wr_all W1 D) ?st ?h"
  have "cview p (lg_dev s1) s1 C1 (wr_all W1 D) R Map.empty (biost.more s1)" using 1(2) m1 cview_more [OF 1(2)] by simp
  from write_head_run [OF this] obtain s2 where 2: "write_head s1 = Inr ((), s2)" "cview p ?dev s2 ?C2 ?D2 R Map.empty ?X"
    using r st m1 cview_more [OF 1(2)] by auto
  note m2 = log_more [OF cview_more [OF 2(2)]]
  define W3 where "W3 = installed ?st ?N ?bl ?C2"
  let ?C3 = "upd_all W3 ?C2" and ?D3 = "wr_all W3 ?D2" and ?R = "unpinned False ?N ?bl R"
  have "cview p (lg_dev s2) s2 ?C2 ?D2 R Map.empty (biost.more s2)" using 2(2) m2 cview_more [OF 2(2)] by simp
  from install_trans_run [OF this, of False] obtain s3 where 3: "install_trans False s2 = Inr ((), s3)" "cview p ?dev s3 ?C3 ?D3 ?R Map.empty ?X"
    using fits inj r m2 cview_more [OF 2(2)] by (auto simp: W3_def)
  note m3 = log_more [OF cview_more [OF 3(2)]]
  let ?s3 = "s3\<lparr>lh_n := 0\<rparr>"
  have X: "biost.more ?s3 = biost.more (s\<lparr>lh_n := 0\<rparr>)" using cview_more [OF 3(2)] by (cases s3; cases s) simp
  have "cview p (lg_dev ?s3) ?s3 ?C3 ?D3 ?R Map.empty (biost.more ?s3)" using cview_log_upds(1) [OF 3(2)] m3 by simp
  from write_head_run [OF this] obtain s4 where 4: "write_head ?s3 = Inr ((), s4)"
    "cview p ?dev s4 (?C3(?st := hdr 0 ?bl (?C3 ?st))) (dwr ?D3 ?st (hdr 0 ?bl (?C3 ?st))) ?R Map.empty (biost.more ?s3)"
    using unpinned_card [OF r(2)] unpinned_le [OF r(3)] st m3 by auto
  have c1: "C1 ?st = C ?st" "\<And>i. i < ?N \<Longrightarrow> C1 (logb ?st i) = C (?bl i)" using upd_logged [OF fits] by (simp_all add: C1_def W1_def)
  have ne: "logb ?st i \<noteq> ?st" if "i < ?N" for i using that fits logb_inj(1) [of ?st i] by (auto simp: log_fits_def)
  have W3: "W3 = map (\<lambda>i. (?bl i, C (?bl i))) [0..<?N]" using c1(2) ne by (simp add: W3_def installed_def)
  have "?st \<notin> fst ` set W3" using fits in_log_area(1) [of ?st] by (auto simp: W3 log_fits_def)
  then have "?C3 ?st = ?h" using upd_all_other [of ?st W3 ?C2] by simp
  then have ws: "ws = W1 @ [(?st, ?h)] @ W3 @ [(?st, hdr 0 ?bl (?C3 ?st))]"
    using c1(1) W3 by (simp add: ws_def commit_writes_def W1_def lh_count_def Let_def)
  have "commit s = Inr ((), s4)"
    using 1(1) 2(1) 3(1) 4(1) pos by (simp add: commit_def lh_count_def word_sless_alt)
  then show ?thesis using 4(2) X ws by (auto simp: C1_def)
qed

section \<open>Recovery\<close>

text \<open>The header as recovery reads it, and what recovery leaves of a disk \<open>f\<close>.\<close>

definition rec_n :: "u32 \<Rightarrow> (u32 \<Rightarrow> u8 list) \<Rightarrow> nat" where
  "rec_n st f = nat (sint (get32 (f st) 0))"

definition rec_bl :: "u32 \<Rightarrow> (u32 \<Rightarrow> u8 list) \<Rightarrow> nat \<Rightarrow> u32" where
  "rec_bl st f i = get32 (f st) (4 + 4 * i)"

definition rec_writes :: "u32 \<Rightarrow> (u32 \<Rightarrow> u8 list) \<Rightarrow> (u32 \<times> u8 list) list" where
  "rec_writes st f = installed st (rec_n st f) (rec_bl st f) f @ [(st, patch 0 (to_bytes 4 (0 :: u32)) (f st))]"

text \<open>What stays of the log record.\<close>

definition lg_conf :: "'a logst_scheme \<Rightarrow> u32 \<times> u32 \<times> u32 \<times> u32 \<times> u32" where
  "lg_conf s = (lg_dev s, lg_start s, lg_size s, lg_outstanding s, lg_committing s)"

lemma read_head_run:
  assumes v: "cview p (lg_dev s) s C D R Map.empty (biost.more s)" and "card {m. R m \<noteq> 0} < NBUF" "unat (lg_start s) < 2 ^ 31" "\<And>n. R n < 2 ^ 31"
    and "rec_n (lg_start s) C \<le> LOGSIZE"
  shows "\<exists>s'. read_head s = Inr ((), s') \<and> cview p (lg_dev s) s' C D R Map.empty (biost.more s') \<and> lg_conf s' = lg_conf s \<and>
    lh_count s' = rec_n (lg_start s) C \<and> (\<forall>i < lh_count s'. lh_block s' i = rec_bl (lg_start s) C i)"
proof -
  let ?X = "biost.more s" and ?dev = "lg_dev s" and ?st = "lg_start s"
  obtain b s1 where 1: "bread ?dev ?st s = Inr (b, s1)" "cview p ?dev s1 C D (R(?st := Suc (R ?st))) [?st \<mapsto> b] ?X"
    using cview_bread [OF v, of ?st] assms(2-4) by auto
  let ?s2 = "s1\<lparr>lh_n := get32 (C ?st) 0\<rparr>"
  let ?s3 = "?s2\<lparr>lh_block := (\<lambda>i. if i < lh_count ?s2 then get32 (C ?st) (4 + 4 * i) else lh_block s i)\<rparr>"
  have "cview p ?dev ?s3 C D (R(?st := Suc (R ?st))) [?st \<mapsto> b] (biost.more ?s3)"
    by (rule cview_log_upds(2) [OF cview_log_upds(1) [OF 1(2)]])
  then obtain s4 where 4: "brelse b ?s3 = Inr ((), s4)" "cview p ?dev s4 C D R Map.empty (biost.more ?s3)"
    using cview_brelse [of p ?dev ?s3 C D "R(?st := Suc (R ?st))" "[?st \<mapsto> b]" _ ?st b] cview_clean [OF v, of ?st] by auto
  note m = log_more [OF cview_more [OF 1(2)]] log_more [OF cview_more [OF 4(2)]]
  have n: "lh_count ?s2 = rec_n ?st C" by (simp add: lh_count_def rec_n_def)
  have "read_head s = Inr ((), s4)"
    using 1(1) 4(1) assms(5) cview_get [OF 1(2), of ?st b] m n by (simp add: read_head_def Let_def cong: if_cong)
  then show ?thesis using 4(2) m n cview_more [OF 4(2)] by (auto simp: rec_bl_def lh_count_def lg_conf_def)
qed

lemma installed_cong: "(\<And>i. i < N \<Longrightarrow> bl i = bl' i) \<Longrightarrow> installed st N bl C = installed st N bl' C"
  by (simp add: installed_def)

lemma recover_run:
  assumes v: "cview p (lg_dev s) s C D (\<lambda>_. 0) Map.empty (biost.more s)"
    and fits: "log_fits (lg_start s) (rec_n (lg_start s) C) (rec_bl (lg_start s) C)"
  shows "\<exists>s'. recover_from_log s = Inr ((), s') \<and> lh_n s' = 0 \<and> lg_conf s' = lg_conf s \<and>
    cview p (lg_dev s) s' (upd_all (rec_writes (lg_start s) C) C) (wr_all (rec_writes (lg_start s) C) D) (\<lambda>_. 0) Map.empty (biost.more s')"
proof -
  let ?dev = "lg_dev s" and ?st = "lg_start s" let ?bl = "rec_bl ?st C" and ?N = "rec_n ?st C"
  have l: "unat ?st < 2 ^ 31" "?N \<le> LOGSIZE" "Suc 0 < NBUF" using fits by (auto simp: log_fits_def NBUF_def MAXOPBLOCKS_def)
  obtain s1 where 1: "read_head s = Inr ((), s1)" "cview p ?dev s1 C D (\<lambda>_. 0) Map.empty (biost.more s1)"
    "lg_dev s1 = ?dev" "lg_start s1 = ?st" "lh_count s1 = ?N" "\<forall>i < ?N. lh_block s1 i = ?bl i" "lg_conf s1 = lg_conf s"
    using read_head_run [OF v] l by (auto simp: lg_conf_def)
  define W where "W = installed ?st ?N ?bl C"
  have W: "W = installed ?st ?N (lh_block s1) C" unfolding W_def using 1(6) by (intro installed_cong) simp
  have f1: "log_fits ?st ?N (lh_block s1)" using fits 1(6) by (simp add: log_fits_def)
  have u: "unpinned True ?N (lh_block s1) (\<lambda>_. 0) = (\<lambda>_. 0)" by (simp add: unpinned_def fun_eq_iff)
  obtain s2 where 2: "install_trans True s1 = Inr ((), s2)" "cview p ?dev s2 (upd_all W C) (wr_all W D) (\<lambda>_. 0) Map.empty (biost.more s1)"
    using install_trans_run [of p s1 C D "\<lambda>_. 0" True] 1(2-5) f1 l u W by auto
  note m = log_more [OF cview_more [OF 2(2)]]
  let ?s3 = "s2\<lparr>lh_n := 0\<rparr>"
  have "cview p (lg_dev ?s3) ?s3 (upd_all W C) (wr_all W D) (\<lambda>_. 0) Map.empty (biost.more ?s3)"
    using cview_log_upds(1) [OF 2(2)] m 1(3) by simp
  from write_head_run [OF this] obtain s4 where 4: "write_head ?s3 = Inr ((), s4)"
    "cview p ?dev s4 ((upd_all W C)(?st := hdr 0 (lh_block s2) (upd_all W C ?st))) (dwr (wr_all W D) ?st (hdr 0 (lh_block s2) (upd_all W C ?st))) (\<lambda>_. 0) Map.empty (biost.more ?s3)"
    using l m 1(3,4) by auto
  have "?st \<notin> fst ` set W" using fits in_log_area(1) [of ?st] by (auto simp: W_def installed_def log_fits_def)
  then have "hdr 0 (lh_block s2) (upd_all W C ?st) = patch 0 (to_bytes 4 (0 :: u32)) (C ?st)" by (simp add: upd_all_other hdr_def)
  then have "rec_writes ?st C = W @ [(?st, hdr 0 (lh_block s2) (upd_all W C ?st))]" by (simp add: rec_writes_def W_def)
  moreover have "recover_from_log s = Inr ((), s4)" using 1(1) 2(1) 4(1) by (simp add: recover_from_log_def Let_def)
  moreover have "lh_n s4 = 0" "biost.more s4 = biost.more ?s3" "lg_conf s4 = lg_conf s"
    using log_more [OF cview_more [OF 4(2)]] cview_more [OF 4(2)] m 1(7) by (simp_all add: lg_conf_def)
  ultimately show ?thesis using 4(2) by auto
qed

section \<open>Crashes\<close>

lemma upd_all_home: "upd_all (map (\<lambda>i. (bl i, C (bl i))) [0..<j]) f m = (if m \<in> bl ` {..<j} then C m else f m)"
  by (induction j) (auto simp: lessThan_Suc)

lemma take_logged: "k \<le> N \<Longrightarrow> take k (logged st N bl C) = logged st k bl C"
  by (simp add: logged_def take_map)

lemma rec_empty:
  assumes "get32 (g st) 0 = 0" and "unat st + LOGSIZE + 1 < 2 ^ 31"
  shows "log_fits st (rec_n st g) (rec_bl st g)" "m \<noteq> st \<Longrightarrow> upd_all (rec_writes st g) g m = g m"
  using assms by (simp_all add: rec_n_def rec_writes_def log_fits_def installed_def)

lemma rec_full:
  assumes fits: "log_fits st N bl" and h: "get32 (g st) 0 = n" "N = nat (sint n)" "\<And>i. i < N \<Longrightarrow> get32 (g st) (4 + 4 * i) = bl i"
    and lg: "\<And>i. i < N \<Longrightarrow> g (logb st i) = C (bl i)"
  shows "log_fits st (rec_n st g) (rec_bl st g)" "m \<noteq> st \<Longrightarrow> upd_all (rec_writes st g) g m = (if m \<in> bl ` {..<N} then C m else g m)"
proof -
  have r: "rec_n st g = N" "\<And>i. i < N \<Longrightarrow> rec_bl st g i = bl i" using h by (simp_all add: rec_n_def rec_bl_def)
  then show "log_fits st (rec_n st g) (rec_bl st g)" using fits by (simp add: log_fits_def)
  have "installed st N (rec_bl st g) g = map (\<lambda>i. (bl i, C (bl i))) [0..<N]" using r(2) lg by (simp add: installed_def)
  then show "m \<noteq> st \<Longrightarrow> upd_all (rec_writes st g) g m = (if m \<in> bl ` {..<N} then C m else g m)"
    by (simp add: rec_writes_def r(1) upd_all_home)
qed

text \<open>After any prefix of the writes of a commit, recovery is all or nothing.\<close>

lemma crash_recovers:
  fixes n :: u32 and k :: nat
  assumes fits: "log_fits st N bl" and N: "N = nat (sint n)" and f: "length (f st) = BSIZE" "get32 (f st) 0 = 0" "C st = f st"
  defines "g \<equiv> upd_all (take k (commit_writes st n bl C)) f"
  shows "log_fits st (rec_n st g) (rec_bl st g)"
    and "m \<notin> log_area st \<Longrightarrow> upd_all (rec_writes st g) g m = (if N < k \<and> m \<in> bl ` {..<N} then C m else f m)"
proof -
  let ?L = "logged st N bl C" and ?h = "hdr n bl (C st)" and ?M = "map (\<lambda>i. (bl i, C (bl i))) [0..<N]"
  have l: "unat st + LOGSIZE + 1 < 2 ^ 31" "N \<le> LOGSIZE" "length ?L = N" using fits by (auto simp: log_fits_def logged_def)
  have ws: "commit_writes st n bl C = ?L @ [(st, ?h)] @ ?M @ [(st, hdr 0 bl ?h)]" by (simp add: commit_writes_def N Let_def)
  have h: "length ?h = BSIZE" "get32 ?h 0 = n" "\<And>i. i < N \<Longrightarrow> get32 ?h (4 + 4 * i) = bl i"
    using hdr_facts [of "C st" n] f l(2) N by simp_all
  have blst: "st \<notin> bl ` {..<N}" "logb st i \<notin> bl ` {..<N}" if "i < N" for i
    using fits in_log_area(1) [of st] in_log_area(2) [of i st] that l(2) by (auto simp: log_fits_def)
  have mst: "m \<noteq> st" if "m \<notin> log_area st" using that in_log_area(1) by metis
  have blst0: "st \<notin> bl ` {..<j}" if "j \<le> N" for j using fits in_log_area(1) [of st] that by (auto simp: log_fits_def)
  have "log_fits st (rec_n st g) (rec_bl st g) \<and> (m \<notin> log_area st \<longrightarrow> upd_all (rec_writes st g) g m = (if N < k \<and> m \<in> bl ` {..<N} then C m else f m))"
  proof -
    consider (none) "k \<le> N" | (some) j where "k = Suc (N + j)" "j \<le> N" | (all) "Suc (Suc (N + N)) \<le> k"
    proof -
      assume t: "k \<le> N \<Longrightarrow> thesis" "\<And>j. k = Suc (N + j) \<Longrightarrow> j \<le> N \<Longrightarrow> thesis" "Suc (Suc (N + N)) \<le> k \<Longrightarrow> thesis"
      show thesis using t(1,3) t(2) [of "k - Suc N"] by linarith
    qed
    then show ?thesis
    proof cases
      case none
      then have g: "g = upd_all (logged st k bl C) f" using l(3) by (simp add: g_def ws take_logged)
      have fk: "log_fits st k bl" using fits none by (auto simp: log_fits_def)
      have "g st = f st" "m \<notin> log_area st \<Longrightarrow> g m = f m" using upd_logged(2) [OF fk] by (simp_all add: g)
      then show ?thesis using rec_empty [of g st] f(2) l(1) none mst by auto
    next
      case (some j)
      let ?f = "(upd_all ?L f)(st := ?h)"
      have "take j ?M = map (\<lambda>i. (bl i, C (bl i))) [0..<j]" using some by (simp add: take_map)
      then have g: "g x = (if x \<in> bl ` {..<j} then C x else ?f x)" for x
        using some l(3) by (simp add: g_def ws upd_all_home)
      have gst: "g st = ?h" using g [of st] blst0 [OF some(2)] by simp
      have gl: "g (logb st i) = C (bl i)" if "i < N" for i
      proof -
        have "logb st i \<notin> bl ` {..<j}" using blst(2) [OF that] some(2) by auto
        moreover have "logb st i \<noteq> st" using logb_inj(1) [OF l(1)] that l(2) by simp
        ultimately show ?thesis using g upd_logged(1) [OF fits that] by simp
      qed
      have "g m = f m" if "m \<notin> log_area st" "m \<notin> bl ` {..<N}"
        using g [of m] that some(2) upd_logged(2) [OF fits, of m C f] mst by auto
      then show ?thesis using rec_full [OF fits, of g n C] gst gl h N some(1) mst by auto
    next
      case all
      then have "take k (commit_writes st n bl C) = commit_writes st n bl C" by (simp add: ws l(3))
      then have g: "g = (upd_all ?M ((upd_all ?L f)(st := ?h)))(st := hdr 0 bl ?h)" by (simp add: g_def ws)
      have "get32 (hdr 0 bl ?h) 0 = 0" using hdr_facts(2) [of ?h 0 bl] h(1) by simp
      then have z: "get32 (g st) 0 = 0" by (simp add: g)
      have "g m = (if m \<in> bl ` {..<N} then C m else f m)" if "m \<notin> log_area st"
        using that mst upd_logged(2) [OF fits, of m C f] by (auto simp: g upd_all_home)
      then show ?thesis using rec_empty [of g st, OF z l(1)] all mst by auto
    qed
  qed
  then show "log_fits st (rec_n st g) (rec_bl st g)" "m \<notin> log_area st \<Longrightarrow> upd_all (rec_writes st g) g m = (if N < k \<and> m \<in> bl ` {..<N} then C m else f m)"
    by blast+
qed

text \<open>Recovery may itself be interrupted, any number of times.\<close>

inductive crash_rec :: "u32 \<Rightarrow> (u32 \<Rightarrow> u8 list) \<Rightarrow> (u32 \<Rightarrow> u8 list) \<Rightarrow> bool" for st f where
  crash_here: "crash_rec st f f"
| crash_again: "crash_rec st f g \<Longrightarrow> crash_rec st f (upd_all (take k (rec_writes st g)) g)"

lemma upd_all_absorb:
  assumes "fst ` set V \<subseteq> fst ` set W"
  shows "upd_all W (upd_all V f) = upd_all W f"
proof
  have same: "upd_all W f m = upd_all W g m" if "m \<in> fst ` set W \<or> f m = g m" for f g :: "u32 \<Rightarrow> u8 list" and m
    using that
  proof (induction W rule: rev_induct)
    case (snoc w W)
    then show ?case by (cases w; cases "m = fst w") auto
  qed simp
  fix m
  show "upd_all W (upd_all V f) m = upd_all W f m"
  proof (cases "m \<in> fst ` set W")
    case False
    then have "upd_all V f m = f m" using assms by (intro upd_all_other) blast
    then show ?thesis by (intro same) simp
  qed (rule same, simp)
qed

lemma rec_again:
  fixes k :: nat
  assumes fits: "log_fits st (rec_n st g) (rec_bl st g)" and len: "length (g st) = BSIZE"
  defines "g' \<equiv> upd_all (take k (rec_writes st g)) g"
  shows "log_fits st (rec_n st g') (rec_bl st g') \<and> length (g' st) = BSIZE \<and>
    (\<forall>m. m \<noteq> st \<longrightarrow> upd_all (rec_writes st g') g' m = upd_all (rec_writes st g) g m)"
proof -
  let ?N = "rec_n st g" and ?bl = "rec_bl st g" and ?z = "patch 0 (to_bytes 4 (0 :: u32)) (g st)"
  define W where "W = installed st ?N ?bl g"
  have l: "unat st + LOGSIZE + 1 < 2 ^ 31" "?N \<le> LOGSIZE" "length W = ?N" using fits by (auto simp: log_fits_def W_def installed_def)
  have rw: "rec_writes st g = W @ [(st, ?z)]" by (simp add: rec_writes_def W_def)
  have z: "get32 ?z 0 = 0" "length ?z = BSIZE" using get32_patch_same [of 0 "g st" 0] length_patch [of 0 "to_bytes 4 (0 :: u32)" "g st"] len
    by (simp_all add: BSIZE_def)
  have Wf: "fst ` set W = ?bl ` {..<?N}" by (simp add: W_def installed_def image_image atLeast0LessThan)
  have out: "st \<notin> fst ` set W" unfolding Wf using fits in_log_area(1) [of st] by (auto simp: log_fits_def)
  have outl: "logb st i \<notin> fst ` set W" if "i < ?N" for i
    unfolding Wf using fits in_log_area(2) [of i st] l(2) that by (auto simp: log_fits_def)
  show ?thesis
  proof (cases "k \<le> ?N")
    case True
    let ?V = "take k W"
    have g': "g' = upd_all ?V g" using True l(3) by (simp add: g'_def rw)
    have V: "fst ` set ?V \<subseteq> fst ` set W" by (auto dest: in_set_takeD)
    have st: "g' st = g st" using out V by (auto simp: g' intro!: upd_all_other)
    have lb: "g' (logb st i) = g (logb st i)" if "i < ?N" for i using outl [OF that] V by (auto simp: g' intro!: upd_all_other)
    have n: "rec_n st g' = ?N" "rec_bl st g' = ?bl" using st by (simp_all add: rec_n_def rec_bl_def fun_eq_iff)
    have "installed st ?N ?bl g' = W" using lb by (simp add: W_def installed_def)
    then have "rec_writes st g' = W @ [(st, ?z)]" using n st by (simp add: rec_writes_def)
    then show ?thesis using n fits len st upd_all_absorb [OF V, of g] by (simp add: rw g')
  next
    case False
    then have "take k (rec_writes st g) = W @ [(st, ?z)]" by (simp add: rw l(3))
    then have g': "g' = (upd_all W g)(st := ?z)" by (simp add: g'_def)
    have "get32 (g' st) 0 = 0" using z by (simp add: g')
    from rec_empty [of g' st, OF this l(1)] show ?thesis using z(2) by (simp add: g' rw)
  qed
qed

lemma crash_rec_stable:
  assumes "crash_rec st f g" and "log_fits st (rec_n st f) (rec_bl st f)" and "length (f st) = BSIZE"
  shows "log_fits st (rec_n st g) (rec_bl st g) \<and> length (g st) = BSIZE \<and>
    (\<forall>m. m \<noteq> st \<longrightarrow> upd_all (rec_writes st g) g m = upd_all (rec_writes st f) f m)"
  using assms(1)
proof induction
  case crash_here
  then show ?case using assms(2,3) by simp
next
  case (crash_again g k)
  then show ?case using rec_again [of st g k] by simp
qed

lemma commit_header_length:
  assumes "log_fits st (nat (sint n)) bl" and "length (f st) = BSIZE" "C st = f st"
  shows "length (upd_all (take k (commit_writes st n bl C)) f st) = BSIZE"
proof -
  have h: "length (hdr n bl (C st)) = BSIZE" "length (hdr 0 bl (hdr n bl (C st))) = BSIZE"
    using hdr_facts(1) [of "C st" n bl] hdr_facts(1) [of "hdr n bl (C st)" 0 bl] assms by (simp_all add: log_fits_def)
  have "length (upd_all ws f st) = BSIZE" if "\<And>d. (st, d) \<in> set ws \<Longrightarrow> length d = BSIZE" for ws
    using that assms(2) by (induction ws rule: rev_induct) auto
  moreover have "length d = BSIZE" if "(st, d) \<in> set (commit_writes st n bl C)" for d
  proof -
    have l: "unat st + LOGSIZE + 1 < 2 ^ 31" "nat (sint n) \<le> LOGSIZE" using assms(1) by (auto simp: log_fits_def)
    have "logb st i \<noteq> st" if "i < nat (sint n)" for i using logb_inj(1) [OF l(1)] l(2) that by simp
    then have "st \<notin> logb st ` {..<nat (sint n)}" by (metis imageE lessThan_iff)
    moreover have "st \<notin> bl ` {..<nat (sint n)}" using assms(1) in_log_area(1) [of st] by (auto simp: log_fits_def)
    ultimately show ?thesis using that h by (auto simp: commit_writes_def logged_def Let_def image_iff)
  qed
  ultimately show ?thesis by (meson in_set_takeD)
qed

section \<open>Transactions\<close>

definition pins :: "'a logst_scheme \<Rightarrow> u32 \<Rightarrow> nat" where
  "pins s n = (if n \<in> lh_block s ` {..<lh_count s} then 1 else 0)"

text \<open>The log while one operation is under way, with the counts its header allows.\<close>

definition log_wf :: "'a logst_scheme \<Rightarrow> bool" where
  "log_wf s \<longleftrightarrow> log_fits (lg_start s) (lh_count s) (lh_block s) \<and> inj_on (lh_block s) {..<lh_count s} \<and>
     lh_n s = of_nat (lh_count s) \<and> int LOGSIZE \<le> sint (lg_size s)"

definition txn_ok :: "nat \<Rightarrow> 'a logst_scheme \<Rightarrow> (u32 \<Rightarrow> u8 list) \<Rightarrow> blkdisk \<Rightarrow> bool" where
  "txn_ok p s C D \<longleftrightarrow> cview p (lg_dev s) s C D (pins s) Map.empty (biost.more s) \<and> log_wf s \<and> lg_outstanding s = 1 \<and> lg_committing s = 0"

lemma cview_calm: "cview p dev s C D R H X \<Longrightarrow> calm p s"
  by (simp add: cview_def bio_ok_def disk_ready_calm)

lemma begin_op_run:
  assumes "calm p s" and "lh_n s = 0" and "lg_outstanding s = 0" and "lg_committing s = 0"
  shows "begin_op s = Inr ((), s\<lparr>lg_outstanding := 1\<rparr>)"
  using assms by (simp add: calm_def begin_op_def begin_op_among_def lockrun word_sless_alt LOGSIZE_def MAXOPBLOCKS_def)

lemma log_write_room:
  assumes "log_wf s" and "lh_count s < LOGSIZE - 1"
  shows "\<not> (of_nat LOGSIZE \<le>s lh_n s \<or> lg_size s - 1 \<le>s lh_n s)"
proof -
  have "sint (lh_n s) = int (lh_count s)" using assms by (simp add: log_wf_def sint_of_nat_small LOGSIZE_def MAXOPBLOCKS_def)
  moreover have "sint (of_nat LOGSIZE :: u32) = int LOGSIZE" by (rule sint_of_nat_small) (simp add: LOGSIZE_def MAXOPBLOCKS_def)
  moreover have "sint (lg_size s - 1) = sint (lg_size s) - 1"
    using assms(1) sint_lt [of "lg_size s"] by (simp add: sint_word_ariths signed_take_bit_int_eq_self log_wf_def LOGSIZE_def MAXOPBLOCKS_def)
  ultimately show ?thesis using assms by (auto simp: word_sle_eq log_wf_def)
qed

lemma log_write_run:
  assumes c: "calm p s" and n: "b_blockno (bufs s b) = n" and wf: "log_wf s" and room: "lh_count s < LOGSIZE - 1" and o: "lg_outstanding s = 1"
  shows "n \<in> lh_block s ` {..<lh_count s} \<Longrightarrow> log_write b s = Inr ((), s)"
    and "n \<notin> lh_block s ` {..<lh_count s} \<Longrightarrow> log_write b s = Inr ((),
      s\<lparr>lh_block := (lh_block s)(lh_count s := n), bufs := (bufs s)(b := (bufs s b)\<lparr>b_refcnt := b_refcnt (bufs s b) + 1\<rparr>), lh_n := lh_n s + 1\<rparr>)"
proof -
  let ?find = "find (\<lambda>i. lh_block s i = n) [0..<lh_count s]"
  note r = log_write_room [OF wf room]
  show "log_write b s = Inr ((), s)" if "n \<in> lh_block s ` {..<lh_count s}"
  proof -
    have "?find \<noteq> None" using that by (auto simp: find_None_iff)
    then obtain i where i: "?find = Some i" by blast
    then have "i < lh_count s" "lh_block s i = n" using find_in [OF i] by simp_all
    then have "(lh_block s)(i := n) = lh_block s" by auto
    then show ?thesis using c r o n i \<open>i < lh_count s\<close> by (simp add: calm_def log_write_def lockrun lh_count_def)
  qed
  show "log_write b s = Inr ((), s\<lparr>lh_block := (lh_block s)(lh_count s := n), bufs := (bufs s)(b := (bufs s b)\<lparr>b_refcnt := b_refcnt (bufs s b) + 1\<rparr>), lh_n := lh_n s + 1\<rparr>)"
    if "n \<notin> lh_block s ` {..<lh_count s}"
  proof -
    have "?find = None" using that by (auto simp: find_None_iff)
    then show ?thesis using c r o n by (simp add: calm_def log_write_def bpin_def upd_buf_def lockrun lh_count_def)
  qed
qed

lemma bpin_calm:
  "calm p s \<Longrightarrow> bpin b s = Inr ((), s\<lparr>bufs := (bufs s)(b := (bufs s b)\<lparr>b_refcnt := b_refcnt (bufs s b) + 1\<rparr>)\<rparr>)"
  by (simp add: calm_def bpin_def upd_buf_def lockrun)

lemma pins_lim: "pins s n < 2 ^ 31"
  by (simp add: pins_def)

lemma card_pins: "card {m. pins s m \<noteq> 0} \<le> lh_count s"
proof -
  have "{m. pins s m \<noteq> 0} = lh_block s ` {..<lh_count s}" by (auto simp: pins_def)
  then show ?thesis using card_image_le [of "{..<lh_count s}" "lh_block s"] by simp
qed

lemma log_wf_add:
  assumes wf: "log_wf s" and room: "lh_count s < LOGSIZE - 1" and n: "n \<notin> lh_block s ` {..<lh_count s}" "unat n < 2 ^ 31" "n \<notin> log_area (lg_start s)"
    and t: "lg_start t = lg_start s" "lg_size t = lg_size s" "lh_block t = (lh_block s)(lh_count s := n)" "lh_n t = lh_n s + 1"
  shows "lh_count t = Suc (lh_count s)" "log_wf t" "lh_block t ` {..<lh_count t} = insert n (lh_block s ` {..<lh_count s})"
proof -
  have "lh_n t = of_nat (Suc (lh_count s))" using wf t(4) by (simp add: log_wf_def)
  moreover have "Suc (lh_count s) < 2 ^ 31" using room by (simp add: LOGSIZE_def MAXOPBLOCKS_def)
  ultimately show c: "lh_count t = Suc (lh_count s)" using sint_of_nat_small [of "Suc (lh_count s)"] by (simp add: lh_count_def del: of_nat_Suc)
  show img: "lh_block t ` {..<lh_count t} = insert n (lh_block s ` {..<lh_count s})" by (auto simp: c t(3) lessThan_Suc)
  have "inj_on (lh_block t) {..<lh_count t}" using wf n(1) by (auto simp: log_wf_def c t(3) lessThan_Suc inj_on_fun_updI)
  moreover have "log_fits (lg_start s) (lh_count t) (lh_block t)" using wf n room by (auto simp: log_wf_def log_fits_def c t(3) less_Suc_eq)
  ultimately show "log_wf t" using wf \<open>lh_n t = of_nat (Suc (lh_count s))\<close> by (simp add: log_wf_def t(1,2) c)
qed

text \<open>What an operation does to a block: read it, change it, log it, release it.\<close>

definition log_update :: "u32 \<Rightarrow> (u8 list \<Rightarrow> u8 list) \<Rightarrow> 'a logst_scheme \<Rightarrow> (unit \<times> 'a logst_scheme) res" where
  "log_update n u s = (
     bindR (bread (lg_dev s) n s) (\<lambda>(b, s).
     let s = set_bdata b (u (bdata s b)) s in
     bindR (log_write b s) (\<lambda>(_, s).
     brelse b s)))"

lemma log_update_run:
  assumes ok: "txn_ok p s C D" and n: "unat n < 2 ^ 31" "n \<notin> log_area (lg_start s)" and room: "lh_count s < LOGSIZE - 1"
  shows "\<exists>s'. log_update n u s = Inr ((), s') \<and> txn_ok p s' (C(n := u (C n))) D \<and> lg_dev s' = lg_dev s \<and> lg_start s' = lg_start s \<and>
    lg_size s' = lg_size s \<and> lh_block s' ` {..<lh_count s'} = insert n (lh_block s ` {..<lh_count s})"
proof -
  let ?dev = "lg_dev s" and ?X = "biost.more s" and ?R = "pins s" and ?C = "C(n := u (C n))"
  have v: "cview p ?dev s C D ?R Map.empty ?X" and wf: "log_wf s" and o: "lg_outstanding s = 1" "lg_committing s = 0" using ok by (simp_all add: txn_ok_def)
  have "card {m. ?R m \<noteq> 0} < NBUF" using card_pins [of s] room by (simp add: NBUF_def LOGSIZE_def MAXOPBLOCKS_def)
  then obtain b s1 where 1: "bread ?dev n s = Inr (b, s1)" "cview p ?dev s1 C D (?R(n := Suc (?R n))) [n \<mapsto> b] ?X"
    using cview_bread [OF v, of n] n pins_lim [of s n] by auto
  define s2 where "s2 = set_bdata b (u (C n)) s1"
  have 2: "cview p ?dev s2 ?C D (?R(n := Suc (?R n))) [n \<mapsto> b] ?X" unfolding s2_def using cview_set [OF 1(2), of n b] by simp
  note m = log_more [OF cview_more [OF 2]]
  have wf2: "log_wf s2" using wf m by (simp add: log_wf_def)
  have "b_blockno (bufs s2 b) = n" using cview_blockno [OF 2, of n b] by simp
  note lw = log_write_run [OF cview_calm [OF 2] this wf2, unfolded m, OF room o(1)]
  have up: "log_update n u s = bindR (log_write b s2) (\<lambda>(_, s). brelse b s)"
    using 1(1) cview_get [OF 1(2), of n b] by (simp add: log_update_def s2_def)
  show ?thesis
  proof (cases "n \<in> lh_block s ` {..<lh_count s}")
    case True
    then have "?R n = 1" "?R(n := 1) = ?R" by (simp_all add: pins_def fun_upd_idem)
    then obtain s3 where 3: "brelse b s2 = Inr ((), s3)" "cview p ?dev s3 ?C D ?R Map.empty ?X"
      using cview_brelse [OF 2, of n b] by auto
    note m3 = log_more [OF cview_more [OF 3(2)]]
    have "pins s3 = pins s" by (simp add: pins_def fun_eq_iff m3)
    then have "txn_ok p s3 ?C D" using 3(2) wf o cview_more [OF 3(2)] by (simp add: txn_ok_def log_wf_def m3)
    then show ?thesis using up lw(1) True 3(1) m3 by (auto simp: insert_absorb)
  next
    case False
    let ?t1 = "s2\<lparr>lh_block := (lh_block s)(lh_count s := n)\<rparr>"
    let ?t2 = "?t1\<lparr>bufs := (bufs s2)(b := (bufs s2 b)\<lparr>b_refcnt := b_refcnt (bufs s2 b) + 1\<rparr>)\<rparr>" let ?t3 = "?t2\<lparr>lh_n := lh_n s + 1\<rparr>"
    have t1: "cview p ?dev ?t1 ?C D (?R(n := Suc (?R n))) [n \<mapsto> b] (biost.more ?t1)" by (rule cview_log_upds(2) [OF 2])
    have "?R n = 0" using False by (simp add: pins_def)
    then have t2: "cview p ?dev ?t2 ?C D (?R(n := Suc (Suc 0))) [n \<mapsto> b] (biost.more ?t1)"
      using cview_bpin [OF t1, of n b] bpin_calm [OF cview_calm [OF t1], of b] by simp
    have t3: "cview p ?dev ?t3 ?C D (?R(n := Suc (Suc 0))) [n \<mapsto> b] (biost.more ?t3)" by (rule cview_log_upds(1) [OF t2])
    obtain s4 where 4: "brelse b ?t3 = Inr ((), s4)" "cview p ?dev s4 ?C D (?R(n := 1)) Map.empty (biost.more ?t3)"
      using cview_brelse [OF t3, of n b] by auto
    note m4 = log_more [OF cview_more [OF 4(2)]]
    have w: "lh_count s4 = Suc (lh_count s)" "log_wf s4" "lh_block s4 ` {..<lh_count s4} = insert n (lh_block s ` {..<lh_count s})"
      using log_wf_add [OF wf room False n, of s4] m m4 by simp_all
    have "pins s4 = ?R(n := 1)" unfolding pins_def [abs_def] w(3) by auto
    then have "txn_ok p s4 ?C D" using 4(2) w(2) o m m4 cview_more [OF 4(2)] by (simp add: txn_ok_def)
    then show ?thesis using up lw(2) False 4(1) w(3) m m4 by auto
  qed
qed

text \<open>A whole operation.\<close>

definition run_txn :: "(u32 \<times> (u8 list \<Rightarrow> u8 list)) list \<Rightarrow> 'a logst_scheme \<Rightarrow> (unit \<times> 'a logst_scheme) res" where
  "run_txn us s = (
     bindR (begin_op s) (\<lambda>(_, s).
     bindR (forR (\<lambda>(n, u). log_update n u) us s) (\<lambda>(_, s).
     end_op s)))"

definition apply_updates :: "(u32 \<times> (u8 list \<Rightarrow> u8 list)) list \<Rightarrow> (u32 \<Rightarrow> u8 list) \<Rightarrow> u32 \<Rightarrow> u8 list" where
  "apply_updates us f = fold (\<lambda>(n, u) f. f(n := u (f n))) us f"

lemma updates_run:
  assumes "txn_ok p s C D" and "\<forall>x \<in> set us. unat (fst x) < 2 ^ 31 \<and> fst x \<notin> log_area (lg_start s)"
    and "finite B" "lh_block s ` {..<lh_count s} \<union> fst ` set us \<subseteq> B" "card B < LOGSIZE - 1"
  shows "\<exists>s'. forR (\<lambda>(n, u). log_update n u) us s = Inr ((), s') \<and> txn_ok p s' (apply_updates us C) D \<and> lg_dev s' = lg_dev s \<and>
    lg_start s' = lg_start s \<and> lg_size s' = lg_size s \<and> lh_block s' ` {..<lh_count s'} = lh_block s ` {..<lh_count s} \<union> fst ` set us"
  using assms
proof (induction us arbitrary: s C)
  case Nil
  then show ?case by (simp add: apply_updates_def)
next
  case (Cons x us)
  obtain n u where x: "x = (n, u)" by (cases x)
  have "card (lh_block s ` {..<lh_count s}) = lh_count s" using Cons.prems(1) by (simp add: txn_ok_def log_wf_def card_image)
  moreover have "card (lh_block s ` {..<lh_count s}) \<le> card B" using Cons.prems(3,4) by (intro card_mono) auto
  ultimately have room: "lh_count s < LOGSIZE - 1" using Cons.prems(5) by simp
  obtain s1 where 1: "log_update n u s = Inr ((), s1)" "txn_ok p s1 (C(n := u (C n))) D" "lg_dev s1 = lg_dev s" "lg_start s1 = lg_start s"
    "lg_size s1 = lg_size s" "lh_block s1 ` {..<lh_count s1} = insert n (lh_block s ` {..<lh_count s})"
    using log_update_run [OF Cons.prems(1) _ _ room, of n u] Cons.prems(2) x by auto
  have "\<exists>s'. forR (\<lambda>(n, u). log_update n u) us s1 = Inr ((), s') \<and> txn_ok p s' (apply_updates us (C(n := u (C n)))) D \<and> lg_dev s' = lg_dev s1 \<and>
    lg_start s' = lg_start s1 \<and> lg_size s' = lg_size s1 \<and> lh_block s' ` {..<lh_count s'} = lh_block s1 ` {..<lh_count s1} \<union> fst ` set us"
    using Cons.prems(2-5) 1(4,6) x by (intro Cons.IH [OF 1(2)]) auto
  then show ?case using 1 x by (auto simp: apply_updates_def)
qed

text \<open>Nothing is under way, nothing is cached that the disk does not have, and the log on disk is empty.\<close>

definition log_idle :: "nat \<Rightarrow> 'a logst_scheme \<Rightarrow> bool" where
  "log_idle p s \<longleftrightarrow> bio_ok p (lg_dev s) s \<and> (\<forall>n. refs (lg_dev s) s n = 0) \<and> lh_n s = 0 \<and> lg_outstanding s = 0 \<and> lg_committing s = 0 \<and>
     unat (lg_start s) + LOGSIZE + 1 < 2 ^ 31 \<and> int LOGSIZE \<le> sint (lg_size s) \<and>
     length (disk s (lg_start s)) = BSIZE \<and> get32 (disk s (lg_start s)) 0 = 0"

definition txn_writes :: "'a logst_scheme \<Rightarrow> (u32 \<Rightarrow> u8 list) \<Rightarrow> (u32 \<times> u8 list) list" where
  "txn_writes s C = (if lh_count s = 0 then [] else commit_writes (lg_start s) (lh_n s) (lh_block s) C)"

lemma commit_any:
  assumes v: "cview p (lg_dev s) s C D (pins s) Map.empty (biost.more s)" and wf: "log_wf s" and room: "lh_count s < NBUF"
  shows "\<exists>s'. commit s = Inr ((), s') \<and>
    cview p (lg_dev s) s' (upd_all (txn_writes s C) C) (wr_all (txn_writes s C) D) (\<lambda>_. 0) Map.empty (biost.more (s\<lparr>lh_n := 0\<rparr>))"
proof (cases "lh_count s = 0")
  case True
  then have "lh_n s = 0" using wf by (simp add: log_wf_def)
  then have "biost.more (s\<lparr>lh_n := 0\<rparr>) = biost.more s" by (cases s) simp
  moreover have "pins s = (\<lambda>_. 0)" using True by (simp add: pins_def fun_eq_iff)
  ultimately show ?thesis using v True \<open>lh_n s = 0\<close> by (simp add: commit_def txn_writes_def)
next
  case False
  have "card {m. pins s m \<noteq> 0} < NBUF" using card_pins [of s] room by linarith
  moreover have "unpinned False (lh_count s) (lh_block s) (pins s) = (\<lambda>_. 0)" by (auto simp: unpinned_def pins_def fun_eq_iff)
  moreover have "pins s (lh_block s i) \<noteq> 0" if "i < lh_count s" for i using that by (simp add: pins_def)
  moreover have "log_fits (lg_start s) (lh_count s) (lh_block s)" "inj_on (lh_block s) {..<lh_count s}" using wf by (simp_all add: log_wf_def)
  ultimately show ?thesis using commit_run [OF v] False pins_lim [of s] by (simp add: txn_writes_def)
qed

lemma end_op_run:
  assumes ok: "txn_ok p s C D" and room: "lh_count s < NBUF"
  shows "\<exists>s'. end_op s = Inr ((), s') \<and> lh_n s' = 0 \<and> lg_outstanding s' = 0 \<and> lg_committing s' = 0 \<and> lg_dev s' = lg_dev s \<and>
    lg_start s' = lg_start s \<and> lg_size s' = lg_size s \<and>
    cview p (lg_dev s) s' (upd_all (txn_writes s C) C) (wr_all (txn_writes s C) D) (\<lambda>_. 0) Map.empty (biost.more s')"
proof -
  let ?s1 = "s\<lparr>lg_outstanding := 0, lg_committing := 1\<rparr>" and ?C = "upd_all (txn_writes s C) C" and ?D = "wr_all (txn_writes s C) D"
  have v: "cview p (lg_dev s) s C D (pins s) Map.empty (biost.more s)" and wf: "log_wf s" and o: "lg_outstanding s = 1" "lg_committing s = 0"
    using ok by (simp_all add: txn_ok_def)
  have e: "pins ?s1 = pins s" "lh_count ?s1 = lh_count s" "txn_writes ?s1 C = txn_writes s C" "log_wf ?s1"
    using wf by (simp_all add: pins_def fun_eq_iff lh_count_def txn_writes_def log_wf_def)
  have "cview p (lg_dev ?s1) ?s1 C D (pins ?s1) Map.empty (biost.more ?s1)"
    unfolding e(1) using cview_log_upds(4) [OF cview_log_upds(3) [OF v]] by simp
  from commit_any [OF this e(4)] obtain s2 where 2: "commit ?s1 = Inr ((), s2)" "cview p (lg_dev s) s2 ?C ?D (\<lambda>_. 0) Map.empty (biost.more (?s1\<lparr>lh_n := 0\<rparr>))"
    using room e by auto
  note m = log_more [OF cview_more [OF 2(2)]]
  let ?s3 = "s2\<lparr>lg_committing := 0, procs := woken (Some ChanLog) (Some p) {..<NPROC} (procs s2)\<rparr>"
  have "end_op s = Inr ((), ?s3)"
    using 2(1) o cview_calm [OF v] cview_calm [OF 2(2)] m by (simp add: end_op_def calm_def lockrun Let_def procs_free_def)
  moreover have "disk_ready p ?s3" using 2(2) by (simp add: cview_def bio_ok_def disk_ready_def lockrun woken_def)
  then have "cview p (lg_dev s) ?s3 ?C ?D (\<lambda>_. 0) Map.empty (biost.more ?s3)"
    by (intro cview_same [OF 2(2)]) (simp_all add: same_procs_intros)
  ultimately show ?thesis using m by (intro exI [of _ ?s3]) simp
qed

lemma apply_updates_other: "n \<notin> fst ` set us \<Longrightarrow> apply_updates us f n = f n"
  unfolding apply_updates_def by (induction us rule: rev_induct) (auto simp: split_beta)

lemma upd_all_same: "(\<And>m d. (m, d) \<in> set ws \<Longrightarrow> m = n \<Longrightarrow> d = f n) \<Longrightarrow> upd_all ws f n = f n"
  by (induction ws rule: rev_induct) (auto simp: split_beta)

lemma commit_final:
  assumes fits: "log_fits st (nat (sint n)) bl" and C: "length (C st) = BSIZE"
  shows "get32 (upd_all (commit_writes st n bl C) f st) 0 = 0" and "m \<notin> log_area st \<Longrightarrow> upd_all (commit_writes st n bl C) C m = C m"
proof -
  have N: "nat (sint n) \<le> LOGSIZE" using fits by (simp add: log_fits_def)
  have "length (hdr n bl (C st)) = BSIZE" using hdr_facts(1) [OF C N] .
  then have "get32 (hdr 0 bl (hdr n bl (C st))) 0 = 0" using hdr_facts(2) [of "hdr n bl (C st)" 0 bl] by simp
  then show "get32 (upd_all (commit_writes st n bl C) f st) 0 = 0" by (simp add: commit_writes_def Let_def)
  show "upd_all (commit_writes st n bl C) C m = C m" if "m \<notin> log_area st"
    using that in_log_area(1) [of st] in_log_area(2) [of _ st] N by (intro upd_all_same) (auto simp: commit_writes_def Let_def logged_def)
qed

text \<open>A machine that comes up again with the disk \<open>g\<close>.\<close>

definition rebooted :: "nat \<Rightarrow> u32 \<Rightarrow> (u32 \<Rightarrow> u8 list) \<Rightarrow> 'a logst_scheme \<Rightarrow> bool" where
  "rebooted p dev g t \<longleftrightarrow> bio_ok p dev t \<and> (\<forall>n. refs dev t n = 0) \<and> disk t = g \<and> lg_outstanding t = 0 \<and> lg_committing t = 0"

lemma log_initlock: "lg_outstanding (initlock lk nm s) = lg_outstanding s" "lg_committing (initlock lk nm s) = lg_committing s"
  by (simp_all add: initlock_def upd_lock_def)

lemma initlog_run:
  assumes t: "rebooted p dev g t" and fits: "log_fits st (rec_n st g) (rec_bl st g)" and len: "length (g st) = BSIZE" and sz: "int LOGSIZE \<le> sint nlog"
  shows "\<exists>t'. initlog dev st nlog t = Inr ((), t') \<and> log_idle p t' \<and> disk t' = upd_all (rec_writes st g) g"
proof -
  let ?t = "(initlock LogLock ''log'' t)\<lparr>lg_start := st, lg_size := nlog, lg_dev := dev\<rparr>" and ?D = "vq_disk (vq t)"
  have b: "bio_ok p dev t" "\<And>n. refs dev t n = 0" "disk t = g" "lg_outstanding t = 0" "lg_committing t = 0" using t by (simp_all add: rebooted_def)
  have "disk_ready p (initlock LogLock ''log'' t)" using disk_ready_initlock b(1) by (auto simp: bio_ok_def)
  then have r: "disk_ready p ?t" by (simp add: disk_ready_def lockrun)
  have "cview p dev ?t g ?D (\<lambda>_. 0) Map.empty (biost.more ?t)"
    using r b(3) by (intro cview_same [OF cview_idle [OF b(1,2), unfolded b(3)]]) (simp_all add: initlock_sels same_procs_intros)
  then have v: "cview p (lg_dev ?t) ?t g ?D (\<lambda>_. 0) Map.empty (biost.more ?t)" by simp
  have f: "log_fits (lg_start ?t) (rec_n (lg_start ?t) g) (rec_bl (lg_start ?t) g)" using fits by simp
  obtain t' where t': "recover_from_log ?t = Inr ((), t')" "lh_n t' = 0" "lg_conf t' = lg_conf ?t"
    "cview p dev t' (upd_all (rec_writes st g) g) (wr_all (rec_writes st g) ?D) (\<lambda>_. 0) Map.empty (biost.more t')"
    using recover_run [OF v f] by auto
  have d: "disk t' = upd_all (rec_writes st g) g" using cview_clean [OF t'(4)] t'(4) by (simp add: fun_eq_iff disk_dk cview_def)
  have z: "get32 (patch 0 (to_bytes 4 (0 :: u32)) (g st)) 0 = 0" "length (patch 0 (to_bytes 4 (0 :: u32)) (g st)) = BSIZE"
    using get32_patch_same [of 0 "g st" 0] length_patch [of 0 "to_bytes 4 (0 :: u32)" "g st"] len by (simp_all add: BSIZE_def)
  have "4 + 4 * LOGSIZE < BSIZE" by (simp add: LOGSIZE_def MAXOPBLOCKS_def BSIZE_def)
  then have "initlog dev st nlog t = Inr ((), t')" using t'(1) by (simp add: initlog_def Let_def)
  moreover have "log_idle p t'"
    using t'(2-4) d z fits sz b(4,5) by (simp add: log_idle_def lg_conf_def cview_def rec_writes_def log_fits_def log_initlock)
  ultimately show ?thesis using d by blast
qed

lemma run_txn_run:
  fixes s :: "'a logst_scheme"
  assumes idle: "log_idle p s" and us: "\<forall>x \<in> set us. unat (fst x) < 2 ^ 31 \<and> fst x \<notin> log_area (lg_start s)"
    and small: "card (fst ` set us) \<le> MAXOPBLOCKS"
  defines "C \<equiv> apply_updates us (disk s)"
  shows "\<exists>s' (t :: 'a logst_scheme). run_txn us s = Inr ((), s') \<and> lh_n s' = 0 \<and> lg_conf s' = lg_conf s \<and> log_wf t \<and> lg_start t = lg_start s \<and> lh_block t ` {..<lh_count t} = fst ` set us \<and>
    cview p (lg_dev s) s' (upd_all (txn_writes t C) C) (wr_all (txn_writes t C) (vq_disk (vq s))) (\<lambda>_. 0) Map.empty (biost.more s')"
proof -
  have i: "bio_ok p (lg_dev s) s" "\<And>n. refs (lg_dev s) s n = 0" "lh_n s = 0" "lg_outstanding s = 0" "lg_committing s = 0"
    "unat (lg_start s) + LOGSIZE + 1 < 2 ^ 31" "int LOGSIZE \<le> sint (lg_size s)" using idle by (simp_all add: log_idle_def)
  let ?s1 = "s\<lparr>lg_outstanding := 1\<rparr>" and ?D = "vq_disk (vq s)"
  have v: "cview p (lg_dev s) s (disk s) ?D (\<lambda>_. 0) Map.empty (biost.more s)" by (rule cview_idle [OF i(1,2)])
  have b: "begin_op s = Inr ((), ?s1)" using begin_op_run [OF cview_calm [OF v] i(3-5)] .
  have c: "lh_count ?s1 = 0" "pins ?s1 = (\<lambda>_. 0)" using i(3) by (simp_all add: lh_count_def pins_def fun_eq_iff)
  have "txn_ok p ?s1 (disk s) ?D" using cview_log_upds(3) [OF v] c i by (simp add: txn_ok_def log_wf_def log_fits_def)
  moreover have "card (fst ` set us) < LOGSIZE - 1" using small by (simp add: LOGSIZE_def MAXOPBLOCKS_def)
  ultimately obtain s2 where 2: "forR (\<lambda>(n, u). log_update n u) us ?s1 = Inr ((), s2)" "txn_ok p s2 C ?D" "lg_dev s2 = lg_dev s"
    "lg_start s2 = lg_start s" "lg_size s2 = lg_size s" "lh_block s2 ` {..<lh_count s2} = fst ` set us"
    using updates_run [of p ?s1 "disk s" ?D us "fst ` set us"] us c by (auto simp: C_def)
  have wf: "log_wf s2" using 2(2) by (simp add: txn_ok_def)
  then have "lh_count s2 = card (fst ` set us)" using 2(6) card_image [of "lh_block s2" "{..<lh_count s2}"] by (simp add: log_wf_def)
  then have "lh_count s2 < NBUF" using small by (simp add: NBUF_def MAXOPBLOCKS_def)
  from end_op_run [OF 2(2) this] obtain s3 where 3: "end_op s2 = Inr ((), s3)" "lh_n s3 = 0" "lg_outstanding s3 = 0" "lg_committing s3 = 0"
    "lg_dev s3 = lg_dev s" "lg_start s3 = lg_start s" "lg_size s3 = lg_size s"
    "cview p (lg_dev s) s3 (upd_all (txn_writes s2 C) C) (wr_all (txn_writes s2 C) ?D) (\<lambda>_. 0) Map.empty (biost.more s3)"
    using 2(3-5) by auto
  have "run_txn us s = Inr ((), s3)" using b 2(1) 3(1) by (simp add: run_txn_def)
  then show ?thesis using 3(2-8) wf 2(4,6) i(4,5) by (intro exI [of _ s3] exI [of _ s2]) (simp add: lg_conf_def)
qed

lemma txn_crash:
  assumes wf: "log_wf t" and len: "length (f (lg_start t)) = BSIZE" "get32 (f (lg_start t)) 0 = 0"
    and C: "\<forall>n. n \<notin> lh_block t ` {..<lh_count t} \<longrightarrow> C n = f n"
  defines "st \<equiv> lg_start t" and "c \<equiv> (if lh_count t = 0 then 0 else Suc (lh_count t))"
  shows "c \<le> length (txn_writes t C)" "length (upd_all (take k (txn_writes t C)) f st) = BSIZE"
    and "log_fits st (rec_n st (upd_all (take k (txn_writes t C)) f)) (rec_bl st (upd_all (take k (txn_writes t C)) f))"
    and "m \<notin> log_area st \<Longrightarrow> upd_all (rec_writes st (upd_all (take k (txn_writes t C)) f)) (upd_all (take k (txn_writes t C)) f) m = (if k < c then f m else C m)"
    and "get32 (upd_all (txn_writes t C) f st) 0 = 0" and "m \<notin> log_area st \<Longrightarrow> upd_all (txn_writes t C) C m = C m"
proof -
  have fits: "log_fits st (lh_count t) (lh_block t)" and N: "lh_count t = nat (sint (lh_n t))" using wf by (simp_all add: log_wf_def st_def lh_count_def)
  have l: "length (f st) = BSIZE" "get32 (f st) 0 = 0" using len by (simp_all add: st_def)
  have "st \<notin> lh_block t ` {..<lh_count t}" using fits in_log_area(1) [of st] by (auto simp: log_fits_def)
  then have Cst: "C st = f st" using C by blast
  note cr = crash_recovers [OF fits N, of f C, OF l Cst]
  have fits': "log_fits st (nat (sint (lh_n t))) (lh_block t)" using fits N by simp
  have "c \<le> length (txn_writes t C) \<and> length (upd_all (take k (txn_writes t C)) f st) = BSIZE \<and>
    log_fits st (rec_n st (upd_all (take k (txn_writes t C)) f)) (rec_bl st (upd_all (take k (txn_writes t C)) f)) \<and>
    (m \<notin> log_area st \<longrightarrow> upd_all (rec_writes st (upd_all (take k (txn_writes t C)) f)) (upd_all (take k (txn_writes t C)) f) m = (if k < c then f m else C m)) \<and>
    get32 (upd_all (txn_writes t C) f st) 0 = 0 \<and> (m \<notin> log_area st \<longrightarrow> upd_all (txn_writes t C) C m = C m)"
  proof (cases "lh_count t = 0")
    case True
    have "unat st + LOGSIZE + 1 < 2 ^ 31" using fits by (simp add: log_fits_def)
    moreover have "C m = f m" using C True by simp
    moreover have "m \<noteq> st" if "m \<notin> log_area st" using that in_log_area(1) by metis
    ultimately show ?thesis using rec_empty [of f st] l True by (auto simp: txn_writes_def c_def)
  next
    case False
    then have tw: "txn_writes t C = commit_writes st (lh_n t) (lh_block t) C" by (simp add: txn_writes_def st_def)
    have "c \<le> length (txn_writes t C)" using N by (simp add: c_def tw commit_writes_def Let_def logged_def)
    moreover have "C m = f m" if "m \<notin> lh_block t ` {..<lh_count t}" using that C by blast
    ultimately show ?thesis
      using cr(1) [of k] cr(2) [of m k] commit_header_length [OF fits', of f C, OF l(1) Cst, of k] commit_final [OF fits', of C] l(1) Cst False
      unfolding tw by (auto simp: c_def)
  qed
  then show "c \<le> length (txn_writes t C)" "length (upd_all (take k (txn_writes t C)) f st) = BSIZE"
    "log_fits st (rec_n st (upd_all (take k (txn_writes t C)) f)) (rec_bl st (upd_all (take k (txn_writes t C)) f))"
    "m \<notin> log_area st \<Longrightarrow> upd_all (rec_writes st (upd_all (take k (txn_writes t C)) f)) (upd_all (take k (txn_writes t C)) f) m = (if k < c then f m else C m)"
    "get32 (upd_all (txn_writes t C) f st) 0 = 0" "m \<notin> log_area st \<Longrightarrow> upd_all (txn_writes t C) C m = C m"
    by blast+
qed

section \<open>Property\<close>


lemma demo_log_idle: "log_idle 0 demo_bio" "lg_start demo_bio = 2" "lg_dev demo_bio = 1" "lg_size demo_bio = 30" "disk demo_bio = (\<lambda>_. replicate BSIZE 0)"
  "rebooted 0 1 (disk demo_bio) demo_bio"
proof -
  have v: "cview 0 1 demo_bio (\<lambda>_. replicate BSIZE 0) (vq_disk (vq demo_st)) (\<lambda>_. 0) Map.empty (biost.more demo_st)" by (rule demo_bio_view)
  note m = log_more [OF cview_more [OF v]]
  show d: "disk demo_bio = (\<lambda>_. replicate BSIZE 0)" using cview_clean [OF v] v by (simp add: fun_eq_iff disk_dk cview_def)
  show f: "lg_start demo_bio = 2" "lg_dev demo_bio = 1" "lg_size demo_bio = 30" using m by (simp_all add: demo_st_def)
  have z: "get32 (replicate BSIZE 0) 0 = 0" "lh_n demo_bio = 0" "lg_outstanding demo_bio = 0" "lg_committing demo_bio = 0"
    using m by (simp_all add: demo_st_def get32_def BSIZE_def numeral_eq_Suc)
  show "log_idle 0 demo_bio" using v d f z by (simp add: log_idle_def cview_def LOGSIZE_def MAXOPBLOCKS_def)
  show "rebooted 0 1 (disk demo_bio) demo_bio" using v z by (simp add: rebooted_def cview_def)
qed




end
