(* ===== verification/Spec2Isabelle.thy ===== *)
theory Spec2Isabelle
  imports Xv6_Prelude Riscv Fcntl Kstring Spinlock Kalloc Vm Pagetable Uspace Ucopy Grep Printing Shell
    Proc Console Sleeplock Virtio Bio Logfs Fs Pipe File Process Exec Sysarg Sysfile Trap Boot
    Lockrun Lockfields Sleepwake Proc_Correct Ring Demo Pipe_Correct Console_Correct Trapvec
    Disk_Correct Bio_Correct Log_Correct
begin

text \<open>
  \<^bold>\<open>xv6 for RISC-V: a model of the kernel, its shell parser and grep, and their properties.\<close>

  The sources are under \<open>src/\<close>: the kernel in \<open>kernel/\<close>, user programs in \<open>user/\<close>, the builder of the
  disk image in \<open>mkfs/\<close>.  Interrupts and system calls enter through the assembly of \<open>trampoline.S\<close> and
  \<open>kernelvec.S\<close> into \<open>trap.c\<close>, which dispatches to the system calls and the drivers.  File system calls go
  through \<open>file.c\<close>, \<open>fs.c\<close>, the log, the buffer cache and the disk driver; every layer uses the spin locks, and the ones
  that wait use \<open>sleep\<close> and \<open>wakeup\<close>.

  \<^bold>\<open>State and outcomes.\<close>  The kernel's memory is an explicit state, a chain of records in which every component adds
  its own fields to those it calls: \<open>kmach\<close> (harts, CPUs, locks), \<open>kst\<close> (physical memory and the page
  allocator), \<open>vmst\<close>, \<open>pst\<close> (processes), \<open>cnst\<close> (console and UART), \<open>slst\<close> (sleep locks), \<open>vdst\<close> (disk driver and buffers),
  \<open>biost\<close> (the list of buffers), \<open>logst\<close>, \<open>fsst\<close>, \<open>ppst\<close> (pipes), \<open>flst\<close> (open files), \<open>trst\<close> (traps).  A function is
  polymorphic in the fields that come later.  It returns \<open>Inr\<close> of its value and the new state, \<open>Inl (Panic m)\<close> where the
  source calls \<open>panic\<close>, or \<open>Inl Stuck\<close> where it would spin or sleep for ever or where C leaves the behaviour undefined.
  Machine integers are words of their width.

  \<^bold>\<open>Theories of the model\<close>, each with its source files:
  \<^item> \<open>Xv6_Prelude\<close>: outcomes, loops, little-endian bytes, memory.  \<open>Riscv\<close>: \<open>riscv.h\<close>, \<open>memlayout.h\<close>, \<open>param.h\<close>.
    \<open>Fcntl\<close>: \<open>fcntl.h\<close>.
  \<^item> \<open>Kstring\<close>: \<open>string.c\<close>.  \<open>Spinlock\<close>: \<open>spinlock.c\<close> and the CPU part of \<open>proc.h\<close>.  \<open>Kalloc\<close>: \<open>kalloc.c\<close>.
    \<open>Vm\<close>: \<open>vm.c\<close>.  \<open>Ucopy\<close>: the copies of \<open>vm.c\<close> for kernel objects that are records of the model.
  \<^item> \<open>Proc\<close> and \<open>Process\<close>: \<open>proc.c\<close>, \<open>proc.h\<close>, \<open>swtch.S\<close>.  \<open>Sleeplock\<close>: \<open>sleeplock.c\<close>.  \<open>Sleepwake\<close>: \<open>sleep\<close>, \<open>wakeup\<close> and
    \<open>scheduler\<close> of \<open>proc.c\<close> once more, as the interleaved steps of several harts.
  \<^item> \<open>Printing\<close>: the formatting of both \<open>printf.c\<close> files.  \<open>Console\<close>: \<open>uart.c\<close>, \<open>console.c\<close>, \<open>plic.c\<close>, the output part of
    \<open>kernel/printf.c\<close>.
  \<^item> \<open>Virtio\<close>: \<open>virtio_disk.c\<close>, \<open>virtio.h\<close>.  \<open>Bio\<close>: \<open>bio.c\<close>.  \<open>Logfs\<close>: \<open>log.c\<close>.  \<open>Fs\<close>: \<open>fs.c\<close>, \<open>fs.h\<close>, \<open>stat.h\<close>.
  \<^item> \<open>Pipe\<close>: \<open>pipe.c\<close>.  \<open>File\<close>: \<open>file.c\<close>.  \<open>Exec\<close>: \<open>exec.c\<close>, \<open>elf.h\<close>.  \<open>Sysarg\<close>, \<open>Sysfile\<close>: \<open>syscall.c\<close>, \<open>sysfile.c\<close>.
  \<^item> \<open>Trap\<close>: \<open>sysproc.c\<close>, the dispatch of \<open>syscall.c\<close>, \<open>trap.c\<close>, \<open>forkret\<close>.  \<open>Boot\<close>: \<open>start.c\<close>, \<open>main.c\<close>.  \<open>Trapvec\<close>: \<open>entry.S\<close>,
    \<open>trampoline.S\<close>, \<open>kernelvec.S\<close> as lists of instructions that run on the registers and memory of a hart.
  \<^item> \<open>Grep\<close>: \<open>user/grep.c\<close>.  \<open>Shell\<close>: the parser of \<open>user/sh.c\<close>.

  \<^bold>\<open>Interfaces.\<close>  \<open>mutex\<close> (a lock and its critical sections) is interpreted on \<open>acquire\<close> and \<open>release\<close>;
  \<open>page_allocator\<close> on \<open>kalloc\<close> and \<open>kfree\<close>; \<open>fifo\<close> (a bounded queue) on the rings of pipes and of the UART;
  \<open>block_cache\<close> on \<open>bread\<close>, \<open>bwrite\<close> and \<open>brelse\<close>.  The clients' lemmas are proved once, in the locales.

  \<^bold>\<open>What the lemmas show.\<close>
  \<^item> \<open>Spinlock\<close>: mutual exclusion under every interleaving; the nesting of \<open>push_off\<close>.  \<open>Lockrun\<close> and \<open>Lockfields\<close> turn
    locked code into equations, which the theories named \<open>_Correct\<close> use.
  \<^item> \<open>Sleepwake\<close>: no wakeup is lost, and the sleepers all pass.  \<open>Proc_Correct\<close>: what \<open>wakeup\<close> does.
  \<^item> \<open>Kalloc\<close>, \<open>Pagetable\<close>, \<open>Uspace\<close>, \<open>Ucopy\<close>: the allocator is a pool of pages, page tables are trees that \<open>mappages\<close> extends by
    the asked range, and the copies to and from user memory are correct and confined.
  \<^item> \<open>Kstring\<close>, \<open>Printing\<close>: overlapping moves, string termination, agreement of the two formatters.
  \<^item> \<open>Ring\<close>, \<open>Pipe_Correct\<close>, \<open>Console_Correct\<close>: pipes and the UART are queues, the console is a line editor.
  \<^item> \<open>Disk_Correct\<close>: one disk request, with the sleep and the interrupt that ends it.  \<open>Bio_Correct\<close>: the cache keeps its
    well-formedness, and through it the disk is an array of blocks.  \<open>Log_Correct\<close>: what \<open>commit\<close> writes and recovery reads, and that
    transactions are atomic whenever the machine stops, also during recovery.
  \<^item> \<open>Trapvec\<close>: traps keep the interrupted registers.  \<open>Grep\<close>, \<open>Shell\<close>: the matcher decides its patterns, the parser inverts
    printing and terminates.
  \<^item> \<open>Demo\<close> and the definitions named \<open>demo_\<close> are concrete states on which the properties are applied.

  \<^bold>\<open>Parameters.\<close>  What other processes do while a caller is switched out is an argument \<open>others\<close> of the functions that
  block, a list of them where a loop blocks repeatedly, and \<open>alone\<close> when nobody else runs.  The disk is the field \<open>device\<close>, a function on
  the shared queue; \<open>virtio_device\<close> states what the virtio specification asks of it for one request, and \<open>serve\<close>
  is a device that does so.  \<open>disk_turn\<close> lets the device serve the queue and deliver its interrupt while the caller sleeps.

  \<^bold>\<open>Bounds.\<close>  Loops that follow pointers take a bound: \<open>Suc NBUF\<close> steps around the list of \<open>NBUF\<close> buffers, which
  \<open>bfind_lru\<close> shows to be enough; \<open>Suc NUM\<close> steps along a descriptor chain of at most \<open>NUM\<close> descriptors; three levels for
  \<open>freewalk\<close>; one more step than there are received characters for \<open>uartintr\<close>.  The parser takes \<open>4 * length buf + 4\<close>,
  and \<open>parsecmd_terminates\<close> shows that it never runs out.  The disk properties need block numbers below \<open>2 ^ 31\<close>, so that the
  sector number does not wrap, and at most \<open>MAXOPBLOCKS\<close> blocks in an operation.  They are about one process at a time: the
  interleaving of several transactions is not covered.

  \<^bold>\<open>Not modelled.\<close>  \<open>ramdisk.c\<close> is not linked and uses flags that \<open>buf.h\<close> does not define.  The test programs
  (\<open>usertests.c\<close>, \<open>grind.c\<close>, \<open>forktest.c\<close>, \<open>stressfs.c\<close>, \<open>test.c\<close>) exercise the system and are not part of it.  \<open>mkfs.c\<close> runs on
  the host against its file interface.  The short user programs are sequences of system calls with little of their own; of \<open>ulib.c\<close> only
  \<open>strchr\<close> and \<open>atoi\<close> are here, \<open>umalloc.c\<close> is not, and of \<open>sh.c\<close> the part that runs a parsed command is left out.
  \<open>initcode.S\<close> and \<open>usys.pl\<close> are the user side of the system call instruction.
\<close>

end
